(* ===== verification/Prelude.thy ===== *)
theory Prelude
  imports
    Complex_Main
    "HOL-Library.Word"
    "HOL-Library.Sublist"
    "HOL-Library.Char_ord"
    "HOL-Library.List_Lexorder"
begin

text \<open>
  Shared vocabulary of the development: the model's byte strings and machine integers, the
  parts of the Rust standard library the program uses on them (decimal printing and parsing,
  UTF-8 checks, white space, splitting and joining of strings), and the generic lemmas the
  components share.

  A Rust \<open>Vec<u8>\<close>, \<open>&[u8]\<close>, \<open>String\<close> or \<open>&str\<close> is a \<^typ>\<open>string\<close>: HOL characters are
  bytes, and a Rust string is the list of its UTF-8 bytes.  Lengths are therefore byte counts,
  as \<open>len()\<close> is in Rust.
\<close>

named_theorems wire_simps "facts about text and packet framing"
named_theorems route_simps "facts about single packet-routing steps"
named_theorems lookup_simps "facts about table lookups after an operation"

type_synonym bytes = string
type_synonym u64 = "64 word"
type_synonym i64 = "64 word"
type_synonym u32 = "32 word"
type_synonym i32 = "32 word"

text \<open>
  A call that can fail or panic: \<open>Ret\<close> is a normal return, \<open>Err\<close> a returned error,
  \<open>Panic\<close> an unwinding panic (\<open>unwrap\<close> on a failure).
\<close>

datatype ('e, 'a) outcome = Ret 'a | Err 'e | Panic

fun bind_outcome :: "('e, 'a) outcome \<Rightarrow> ('a \<Rightarrow> ('e, 'b) outcome) \<Rightarrow> ('e, 'b) outcome" where
  "bind_outcome (Ret x) f = f x"
| "bind_outcome (Err e) f = Err e"
| "bind_outcome Panic f = Panic"

lemma bind_outcome_eq_Ret:
  "bind_outcome r f = Ret y \<longleftrightarrow> (\<exists>x. r = Ret x \<and> f x = Ret y)"
  by (cases r) auto

text \<open>\<open>ok_or\<close>: an absent value becomes the given error.\<close>

fun ok_or :: "'e \<Rightarrow> 'a option \<Rightarrow> ('e, 'a) outcome" where
  "ok_or e None = Err e"
| "ok_or e (Some x) = Ret x"

lemma ok_or_eq_Ret [simp]: "ok_or e v = Ret x \<longleftrightarrow> v = Some x"
  by (cases v) auto

subsection \<open>Bytes and decimal numbers\<close>

abbreviation byte_val :: "char \<Rightarrow> nat" where
  "byte_val c \<equiv> of_char c"

definition crlf :: bytes where
  "crlf = [CHR 0x0D, CHR 0x0A]"

definition is_digit :: "char \<Rightarrow> bool" where
  "is_digit c \<longleftrightarrow> 48 \<le> byte_val c \<and> byte_val c \<le> 57"

definition digit_char :: "nat \<Rightarrow> char" where
  "digit_char n = char_of (48 + n)"

text \<open>\<open>Display\<close> of an unsigned and of a signed integer.\<close>

fun dec_of_nat :: "nat \<Rightarrow> string" where
  "dec_of_nat n =
     (if n < 10 then [digit_char n] else dec_of_nat (n div 10) @ [digit_char (n mod 10)])"

declare dec_of_nat.simps [simp del]

definition dec_of_int :: "int \<Rightarrow> string" where
  "dec_of_int i = (if i < 0 then CHR ''-'' # dec_of_nat (nat (- i)) else dec_of_nat (nat i))"

fun digits_val :: "nat \<Rightarrow> string \<Rightarrow> nat option" where
  "digits_val n [] = Some n"
| "digits_val n (c # cs) =
     (if is_digit c then digits_val (10 * n + (byte_val c - 48)) cs else None)"

text \<open>
  \<open>str::parse\<close> for an unsigned integer type with largest value \<open>m\<close>: an optional leading
  plus sign, at least one digit, nothing else, and no overflow.
\<close>

definition parse_uint :: "nat \<Rightarrow> string \<Rightarrow> nat option" where
  "parse_uint m s =
     (let ds = (case s of c # r \<Rightarrow> if c = CHR ''+'' then r else s | [] \<Rightarrow> s)
      in if ds = [] then None
         else (case digits_val 0 ds of
                 None \<Rightarrow> None
               | Some n \<Rightarrow> if n \<le> m then Some n else None))"

text \<open>\<open>str::parse\<close> for a signed integer type with values from \<open>lo\<close> to \<open>hi\<close>.\<close>

definition parse_sint :: "int \<Rightarrow> int \<Rightarrow> string \<Rightarrow> int option" where
  "parse_sint lo hi s =
     (let neg = (case s of c # _ \<Rightarrow> c = CHR ''-'' | [] \<Rightarrow> False);
          ds = (case s of c # r \<Rightarrow> if c = CHR ''+'' \<or> c = CHR ''-'' then r else s | [] \<Rightarrow> s)
      in if ds = [] then None
         else (case digits_val 0 ds of
                 None \<Rightarrow> None
               | Some n \<Rightarrow>
                   (let i = (if neg then - int n else int n)
                    in if lo \<le> i \<and> i \<le> hi then Some i else None)))"

definition u64_max :: nat where "u64_max = 2 ^ 64 - 1"
definition u32_max :: nat where "u32_max = 2 ^ 32 - 1"
definition u16_max :: nat where "u16_max = 2 ^ 16 - 1"

definition parse_u64 :: "string \<Rightarrow> u64 option" where
  "parse_u64 s = map_option of_nat (parse_uint u64_max s)"

definition parse_u32 :: "string \<Rightarrow> u32 option" where
  "parse_u32 s = map_option of_nat (parse_uint u32_max s)"

definition parse_i64 :: "string \<Rightarrow> i64 option" where
  "parse_i64 s = map_option word_of_int (parse_sint (- (2 ^ 63)) (2 ^ 63 - 1) s)"

lemma is_digit_digit_char [simp]: "n < 10 \<Longrightarrow> is_digit (digit_char n)"
  by (simp add: is_digit_def digit_char_def)

lemma byte_val_digit_char [simp]: "n < 10 \<Longrightarrow> byte_val (digit_char n) = 48 + n"
  by (simp add: digit_char_def)

lemma digits_val_append:
  "digits_val n (xs @ ys) = Option.bind (digits_val n xs) (\<lambda>m. digits_val m ys)"
  by (induction n xs rule: digits_val.induct) auto

lemma digits_val_dec_of_nat [simp]: "digits_val 0 (dec_of_nat n) = Some n"
proof (induction n rule: dec_of_nat.induct)
  case (1 n)
  then show ?case
    by (subst dec_of_nat.simps) (auto simp: digits_val_append)
qed

lemma dec_of_nat_not_Nil [simp]: "dec_of_nat n \<noteq> []"
  by (subst dec_of_nat.simps) simp

lemma dec_of_nat_digits: "\<forall>c \<in> set (dec_of_nat n). is_digit c"
proof (induction n rule: dec_of_nat.induct)
  case (1 n)
  then show ?case
    by (subst dec_of_nat.simps) auto
qed

lemma dec_of_nat_digit: "c \<in> set (dec_of_nat n) \<Longrightarrow> is_digit c"
  using dec_of_nat_digits by blast

lemma length_dec_of_nat: "n < 10 ^ k \<Longrightarrow> 0 < k \<Longrightarrow> length (dec_of_nat n) \<le> k"
proof (induction k arbitrary: n)
  case (Suc k)
  show ?case
  proof (cases "n < 10")
    case False
    with Suc.prems have "0 < k" and "n div 10 < 10 ^ k"
      by (auto intro: Nat.gr0I simp: less_mult_imp_div_less mult.commute)
    with Suc.IH False show ?thesis
      by (subst dec_of_nat.simps) simp
  qed (subst dec_of_nat.simps, simp)
qed simp

lemma not_is_digit_plus [simp]: "\<not> is_digit CHR ''+''"
  by (simp add: is_digit_def)

lemma parse_uint_dec [simp]: "n \<le> m \<Longrightarrow> parse_uint m (dec_of_nat n) = Some n"
proof -
  obtain c cs where d: "dec_of_nat n = c # cs"
    by (cases "dec_of_nat n") auto
  then have "c \<noteq> CHR ''+''"
    using dec_of_nat_digit [of c n] by auto
  then show "n \<le> m \<Longrightarrow> ?thesis"
    using d digits_val_dec_of_nat [of n] by (simp add: parse_uint_def Let_def)
qed

lemma parse_uint_le: "parse_uint m s = Some n \<Longrightarrow> n \<le> m"
  by (auto simp: parse_uint_def Let_def split: option.splits if_splits list.splits)

lemma unat_le_u64_max [simp]: "unat (w :: u64) \<le> u64_max"
  using unsigned_less [of w, where ?'a = nat] by (simp add: u64_max_def)

lemma unat_le_u32_max [simp]: "unat (w :: u32) \<le> u32_max"
  using unsigned_less [of w, where ?'a = nat] by (simp add: u32_max_def)

lemma parse_u64_dec [simp]: "parse_u64 (dec_of_nat (unat w)) = Some w"
  by (simp add: parse_u64_def)

lemma parse_u32_dec [simp]: "parse_u32 (dec_of_nat (unat w)) = Some w"
  by (simp add: parse_u32_def)

lemma length_dec_u64: "length (dec_of_nat (unat (w :: u64))) \<le> 20"
proof -
  have "unat w < 10 ^ 20"
    using unsigned_less [of w, where ?'a = nat] by simp
  then show ?thesis
    by (rule length_dec_of_nat) simp
qed

lemma unat_of_nat_u64: "a < 2 ^ 64 \<Longrightarrow> unat (of_nat a :: u64) = a"
  by (simp add: unat_of_nat)

lemma of_nat_u64_inj:
  assumes "a < 2 ^ 64" and "b < 2 ^ 64" and "(of_nat a :: u64) = of_nat b"
  shows "a = b"
proof -
  have "a = unat (of_nat a :: u64)" by (rule unat_of_nat_u64 [OF assms(1), symmetric])
  also have "\<dots> = unat (of_nat b :: u64)" by (rule arg_cong [OF assms(3)])
  also have "\<dots> = b" by (rule unat_of_nat_u64 [OF assms(2)])
  finally show ?thesis .
qed

subsection \<open>UTF-8\<close>

definition u8_at :: "bytes \<Rightarrow> nat \<Rightarrow> nat" where
  "u8_at s i = (if i < length s then byte_val (s ! i) else 0)"

definition is_cont :: "nat \<Rightarrow> bool" where
  "is_cont b \<longleftrightarrow> 128 \<le> b \<and> b \<le> 191"

text \<open>
  The sequence that starts with byte value \<open>a\<close> and goes on with \<open>r\<close>: whether it is a
  well-formed character, and how many bytes of \<open>r\<close> belong to it (for an ill-formed one, to the
  maximal ill-formed part that \<open>from_utf8_lossy\<close> replaces as one).
\<close>

definition utf8_head :: "nat \<Rightarrow> bytes \<Rightarrow> bool \<times> nat" where
  "utf8_head a r =
     (let b = u8_at r 0; c = u8_at r 1; d = u8_at r 2 in
      if a < 128 then (True, 0)
      else if 194 \<le> a \<and> a \<le> 223 then (if is_cont b then (True, 1) else (False, 0))
      else if 224 \<le> a \<and> a \<le> 239 then
        (let lo = (if a = 224 then 160 else 128); hi = (if a = 237 then 159 else 191) in
         if \<not> (lo \<le> b \<and> b \<le> hi) then (False, 0)
         else if \<not> is_cont c then (False, 1) else (True, 2))
      else if 240 \<le> a \<and> a \<le> 244 then
        (let lo = (if a = 240 then 144 else 128); hi = (if a = 244 then 143 else 191) in
         if \<not> (lo \<le> b \<and> b \<le> hi) then (False, 0)
         else if \<not> is_cont c then (False, 1)
         else if \<not> is_cont d then (False, 2) else (True, 3))
      else (False, 0))"

fun utf8_valid :: "bytes \<Rightarrow> bool" where
  "utf8_valid [] = True"
| "utf8_valid (a # r) =
     (fst (utf8_head (byte_val a) r) \<and> utf8_valid (drop (snd (utf8_head (byte_val a) r)) r))"

definition from_utf8 :: "bytes \<Rightarrow> string option" where
  "from_utf8 s = (if utf8_valid s then Some s else None)"

definition replacement_char :: bytes where
  "replacement_char = [CHR 0xEF, CHR 0xBF, CHR 0xBD]"

fun utf8_lossy :: "bytes \<Rightarrow> string" where
  "utf8_lossy [] = []"
| "utf8_lossy (a # r) =
     (let k = snd (utf8_head (byte_val a) r) in
      (if fst (utf8_head (byte_val a) r) then a # take k r else replacement_char)
        @ utf8_lossy (drop k r))"

definition is_ascii :: "string \<Rightarrow> bool" where
  "is_ascii s \<longleftrightarrow> (\<forall>c \<in> set s. byte_val c < 128)"

lemma is_ascii_simps [simp]:
  "is_ascii []"
  "is_ascii (c # s) \<longleftrightarrow> byte_val c < 128 \<and> is_ascii s"
  "is_ascii (s @ t) \<longleftrightarrow> is_ascii s \<and> is_ascii t"
  by (auto simp: is_ascii_def)

lemma utf8_head_ascii [simp]: "a < 128 \<Longrightarrow> utf8_head a r = (True, 0)"
  by (simp add: utf8_head_def)

lemma utf8_valid_ascii [simp]: "is_ascii s \<Longrightarrow> utf8_valid s"
  by (induction s) auto

lemma from_utf8_ascii [simp]: "is_ascii s \<Longrightarrow> from_utf8 s = Some s"
  by (simp add: from_utf8_def)

lemma utf8_lossy_valid: "utf8_valid s \<Longrightarrow> utf8_lossy s = s"
  by (induction s rule: utf8_lossy.induct) (auto simp: Let_def)

lemma utf8_lossy_ascii [simp]: "is_ascii s \<Longrightarrow> utf8_lossy s = s"
  by (simp add: utf8_lossy_valid)

lemma u8_at_simps: "u8_at [] i = 0" "u8_at (c # r) 0 = byte_val c" "u8_at (c # r) (Suc i) = u8_at r i"
  by (simp_all add: u8_at_def)

lemma utf8_head_append:
  assumes "fst (utf8_head a r)"
  shows "utf8_head a (r @ s) = utf8_head a r" and "snd (utf8_head a r) \<le> length r"
proof -
  consider "r = []" | x where "r = [x]" | x y where "r = [x, y]" | x y z t where "r = x # y # z # t"
    by (metis remdups_adj.cases)
  then have "utf8_head a (r @ s) = utf8_head a r \<and> snd (utf8_head a r) \<le> length r"
    using assms
    by cases (auto simp: utf8_head_def Let_def u8_at_simps is_cont_def numeral_2_eq_2 split: if_splits)
  then show "utf8_head a (r @ s) = utf8_head a r" "snd (utf8_head a r) \<le> length r" by auto
qed

lemma utf8_valid_append: "utf8_valid s \<Longrightarrow> utf8_valid (s @ t) = utf8_valid t"
proof (induction s rule: utf8_valid.induct)
  case (2 a r)
  then show ?case
    using utf8_head_append(1) [of "byte_val a" r t] utf8_head_append(2) [of "byte_val a" r] by simp
qed simp

lemma is_ascii_dec [simp]: "is_ascii (dec_of_nat n)"
  using dec_of_nat_digits [of n] by (auto simp: is_ascii_def is_digit_def)

subsection \<open>White space\<close>

text \<open>
  The number of bytes of the white-space character (Unicode property \<open>White_Space\<close>, as
  \<open>char::is_whitespace\<close>) at the head of a string, 0 when there is none.
\<close>

definition ws_len :: "string \<Rightarrow> nat" where
  "ws_len s =
     (case s of [] \<Rightarrow> 0
      | x # r \<Rightarrow>
          (let a = byte_val x; b = u8_at r 0; c = u8_at r 1 in
           if (9 \<le> a \<and> a \<le> 13) \<or> a = 32 then 1
           else if a = 194 \<and> (b = 133 \<or> b = 160) then 2
           else if a = 225 \<and> b = 154 \<and> c = 128 then 3
           else if a = 226 \<and> b = 128 \<and> ((128 \<le> c \<and> c \<le> 138) \<or> c = 168 \<or> c = 169 \<or> c = 175) then 3
           else if a = 226 \<and> b = 129 \<and> c = 159 then 3
           else if a = 227 \<and> b = 128 \<and> c = 128 then 3
           else 0))"

text \<open>\<open>split_whitespace\<close>, with the token read so far.\<close>

fun split_ws :: "string \<Rightarrow> string \<Rightarrow> string list" where
  "split_ws cur [] = (if cur = [] then [] else [cur])"
| "split_ws cur (c # cs) =
     (if ws_len (c # cs) = 0 then split_ws (cur @ [c]) cs
      else (if cur = [] then [] else [cur]) @ split_ws [] (drop (ws_len (c # cs) - 1) cs))"

definition split_whitespace :: "string \<Rightarrow> string list" where
  "split_whitespace s = split_ws [] s"

lemma ws_len_Nil [simp]: "ws_len [] = 0"
  by (simp add: ws_len_def)

lemma ws_len_pos_length: "0 < ws_len s \<Longrightarrow> length (drop (ws_len s) s) < length s"
  by (cases s) auto

function trim_start :: "string \<Rightarrow> string" where
  "trim_start s = (if ws_len s = 0 then s else trim_start (drop (ws_len s) s))"
  by pat_completeness auto
termination
  by (relation "measure length") (use ws_len_pos_length in auto)

declare trim_start.simps [simp del]

fun trim_end :: "string \<Rightarrow> string" where
  "trim_end [] = []"
| "trim_end (c # cs) = (if trim_start (c # cs) = [] then [] else c # trim_end cs)"

definition trim :: "string \<Rightarrow> string" where
  "trim s = trim_end (trim_start s)"

text \<open>\<open>split_once(char::is_whitespace)\<close>.\<close>

fun split_once_ws :: "string \<Rightarrow> (string \<times> string) option" where
  "split_once_ws [] = None"
| "split_once_ws (c # cs) =
     (if ws_len (c # cs) = 0 then map_option (\<lambda>(a, b). (c # a, b)) (split_once_ws cs)
      else Some ([], drop (ws_len (c # cs) - 1) cs))"

definition is_token_char :: "char \<Rightarrow> bool" where
  "is_token_char c \<longleftrightarrow> 33 \<le> byte_val c \<and> byte_val c < 127"

lemma ws_len_token [simp]: "is_token_char c \<Longrightarrow> ws_len (c # cs) = 0"
  by (auto simp: ws_len_def is_token_char_def Let_def)

lemma ws_len_space [simp]: "ws_len (CHR '' '' # cs) = 1"
  by (simp add: ws_len_def)

lemma split_ws_token:
  "\<forall>c \<in> set s. is_token_char c \<Longrightarrow> split_ws cur (s @ t) = split_ws (cur @ s) t"
  by (induction s arbitrary: cur) auto

lemma split_ws_Nil_end [simp]: "cur \<noteq> [] \<Longrightarrow> split_ws cur [] = [cur]"
  by simp

lemma split_ws_space:
  "split_ws cur (CHR '' '' # cs) = (if cur = [] then [] else [cur]) @ split_ws [] cs"
  by simp

lemma is_digit_token: "is_digit c \<Longrightarrow> is_token_char c"
  by (simp add: is_digit_def is_token_char_def)

lemma dec_of_nat_tokens: "\<forall>c \<in> set (dec_of_nat n). is_token_char c"
  using dec_of_nat_digits is_digit_token by blast

subsection \<open>Searching, splitting and joining\<close>

text \<open>
  Position of the first occurrence of a non-empty pattern, as \<open>windows(n).position\<close> and
  \<open>str::find\<close> give it.
\<close>

fun find_sub :: "'a list \<Rightarrow> 'a list \<Rightarrow> nat option" where
  "find_sub p [] = (if p = [] then Some 0 else None)"
| "find_sub p (c # cs) =
     (if prefix p (c # cs) then Some 0 else map_option Suc (find_sub p cs))"

text \<open>\<open>str::split\<close> with a (non-empty) string pattern and with a character.\<close>

function split_str :: "string \<Rightarrow> string \<Rightarrow> string list" where
  "split_str p s =
     (case (if p = [] then None else find_sub p s) of
        None \<Rightarrow> [s]
      | Some i \<Rightarrow> take i s # split_str p (drop (i + length p) s))"
  by pat_completeness auto

lemma find_sub_bound: "find_sub p s = Some i \<Longrightarrow> i + length p \<le> length s"
proof (induction p s arbitrary: i rule: find_sub.induct)
  case (2 p c cs)
  then show ?case
    by (auto split: if_splits dest: prefix_length_le)
qed (auto split: if_splits)

termination split_str
proof (relation "measure (\<lambda>(p, s). length s)")
  fix p s :: string and i
  assume "(if p = [] then None else find_sub p s) = Some i"
  then show "((p, drop (i + length p) s), p, s) \<in> measure (\<lambda>(p, s). length s)"
    using find_sub_bound [of p s i] by (cases p) (auto split: if_splits)
qed simp

declare split_str.simps [simp del]

fun split_char :: "char \<Rightarrow> string \<Rightarrow> string list" where
  "split_char d [] = [[]]"
| "split_char d (c # cs) =
     (if c = d then [] # split_char d cs
      else (case split_char d cs of [] \<Rightarrow> [[c]] | t # ts \<Rightarrow> (c # t) # ts))"

fun split_once :: "char \<Rightarrow> string \<Rightarrow> (string \<times> string) option" where
  "split_once d [] = None"
| "split_once d (c # cs) =
     (if c = d then Some ([], cs) else map_option (\<lambda>(a, b). (c # a, b)) (split_once d cs))"

definition rsplit_once :: "char \<Rightarrow> string \<Rightarrow> (string \<times> string) option" where
  "rsplit_once d s = map_option (\<lambda>(a, b). (rev b, rev a)) (split_once d (rev s))"

fun join :: "string \<Rightarrow> string list \<Rightarrow> string" where
  "join sep [] = []"
| "join sep [x] = x"
| "join sep (x # y # ys) = x @ sep @ join sep (y # ys)"

text \<open>\<open>str::lines\<close>: lines end with a line feed, one carriage return before it is dropped, and
  a last line without line feed counts when it is not empty.\<close>

definition strip_cr :: "string \<Rightarrow> string" where
  "strip_cr s = (if s \<noteq> [] \<and> last s = CHR 0x0D then butlast s else s)"

fun lines_from :: "string \<Rightarrow> string \<Rightarrow> string list" where
  "lines_from cur [] = (if cur = [] then [] else [cur])"
| "lines_from cur (c # cs) =
     (if c = CHR 0x0A then strip_cr cur # lines_from [] cs else lines_from (cur @ [c]) cs)"

definition lines :: "string \<Rightarrow> string list" where
  "lines s = lines_from [] s"

definition replace_char :: "char \<Rightarrow> char \<Rightarrow> string \<Rightarrow> string" where
  "replace_char a b s = map (\<lambda>c. if c = a then b else c) s"

text \<open>
  \<open>to_lowercase\<close> and \<open>to_uppercase\<close> on the ASCII letters; other bytes are kept.  The names the
  program lowers (actions, sectors, flags) are ASCII identifiers.
\<close>

definition lower_char :: "char \<Rightarrow> char" where
  "lower_char c = (if 65 \<le> byte_val c \<and> byte_val c \<le> 90 then char_of (byte_val c + 32) else c)"

definition upper_char :: "char \<Rightarrow> char" where
  "upper_char c = (if 97 \<le> byte_val c \<and> byte_val c \<le> 122 then char_of (byte_val c - 32) else c)"

definition to_lowercase :: "string \<Rightarrow> string" where
  "to_lowercase s = map lower_char s"

lemma split_char_not_Nil [simp]: "split_char d s \<noteq> []"
  by (induction d s rule: split_char.induct) (auto split: list.splits)

lemma split_char_absent: "d \<notin> set s \<Longrightarrow> split_char d s = [s]"
  by (induction d s rule: split_char.induct) auto

lemma split_char_append:
  "d \<notin> set s \<Longrightarrow> split_char d (s @ d # t) = s # split_char d t"
  by (induction s) auto

lemma split_char_join:
  assumes "xs \<noteq> []" and "\<forall>x \<in> set xs. d \<notin> set x"
  shows "split_char d (join [d] xs) = xs"
  using assms
proof (induction xs rule: induct_list012)
  case (2 x)
  then show ?case by (simp add: split_char_absent)
next
  case (3 x y ys)
  then show ?case by (simp add: split_char_append)
qed simp

lemma split_once_append [simp]: "d \<notin> set s \<Longrightarrow> split_once d (s @ d # t) = Some (s, t)"
  by (induction s) auto

lemma split_once_None [simp]: "split_once d s = None \<longleftrightarrow> d \<notin> set s"
  by (induction d s rule: split_once.induct) auto

lemma split_once_Some: "split_once d s = Some (a, b) \<Longrightarrow> s = a @ d # b \<and> d \<notin> set a"
  by (induction d s arbitrary: a rule: split_once.induct) (auto split: if_splits)

lemma rsplit_once_append [simp]: "d \<notin> set t \<Longrightarrow> rsplit_once d (s @ d # t) = Some (s, t)"
  by (simp add: rsplit_once_def)

lemma rsplit_once_None [simp]: "rsplit_once d s = None \<longleftrightarrow> d \<notin> set s"
  by (simp add: rsplit_once_def)

lemma rsplit_once_Some: "rsplit_once d s = Some (a, b) \<Longrightarrow> s = a @ d # b \<and> d \<notin> set b"
proof -
  assume "rsplit_once d s = Some (a, b)"
  then have "split_once d (rev s) = Some (rev b, rev a)"
    by (auto simp: rsplit_once_def)
  from split_once_Some [OF this] show ?thesis
    by (metis rev_append rev_rev_ident rev.simps(2) append_assoc append_Cons append_Nil set_rev)
qed

lemma lower_char_idem [simp]: "lower_char (lower_char c) = lower_char c"
  by (auto simp: lower_char_def)

lemma to_lowercase_idem [simp]: "to_lowercase (to_lowercase s) = to_lowercase s"
  by (simp add: to_lowercase_def)

lemma to_lowercase_append [simp]: "to_lowercase (s @ t) = to_lowercase s @ to_lowercase t"
  by (simp add: to_lowercase_def)

lemma find_sub_absent_char: "x \<in> set p \<Longrightarrow> x \<notin> set s \<Longrightarrow> find_sub p s = None"
proof (induction p s rule: find_sub.induct)
  case (2 p c cs)
  then have "\<not> prefix p (c # cs)"
    using set_mono_prefix [of p "c # cs"] by auto
  with 2 show ?case by simp
qed auto

lemma find_sub_Some_prefix: "find_sub p s = Some i \<Longrightarrow> prefix p (drop i s)"
  by (induction p s arbitrary: i rule: find_sub.induct) (auto split: if_splits)

text \<open>A pattern whose first character occurs nowhere before it is found where it starts.\<close>

lemma find_sub_first [simp]:
  "x \<notin> set s \<Longrightarrow> find_sub (x # p) (s @ (x # p) @ t) = Some (length s)"
  by (induction s) auto

lemma find_sub_append: "find_sub p s = Some i \<Longrightarrow> find_sub p (s @ t) = Some i"
proof (induction p s arbitrary: i rule: find_sub.induct)
  case (1 p)
  then show ?case by (cases t) (auto split: if_splits)
next
  case (2 p c cs)
  show ?case
  proof (cases "prefix p (c # cs)")
    case True
    moreover from this have "prefix p (c # cs @ t)"
      using prefix_append [of p "c # cs" t] by simp
    ultimately show ?thesis using 2 by simp
  next
    case False
    with 2 obtain j where j: "i = Suc j" "find_sub p cs = Some j" by auto
    then have "length p \<le> length (c # cs)"
      using find_sub_bound [of p cs j] by simp
    then have "\<not> prefix p (c # cs @ t)"
      using False prefix_length_prefix [of p "c # cs @ t" "c # cs"] by auto
    with j "2.IH" [OF False] show ?thesis by simp
  qed
qed

lemma prefix_take: "prefix p s \<Longrightarrow> length p \<le> n \<Longrightarrow> prefix p (take n s)"
  by (auto simp: prefix_def)

lemma find_sub_take:
  "find_sub p s = Some i \<Longrightarrow> i + length p \<le> n \<Longrightarrow> find_sub p (take n s) = Some i"
proof (induction p s arbitrary: i n rule: find_sub.induct)
  case (2 p c cs)
  show ?case
  proof (cases "prefix p (c # cs)")
    case True
    with 2 have "i = 0" and "prefix p (take n (c # cs))"
      by (auto intro: prefix_take)
    then show ?thesis by (cases "take n (c # cs)") auto
  next
    case False
    with 2 obtain j where "i = Suc j" and "find_sub p cs = Some j" by auto
    moreover from False have "\<not> prefix p (take n (c # cs))"
      using take_is_prefix prefix_order.trans by blast
    ultimately show ?thesis
      using "2.IH" [OF False, of j "n - 1"] "2.prems" by (cases n) auto
  qed
qed auto

end
