(* ===== verification/Json_Value.thy ===== *)
theory Json_Value
  imports Prelude
begin

text \<open>
  JSON documents as the program sees them through \<open>serde_json\<close>: the value tree, the
  \<open>Value::as_*\<close> accessors the code calls, and the shape of a derived \<open>Deserialize\<close> for a
  struct whose fields all carry \<open>#[serde(default)]\<close>.  The text form (\<open>to_string\<close>,
  \<open>from_slice\<close>) is the library's own code: wherever the program prints or parses JSON text the
  model takes the printer \<open>enc\<close> and the parser \<open>dec\<close> as arguments.

  Numbers follow \<open>serde_json::Number\<close>: integers from \<open>-2^63\<close> to \<open>2^64 - 1\<close> are \<open>JInt\<close>, every
  other number is a finite double, represented by its rational value.
\<close>

type_synonym f64 = rat

datatype json =
    JNull
  | JBool bool
  | JInt int
  | JFloat f64
  | JStr string
  | JArr "json list"
  | JObj "(string \<times> json) list"

subsection \<open>Accessors of a JSON value\<close>

fun as_str :: "json \<Rightarrow> string option" where
  "as_str (JStr s) = Some s"
| "as_str _ = None"

fun as_bool :: "json \<Rightarrow> bool option" where
  "as_bool (JBool b) = Some b"
| "as_bool _ = None"

fun as_u64 :: "json \<Rightarrow> u64 option" where
  "as_u64 (JInt i) = (if 0 \<le> i \<and> i < 2 ^ 64 then Some (word_of_int i) else None)"
| "as_u64 _ = None"

fun as_f64 :: "json \<Rightarrow> f64 option" where
  "as_f64 (JInt i) = Some (of_int i)"
| "as_f64 (JFloat x) = Some x"
| "as_f64 _ = None"

fun as_array :: "json \<Rightarrow> json list option" where
  "as_array (JArr xs) = Some xs"
| "as_array _ = None"

fun as_object :: "json \<Rightarrow> (string \<times> json) list option" where
  "as_object (JObj kvs) = Some kvs"
| "as_object _ = None"

text \<open>\<open>Map::get\<close>: of several members with one name the last one counts.\<close>

definition obj_get :: "string \<Rightarrow> (string \<times> json) list \<Rightarrow> json option" where
  "obj_get k kvs = map_of (rev kvs) k"

fun value_get :: "string \<Rightarrow> json \<Rightarrow> json option" where
  "value_get k (JObj kvs) = obj_get k kvs"
| "value_get k _ = None"

subsection \<open>Rust's Default\<close>

instantiation list :: (type) default
begin

definition default_list :: "'a list" where
  "default_list = []"

instance ..

end

instantiation word :: (len) default
begin

definition default_word :: "'a word" where
  "default_word = 0"

instance ..

end

instantiation option :: (type) default
begin

definition default_option :: "'a option" where
  "default_option = None"

instance ..

end

lemmas default_simps [simp] = default_list_def default_word_def default_option_def

subsection \<open>Derived deserialisation of a struct\<close>

text \<open>
  The derived visitor reads an object member by member: an absent field takes the default of its
  type, a repeated field is an error, an unknown field is skipped.  From an array it reads the
  fields by position, absent ones again by default.
\<close>

definition members :: "string \<Rightarrow> (string \<times> json) list \<Rightarrow> json list" where
  "members k kvs = map snd (filter (\<lambda>(k', _). k' = k) kvs)"

definition field :: "string \<Rightarrow> (json \<Rightarrow> 'a option) \<Rightarrow> (string \<times> json) list \<Rightarrow> 'a::default option" where
  "field k de kvs =
     (case members k kvs of [] \<Rightarrow> Some default | [v] \<Rightarrow> de v | _ \<Rightarrow> None)"

definition element :: "nat \<Rightarrow> (json \<Rightarrow> 'a option) \<Rightarrow> json list \<Rightarrow> 'a::default option" where
  "element i de vs = (if i < length vs then de (vs ! i) else Some default)"

text \<open>The library's own readers for the field types that occur.\<close>

fun de_string :: "json \<Rightarrow> string option" where
  "de_string (JStr s) = Some s"
| "de_string _ = None"

fun de_option :: "(json \<Rightarrow> 'a option) \<Rightarrow> json \<Rightarrow> 'a option option" where
  "de_option de JNull = Some None"
| "de_option de v = map_option Some (de v)"

fun de_value :: "json \<Rightarrow> json option" where
  "de_value v = Some v"

fun de_i32 :: "json \<Rightarrow> i32 option" where
  "de_i32 (JInt i) = (if - (2 ^ 31) \<le> i \<and> i < 2 ^ 31 then Some (word_of_int i) else None)"
| "de_i32 _ = None"

fun de_u32 :: "json \<Rightarrow> u32 option" where
  "de_u32 (JInt i) = (if 0 \<le> i \<and> i < 2 ^ 32 then Some (word_of_int i) else None)"
| "de_u32 _ = None"

lemma members_Nil [simp]: "members k [] = []"
  by (simp add: members_def)

lemma members_Cons [simp]:
  "members k ((k', v) # kvs) = (if k' = k then v # members k kvs else members k kvs)"
  by (simp add: members_def)

lemma members_append [simp]: "members k (xs @ ys) = members k xs @ members k ys"
  by (simp add: members_def)

lemma sint_i32_range: "- (2 ^ 31) \<le> sint (w :: i32)" "sint (w :: i32) < 2 ^ 31"
  using sint_ge [of w] sint_lt [of w] by simp_all

lemma sint_i64_range: "- (2 ^ 63) \<le> sint (w :: i64)" "sint (w :: i64) < 2 ^ 63"
  using sint_ge [of w] sint_lt [of w] by simp_all

lemma word_of_int_sint [simp]: "word_of_int (sint w) = w"
  by simp

lemma de_i32_sint [simp]: "de_i32 (JInt (sint (w :: i32))) = Some w"
  using sint_i32_range [of w] by simp

lemma de_u32_uint [simp]: "de_u32 (JInt (uint (w :: u32))) = Some w"
  using unsigned_less [of w, where ?'a = int] by simp

lemma as_u64_uint [simp]: "as_u64 (JInt (uint (w :: u64))) = Some w"
  using unsigned_less [of w, where ?'a = int] by simp

lemma de_option_nonnull [simp]: "v \<noteq> JNull \<Longrightarrow> de_option de v = map_option Some (de v)"
  by (cases v) auto

end
