(* ===== verification/Wire_Header.thy ===== *)
theory Wire_Header
  imports Json_Value
begin

text \<open>
  The header of a message, \<open>scamp/src/transport/beepish/proto/header.rs\<close>: the enums
  \<open>EnvelopeFormat\<close> and \<open>MessageType\<close>, the integer \<open>FlexInt\<close> that accepts both JSON forms, the
  struct \<open>PacketHeader\<close>, and their JSON encodings in both directions.  The lemmas show that
  reading back a written header gives the header, which variants of the JSON are accepted, and
  which are errors.
\<close>

subsection \<open>EnvelopeFormat\<close>

datatype envelope_format = Json | JsonStore | OtherFormat string

definition envelope_default :: envelope_format where
  "envelope_default = Json"

instantiation envelope_format :: default
begin

definition default_envelope_format :: envelope_format where
  "default_envelope_format = envelope_default"

instance ..

end

fun ser_envelope :: "envelope_format \<Rightarrow> json" where
  "ser_envelope Json = JStr ''json''"
| "ser_envelope JsonStore = JStr ''jsonstore''"
| "ser_envelope (OtherFormat s) = JStr s"

definition envelope_of_str :: "string \<Rightarrow> envelope_format" where
  "envelope_of_str s =
     (if s = ''json'' then Json else if s = ''jsonstore'' then JsonStore else OtherFormat s)"

definition de_envelope :: "json \<Rightarrow> envelope_format option" where
  "de_envelope v = map_option envelope_of_str (de_string v)"

text \<open>The values the reader can produce: \<open>OtherFormat\<close> never carries a known name.\<close>

fun canonical_envelope :: "envelope_format \<Rightarrow> bool" where
  "canonical_envelope (OtherFormat s) \<longleftrightarrow> s \<noteq> ''json'' \<and> s \<noteq> ''jsonstore''"
| "canonical_envelope _ \<longleftrightarrow> True"

lemma de_ser_envelope [simp]:
  "canonical_envelope e \<Longrightarrow> de_envelope (ser_envelope e) = Some e"
  by (cases e) (auto simp: de_envelope_def envelope_of_str_def)

lemma canonical_envelope_of_str [simp]: "canonical_envelope (envelope_of_str s)"
  by (simp add: envelope_of_str_def)

subsection \<open>MessageType\<close>

datatype message_type = Request | Reply

definition message_type_default :: message_type where
  "message_type_default = Request"

instantiation message_type :: default
begin

definition default_message_type :: message_type where
  "default_message_type = message_type_default"

instance ..

end

fun ser_message_type :: "message_type \<Rightarrow> json" where
  "ser_message_type Request = JStr ''request''"
| "ser_message_type Reply = JStr ''reply''"

definition de_message_type :: "json \<Rightarrow> message_type option" where
  "de_message_type v =
     (case de_string v of
        None \<Rightarrow> None
      | Some s \<Rightarrow> if s = ''request'' then Some Request
                  else if s = ''reply'' then Some Reply else None)"

lemma de_ser_message_type [simp]: "de_message_type (ser_message_type t) = Some t"
  by (cases t) (auto simp: de_message_type_def)

subsection \<open>FlexInt\<close>

text \<open>
  \<open>FlexInt(i64)\<close> is written as a JSON integer and read from an integer (\<open>visit_i64\<close>, or
  \<open>visit_u64\<close> with the wrapping cast \<open>v as i64\<close>) or from a string that parses as \<open>i64\<close>.
\<close>

definition ser_flex_int :: "i64 \<Rightarrow> json" where
  "ser_flex_int w = JInt (sint w)"

fun de_flex_int :: "json \<Rightarrow> i64 option" where
  "de_flex_int (JInt i) = Some (word_of_int i)"
| "de_flex_int (JStr s) = parse_i64 s"
| "de_flex_int _ = None"

lemma de_ser_flex_int [simp]: "de_flex_int (ser_flex_int w) = Some w"
  by (simp add: ser_flex_int_def)

lemma is_digit_minus [simp]: "\<not> is_digit CHR ''-''"
  by (simp add: is_digit_def)

text \<open>The string form of an integer reads as the integer: both client identifiers agree.\<close>

lemma parse_sint_dec:
  assumes "lo \<le> i" and "i \<le> hi"
  shows "parse_sint lo hi (dec_of_int i) = Some i"
proof (cases "i < 0")
  case True
  with assms show ?thesis by (simp add: parse_sint_def dec_of_int_def Let_def)
next
  case False
  obtain c cs where d: "dec_of_nat (nat i) = c # cs"
    by (cases "dec_of_nat (nat i)") auto
  then have "is_digit c" using dec_of_nat_digit [of c "nat i"] by simp
  then have "c \<noteq> CHR ''+''" "c \<noteq> CHR ''-''" by auto
  with False d digits_val_dec_of_nat [of "nat i"] assms show ?thesis
    by (simp add: parse_sint_def dec_of_int_def Let_def)
qed

lemma parse_i64_dec [simp]: "parse_i64 (dec_of_int (sint w)) = Some w"
  using parse_sint_dec [of "- (2 ^ 63)" "sint w" "2 ^ 63 - 1"] sint_i64_range [of w]
  by (simp add: parse_i64_def)

subsection \<open>PacketHeader\<close>

record packet_header =
  h_action :: string
  h_envelope :: envelope_format
  h_error :: "string option"
  h_error_code :: "string option"
  h_error_data :: "json option"
  h_request_id :: i64
  h_client_id :: i64
  h_ticket :: string
  h_identifying_token :: string
  h_message_type :: message_type
  h_version :: i32

text \<open>\<open>impl Default for PacketHeader\<close>; the field defaults used in reading are those of the
  field types, so an absent \<open>version\<close> reads as 0 and not as 1.\<close>

definition default_header :: packet_header where
  "default_header =
     \<lparr>h_action = [], h_envelope = Json, h_error = None, h_error_code = None, h_error_data = None,
      h_request_id = 0, h_client_id = 0, h_ticket = [], h_identifying_token = [],
      h_message_type = Request, h_version = 1\<rparr>"

fun nullable_string :: "json \<Rightarrow> string option" where
  "nullable_string v = map_option (\<lambda>s. case s of None \<Rightarrow> [] | Some s \<Rightarrow> s) (de_option de_string v)"

fun opt_member :: "string \<Rightarrow> json option \<Rightarrow> (string \<times> json) list" where
  "opt_member k None = []"
| "opt_member k (Some v) = [(k, v)]"

definition json_of_header :: "packet_header \<Rightarrow> json" where
  "json_of_header h = JObj
     ([(''action'', JStr (h_action h)), (''envelope'', ser_envelope (h_envelope h))]
      @ opt_member ''error'' (map_option JStr (h_error h))
      @ opt_member ''error_code'' (map_option JStr (h_error_code h))
      @ opt_member ''error_data'' (h_error_data h)
      @ [(''request_id'', ser_flex_int (h_request_id h)),
         (''client_id'', ser_flex_int (h_client_id h)),
         (''ticket'', JStr (h_ticket h)),
         (''identifying_token'', JStr (h_identifying_token h)),
         (''type'', ser_message_type (h_message_type h)),
         (''version'', JInt (sint (h_version h)))])"

text \<open>
  Reading all fields, given the way one field is read: by name from an object, by position from
  an array.
\<close>

definition build_header ::
  "string option \<Rightarrow> envelope_format option \<Rightarrow> string option option \<Rightarrow> string option option
   \<Rightarrow> json option option \<Rightarrow> i64 option \<Rightarrow> i64 option \<Rightarrow> string option \<Rightarrow> string option
   \<Rightarrow> message_type option \<Rightarrow> i32 option \<Rightarrow> packet_header option" where
  "build_header act env err code edata rid cid tick tok mt ver =
     (case (act, env, err, code, edata) of
        (Some act, Some env, Some err, Some code, Some edata) \<Rightarrow>
          (case (rid, cid, tick, tok, mt, ver) of
             (Some rid, Some cid, Some tick, Some tok, Some mt, Some ver) \<Rightarrow>
               Some \<lparr>h_action = act, h_envelope = env, h_error = err, h_error_code = code,
                     h_error_data = edata, h_request_id = rid, h_client_id = cid,
                     h_ticket = tick, h_identifying_token = tok, h_message_type = mt,
                     h_version = ver\<rparr>
           | _ \<Rightarrow> None)
      | _ \<Rightarrow> None)"

fun header_of_json :: "json \<Rightarrow> packet_header option" where
  "header_of_json (JObj kvs) =
     build_header
       (field ''action'' nullable_string kvs) (field ''envelope'' de_envelope kvs)
       (field ''error'' (de_option de_string) kvs)
       (field ''error_code'' (de_option de_string) kvs)
       (field ''error_data'' (de_option de_value) kvs)
       (field ''request_id'' de_flex_int kvs) (field ''client_id'' de_flex_int kvs)
       (field ''ticket'' nullable_string kvs) (field ''identifying_token'' nullable_string kvs)
       (field ''type'' de_message_type kvs) (field ''version'' de_i32 kvs)"
| "header_of_json (JArr vs) =
     (if 11 < length vs then None
      else build_header
        (element 0 nullable_string vs) (element 1 de_envelope vs)
        (element 2 (de_option de_string) vs) (element 3 (de_option de_string) vs)
        (element 4 (de_option de_value) vs)
        (element 5 de_flex_int vs) (element 6 de_flex_int vs)
        (element 7 nullable_string vs) (element 8 nullable_string vs)
        (element 9 de_message_type vs) (element 10 de_i32 vs))"
| "header_of_json _ = None"

text \<open>Headers that a reader can produce.\<close>

definition canonical_header :: "packet_header \<Rightarrow> bool" where
  "canonical_header h \<longleftrightarrow> canonical_envelope (h_envelope h) \<and> h_error_data h \<noteq> Some JNull"

lemma members_opt_member [simp]:
  "members k (opt_member k' v) = (if k = k' then (case v of None \<Rightarrow> [] | Some x \<Rightarrow> [x]) else [])"
  by (cases v) auto

lemma build_header_Some [simp]:
  "build_header (Some act) (Some env) (Some err) (Some code) (Some edata) (Some rid) (Some cid)
     (Some tick) (Some tok) (Some mt) (Some ver) =
   Some \<lparr>h_action = act, h_envelope = env, h_error = err, h_error_code = code,
         h_error_data = edata, h_request_id = rid, h_client_id = cid, h_ticket = tick,
         h_identifying_token = tok, h_message_type = mt, h_version = ver\<rparr>"
  by (simp add: build_header_def)

text \<open>
  Field by field: what each reader finds in a written header.  The optional fields are absent
  when \<open>None\<close> was skipped.
\<close>

lemma field_json_of_header:
  assumes "json_of_header h = JObj kvs" and "canonical_header h"
  shows "field ''action'' nullable_string kvs = Some (h_action h)"
    and "field ''envelope'' de_envelope kvs = Some (h_envelope h)"
    and "field ''error'' (de_option de_string) kvs = Some (h_error h)"
    and "field ''error_code'' (de_option de_string) kvs = Some (h_error_code h)"
    and "field ''error_data'' (de_option de_value) kvs = Some (h_error_data h)"
    and "field ''request_id'' de_flex_int kvs = Some (h_request_id h)"
    and "field ''client_id'' de_flex_int kvs = Some (h_client_id h)"
    and "field ''ticket'' nullable_string kvs = Some (h_ticket h)"
    and "field ''identifying_token'' nullable_string kvs = Some (h_identifying_token h)"
    and "field ''type'' de_message_type kvs = Some (h_message_type h)"
    and "field ''version'' de_i32 kvs = Some (h_version h)"
  using assms
  by (auto simp: json_of_header_def field_def canonical_header_def simp del: de_i32.simps
      split: option.splits)

lemma header_of_json_of_header:
  assumes "canonical_header h"
  shows "header_of_json (json_of_header h) = Some h"
proof -
  obtain kvs where kvs: "json_of_header h = JObj kvs"
    by (simp add: json_of_header_def)
  show ?thesis
    using field_json_of_header [OF kvs assms] by (simp add: kvs)
qed

lemma build_header_eq_Some:
  "build_header act env err code edata rid cid tick tok mt ver = Some h \<longleftrightarrow>
     act = Some (h_action h) \<and> env = Some (h_envelope h) \<and> err = Some (h_error h)
     \<and> code = Some (h_error_code h) \<and> edata = Some (h_error_data h)
     \<and> rid = Some (h_request_id h) \<and> cid = Some (h_client_id h) \<and> tick = Some (h_ticket h)
     \<and> tok = Some (h_identifying_token h) \<and> mt = Some (h_message_type h)
     \<and> ver = Some (h_version h)"
  by (cases h) (auto simp: build_header_def split: option.splits prod.splits)

lemma de_envelope_canonical: "de_envelope v = Some e \<Longrightarrow> canonical_envelope e"
  by (auto simp: de_envelope_def)

lemma de_option_value_nonnull: "de_option de_value v = Some x \<Longrightarrow> x \<noteq> Some JNull"
  by (cases v) auto

lemma field_cases:
  assumes "field k de kvs = Some x"
  shows "x = default \<or> (\<exists>v. de v = Some x)"
  using assms by (auto simp: field_def split: list.splits)

lemma element_cases:
  assumes "element i de vs = Some x"
  shows "x = default \<or> (\<exists>v. de v = Some x)"
  using assms by (auto simp: element_def split: if_splits)

text \<open>Whatever document a header was read from, writing and reading it again changes nothing.\<close>

lemma canonical_envelope_default [simp]: "canonical_envelope default"
  by (simp add: default_envelope_format_def envelope_default_def)

lemma header_of_json_canonical:
  assumes "header_of_json v = Some h"
  shows "canonical_header h"
proof -
  have env: "canonical_envelope e"
    if "e = default \<or> (\<exists>v. de_envelope v = Some e)" for e
    using that de_envelope_canonical by auto
  have data: "x \<noteq> Some JNull"
    if "x = default \<or> (\<exists>v. de_option de_value v = Some x)" for x
    using that de_option_value_nonnull by auto
  show ?thesis
  proof (cases v)
    case (JObj kvs)
    with assms show ?thesis
      using env [OF field_cases] data [OF field_cases]
      by (fastforce simp: build_header_eq_Some canonical_header_def)
  next
    case (JArr vs)
    with assms show ?thesis
      using env [OF element_cases] data [OF element_cases]
      by (fastforce simp: build_header_eq_Some canonical_header_def split: if_splits)
  qed (use assms in auto)
qed

end
