(* ===== verification/Wire_Packet.thy ===== *)
theory Wire_Packet
  imports Wire_Header
begin

text \<open>
  Packet framing, \<open>scamp/src/transport/beepish/proto/mod.rs\<close> and \<open>packet.rs\<close>: the packet type,
  \<open>Packet::write\<close> and \<open>Packet::parse\<close>.  The parser is cut into the three stages of the code:
  finding the header line, reading its three fields, and building the packet from the payload.
  JSON text is printed by \<open>enc\<close> and parsed by \<open>dec\<close>.

  The lemmas show that a written packet parses back with exactly its bytes consumed, that what was
  recognised once is recognised again when more bytes follow, that every proper prefix of a written
  packet asks for more input, and that \<open>NeedBytes\<close> states the exact number of missing bytes.
\<close>

definition MAX_PACKET_SIZE :: nat where
  "MAX_PACKET_SIZE = 131072"

definition DATA_CHUNK_SIZE :: nat where
  "DATA_CHUNK_SIZE = 2048"

datatype packet_type = Header | Data | Eof | Txerr | Ack | Ping | Pong

record packet =
  p_type :: packet_type
  p_msg_no :: u64
  p_header :: "packet_header option"
  p_body :: bytes

datatype fatal =
    BareNewline
  | OverlongHeaderLine
  | InvalidUtf8
  | MalformedHeaderLine
  | InvalidMessageNumber
  | InvalidPacketSize
  | UnreasonablyLarge
  | MalformedTrailer
  | UnexpectedType string
  | MalformedJson bytes

datatype parse_result =
    TooShort
  | NeedBytes nat
  | Success packet nat
  | Drop nat
  | Fatal fatal

text \<open>The messages of the fatal errors; \<open>json_err\<close> is the text of the JSON library's error.\<close>

fun fatal_text :: "(bytes \<Rightarrow> string) \<Rightarrow> fatal \<Rightarrow> string" where
  "fatal_text json_err BareNewline = ''Malformed request line (bare '' @ [CHR 0x5C] @ ''n, expected '' @ [CHR 0x5C] @ ''r'' @ [CHR 0x5C] @ ''n)''"
| "fatal_text json_err OverlongHeaderLine = ''Overlong header line''"
| "fatal_text json_err InvalidUtf8 = ''Invalid UTF-8 in header line''"
| "fatal_text json_err MalformedHeaderLine = ''Malformed header line''"
| "fatal_text json_err InvalidMessageNumber = ''Invalid message number''"
| "fatal_text json_err InvalidPacketSize = ''Invalid packet size''"
| "fatal_text json_err UnreasonablyLarge = ''Unreasonably large packet''"
| "fatal_text json_err MalformedTrailer = ''Malformed trailer''"
| "fatal_text json_err (UnexpectedType cmd) = ''Unexpected packet of type '' @ cmd"
| "fatal_text json_err (MalformedJson payload) =
     ''Malformed JSON in received header: '' @ json_err payload"

subsection \<open>Writing\<close>

fun type_str :: "packet_type \<Rightarrow> bytes" where
  "type_str Header = ''HEADER''"
| "type_str Data = ''DATA''"
| "type_str Eof = ''EOF''"
| "type_str Txerr = ''TXERR''"
| "type_str Ack = ''ACK''"
| "type_str Ping = ''PING''"
| "type_str Pong = ''PONG''"

definition trailer :: bytes where
  "trailer = ''END'' @ crlf"

definition body_buf :: "(json \<Rightarrow> bytes) \<Rightarrow> packet \<Rightarrow> bytes" where
  "body_buf enc p =
     (case p_header p of Some h \<Rightarrow> enc (json_of_header h) | None \<Rightarrow> p_body p)"

definition header_line :: "(json \<Rightarrow> bytes) \<Rightarrow> packet \<Rightarrow> bytes" where
  "header_line enc p =
     type_str (p_type p) @ '' '' @ dec_of_nat (unat (p_msg_no p)) @ '' ''
       @ dec_of_nat (length (body_buf enc p))"

text \<open>The bytes written and the count returned, when no write fails.\<close>

definition packet_write :: "(json \<Rightarrow> bytes) \<Rightarrow> packet \<Rightarrow> bytes \<times> nat" where
  "packet_write enc p =
     (let line = header_line enc p @ crlf; body = body_buf enc p
      in (line @ body @ trailer, length line + length body + 5))"

abbreviation packet_bytes :: "(json \<Rightarrow> bytes) \<Rightarrow> packet \<Rightarrow> bytes" where
  "packet_bytes enc p \<equiv> fst (packet_write enc p)"

subsection \<open>Parsing\<close>

text \<open>The first CRLF within the first 80 bytes ends the header line.\<close>

definition header_cut :: "bytes \<Rightarrow> parse_result + nat" where
  "header_cut buf =
     (let scan_len = min (length buf) 80; scan = take scan_len buf in
      case find_sub crlf scan of
        Some pos \<Rightarrow> Inr pos
      | None \<Rightarrow>
          Inl (if CHR 0x0A \<in> set scan then Fatal BareNewline
               else if 80 \<le> scan_len then Fatal OverlongHeaderLine
               else TooShort))"

definition header_fields :: "bytes \<Rightarrow> fatal + (string \<times> u64 \<times> nat)" where
  "header_fields line =
     (case from_utf8 line of
        None \<Rightarrow> Inl InvalidUtf8
      | Some text \<Rightarrow>
          (case split_whitespace text of
             [cmd, no, sz] \<Rightarrow>
               (case parse_u64 no of
                  None \<Rightarrow> Inl InvalidMessageNumber
                | Some msg_no \<Rightarrow>
                    (case parse_uint u64_max sz of
                       None \<Rightarrow> Inl InvalidPacketSize
                     | Some siz \<Rightarrow>
                         if MAX_PACKET_SIZE < siz then Inl UnreasonablyLarge
                         else Inr (cmd, msg_no, siz)))
           | _ \<Rightarrow> Inl MalformedHeaderLine))"

definition type_of_str :: "string \<Rightarrow> packet_type option" where
  "type_of_str cmd =
     (if cmd = ''HEADER'' then Some Header
      else if cmd = ''DATA'' then Some Data
      else if cmd = ''EOF'' then Some Eof
      else if cmd = ''TXERR'' then Some Txerr
      else if cmd = ''ACK'' then Some Ack
      else if cmd = ''PING'' then Some Ping
      else if cmd = ''PONG'' then Some Pong
      else None)"

definition build_packet ::
  "(bytes \<Rightarrow> json option) \<Rightarrow> string \<Rightarrow> u64 \<Rightarrow> bytes \<Rightarrow> fatal + packet" where
  "build_packet dec cmd msg_no payload =
     (case type_of_str cmd of
        None \<Rightarrow> Inl (UnexpectedType cmd)
      | Some ty \<Rightarrow>
          if ty = Header then
            (case Option.bind (dec payload) header_of_json of
               None \<Rightarrow> Inl (MalformedJson payload)
             | Some h \<Rightarrow> Inr \<lparr>p_type = ty, p_msg_no = msg_no, p_header = Some h, p_body = []\<rparr>)
          else Inr \<lparr>p_type = ty, p_msg_no = msg_no, p_header = None, p_body = payload\<rparr>)"

definition packet_parse :: "(bytes \<Rightarrow> json option) \<Rightarrow> bytes \<Rightarrow> parse_result" where
  "packet_parse dec buf =
     (if buf = [] then TooShort
      else case header_cut buf of
        Inl r \<Rightarrow> r
      | Inr pos \<Rightarrow>
          (case header_fields (take pos buf) of
             Inl e \<Rightarrow> Fatal e
           | Inr (cmd, msg_no, siz) \<Rightarrow>
               (let payload_start = pos + 2; payload_end = payload_start + siz in
                if length buf < payload_end + 5 then NeedBytes (payload_end + 5 - length buf)
                else
                  let payload = take siz (drop payload_start buf);
                      trail = take 5 (drop payload_end buf)
                  in if trail \<noteq> trailer then Fatal MalformedTrailer
                     else case build_packet dec cmd msg_no payload of
                            Inl e \<Rightarrow> Fatal e
                          | Inr p \<Rightarrow> Success p (payload_end + 5))))"

subsection \<open>Well-formed packets and the codec\<close>

text \<open>The shape the code gives every packet it sends: a header exactly on HEADER packets, which
  then have no other body, and a payload within the limit.\<close>

definition wf_packet :: "packet \<Rightarrow> bool" where
  "wf_packet p \<longleftrightarrow>
     (p_header p \<noteq> None \<longleftrightarrow> p_type p = Header) \<and> (p_type p = Header \<longrightarrow> p_body p = [])
     \<and> (\<forall>h. p_header p = Some h \<longrightarrow> canonical_header h)"

text \<open>What is relied on of the JSON library for one packet: the text printed for its header
  parses back to the same document.\<close>

definition codec_ok :: "(json \<Rightarrow> bytes) \<Rightarrow> (bytes \<Rightarrow> json option) \<Rightarrow> packet \<Rightarrow> bool" where
  "codec_ok enc dec p \<longleftrightarrow>
     (\<forall>h. p_header p = Some h \<longrightarrow> dec (enc (json_of_header h)) = Some (json_of_header h))"

definition sendable :: "(json \<Rightarrow> bytes) \<Rightarrow> (bytes \<Rightarrow> json option) \<Rightarrow> packet \<Rightarrow> bool" where
  "sendable enc dec p \<longleftrightarrow>
     wf_packet p \<and> codec_ok enc dec p \<and> length (body_buf enc p) \<le> MAX_PACKET_SIZE"

subsection \<open>Lemmas on writing\<close>

lemma length_trailer [simp]: "length trailer = 5"
  by (simp add: trailer_def crlf_def)

lemma length_crlf [simp]: "length crlf = 2"
  by (simp add: crlf_def)

lemma packet_bytes_eq [wire_simps]:
  "packet_bytes enc p = header_line enc p @ crlf @ body_buf enc p @ trailer"
  by (simp add: packet_write_def Let_def)

lemma packet_write_count: "snd (packet_write enc p) = length (packet_bytes enc p)"
  by (simp add: packet_write_def Let_def)

lemma type_of_type_str [simp]: "type_of_str (type_str t) = Some t"
  by (cases t) (simp_all add: type_of_str_def)

lemma type_of_str_Some: "type_of_str cmd = Some t \<Longrightarrow> cmd = type_str t"
  by (auto simp: type_of_str_def split: if_splits)

lemma type_str_tokens: "\<forall>c \<in> set (type_str t). is_token_char c"
  by (cases t) (simp_all add: is_token_char_def)

lemma type_str_not_Nil [simp]: "type_str t \<noteq> []"
  by (cases t) simp_all

lemma length_type_str: "length (type_str t) \<le> 6"
  by (cases t) simp_all

lemma token_ascii: "\<forall>c \<in> set s. is_token_char c \<Longrightarrow> is_ascii s"
  by (auto simp: is_ascii_def is_token_char_def)

lemma split_whitespace_line [wire_simps]:
  "split_whitespace (header_line enc p) =
     [type_str (p_type p), dec_of_nat (unat (p_msg_no p)), dec_of_nat (length (body_buf enc p))]"
  unfolding split_whitespace_def header_line_def
  using split_ws_token [OF dec_of_nat_tokens, where t = "[]"]
  by (simp add: split_ws_token [OF type_str_tokens] split_ws_token [OF dec_of_nat_tokens]
      del: split_ws.simps(2) add: split_ws_space)

lemma is_ascii_header_line [simp]: "is_ascii (header_line enc p)"
  by (simp add: header_line_def token_ascii [OF type_str_tokens])

lemma header_line_no_cr: "CHR 0x0D \<notin> set (header_line enc p)"
proof -
  have "\<forall>c \<in> set (header_line enc p). is_token_char c \<or> c = CHR '' ''"
    using type_str_tokens dec_of_nat_tokens by (auto simp: header_line_def)
  then show ?thesis by (auto simp: is_token_char_def)
qed

lemma length_header_line:
  assumes "length (body_buf enc p) \<le> MAX_PACKET_SIZE"
  shows "length (header_line enc p) \<le> 34"
proof -
  have "length (body_buf enc p) < 10 ^ 6"
    using assms by (simp add: MAX_PACKET_SIZE_def)
  then have "length (dec_of_nat (length (body_buf enc p))) \<le> 6"
    by (rule length_dec_of_nat) simp
  then show ?thesis
    using length_type_str [of "p_type p"] length_dec_u64 [of "p_msg_no p"]
    by (simp add: header_line_def)
qed

lemma header_fields_line [wire_simps]:
  assumes "length (body_buf enc p) \<le> MAX_PACKET_SIZE"
  shows "header_fields (header_line enc p) =
           Inr (type_str (p_type p), p_msg_no p, length (body_buf enc p))"
proof -
  have "length (body_buf enc p) \<le> u64_max"
    using assms by (simp add: MAX_PACKET_SIZE_def u64_max_def)
  with assms show ?thesis
    by (simp add: header_fields_def wire_simps)
qed

lemma build_packet_written [wire_simps]:
  assumes "wf_packet p" and "codec_ok enc dec p"
  shows "build_packet dec (type_str (p_type p)) (p_msg_no p) (body_buf enc p) = Inr p"
proof (cases "p_header p")
  case None
  with assms show ?thesis
    by (cases p) (auto simp: build_packet_def wf_packet_def body_buf_def)
next
  case (Some h)
  with assms have "p_type p = Header" "p_body p = []" "canonical_header h"
    and "dec (enc (json_of_header h)) = Some (json_of_header h)"
    by (auto simp: wf_packet_def codec_ok_def)
  with Some show ?thesis
    by (cases p) (simp add: build_packet_def body_buf_def header_of_json_of_header
        type_of_type_str [of Header, simplified])
qed

subsection \<open>Lemmas on parsing\<close>

lemma header_cut_written [wire_simps]:
  assumes "length line \<le> 78" and "CHR 0x0D \<notin> set line"
  shows "header_cut (line @ crlf @ rest) = Inr (length line)"
proof -
  have "take (min (length (line @ crlf @ rest)) 80) (line @ crlf @ rest)
      = line @ crlf @ take (78 - length line) rest"
    using assms(1) by (simp add: min_def) arith
  then show ?thesis
    using assms(2) find_sub_first [of "CHR 0x0D" line "[CHR 0x0A]" "take (78 - length line) rest"]
    by (simp add: header_cut_def crlf_def Let_def)
qed

lemma header_cut_Inr:
  "header_cut buf = Inr pos \<longleftrightarrow> find_sub crlf (take 80 buf) = Some pos"
  by (auto simp: header_cut_def Let_def min_def split: option.splits)

lemma header_cut_bound: "header_cut buf = Inr pos \<Longrightarrow> pos + 2 \<le> length buf"
  using find_sub_bound [of crlf "take 80 buf" pos] by (simp add: header_cut_Inr)

lemma header_cut_append:
  "header_cut buf = Inr pos \<Longrightarrow> header_cut (buf @ ext) = Inr pos"
  by (simp add: header_cut_Inr find_sub_append)

lemma packet_parse_Nil [simp]: "packet_parse dec [] = TooShort"
  by (simp add: packet_parse_def)

text \<open>The parser after the header line is known.\<close>

lemma packet_parse_cut:
  assumes "header_cut buf = Inr pos" and "header_fields (take pos buf) = Inr (cmd, msg_no, siz)"
  shows "packet_parse dec buf =
     (if length buf < pos + siz + 7 then NeedBytes (pos + siz + 7 - length buf)
      else if take 5 (drop (pos + 2 + siz) buf) \<noteq> trailer then Fatal MalformedTrailer
      else case build_packet dec cmd msg_no (take siz (drop (pos + 2) buf)) of
             Inl e \<Rightarrow> Fatal e
           | Inr p \<Rightarrow> Success p (pos + siz + 7))"
proof -
  have "buf \<noteq> []"
    using header_cut_bound [OF assms(1)] by auto
  with assms show ?thesis
    by (auto simp: packet_parse_def Let_def split: sum.splits)
qed

lemma packet_parse_no_fields:
  assumes "header_cut buf = Inr pos" and "header_fields (take pos buf) = Inl e"
  shows "packet_parse dec buf = Fatal e"
  using assms header_cut_bound [OF assms(1)] by (auto simp: packet_parse_def)

lemma packet_parse_no_cut:
  assumes "header_cut buf = Inl r"
  shows "packet_parse dec buf = (if buf = [] then TooShort else r)"
  using assms by (simp add: packet_parse_def)

lemma header_cut_Inl:
  "header_cut buf = Inl r \<Longrightarrow> r \<in> {TooShort, Fatal BareNewline, Fatal OverlongHeaderLine}"
  by (auto simp: header_cut_def Let_def split: option.splits if_splits)

text \<open>One case analysis for all parser facts.\<close>

lemma packet_parse_cases:
  obtains (no_cut) r where "header_cut buf = Inl r"
      and "packet_parse dec buf = (if buf = [] then TooShort else r)"
      and "r \<in> {TooShort, Fatal BareNewline, Fatal OverlongHeaderLine}"
  | (no_fields) pos e where "header_cut buf = Inr pos" and "header_fields (take pos buf) = Inl e"
      and "packet_parse dec buf = Fatal e"
  | (fields) pos cmd msg_no siz where "header_cut buf = Inr pos"
      and "header_fields (take pos buf) = Inr (cmd, msg_no, siz)"
proof (cases "header_cut buf")
  case (Inl r)
  then show ?thesis
    using no_cut packet_parse_no_cut header_cut_Inl by blast
next
  case (Inr pos)
  then show ?thesis
    using no_fields fields packet_parse_no_fields
    by (cases "header_fields (take pos buf)") auto
qed


lemma header_line_no_lf: "CHR 0x0A \<notin> set (header_line enc p)"
proof -
  have "\<forall>c \<in> set (header_line enc p). is_token_char c \<or> c = CHR '' ''"
    using type_str_tokens dec_of_nat_tokens by (auto simp: header_line_def)
  then show ?thesis by (auto simp: is_token_char_def)
qed

lemma length_packet_bytes:
  "length (packet_bytes enc p) = length (header_line enc p) + length (body_buf enc p) + 7"
  by (simp add: packet_bytes_eq)

lemma packet_bytes_not_Nil [simp]: "packet_bytes enc p \<noteq> []"
  by (simp add: packet_bytes_eq trailer_def)

lemma packet_parse_success_bound:
  assumes "packet_parse dec buf = Success p n"
  shows "7 \<le> n" and "n \<le> length buf"
proof -
  show "7 \<le> n"
    using assms by (cases rule: packet_parse_cases [of buf dec])
      (auto simp: packet_parse_cut split: if_splits sum.splits)
  show "n \<le> length buf"
    using assms by (cases rule: packet_parse_cases [of buf dec])
      (auto simp: packet_parse_cut split: if_splits sum.splits)
qed

text \<open>What the parser accepts has the shape of the packets the code sends.\<close>

lemma build_packet_wf: "build_packet dec cmd msg_no payload = Inr p \<Longrightarrow> wf_packet p"
  by (auto simp: build_packet_def wf_packet_def bind_eq_Some_conv header_of_json_canonical
      split: option.splits if_splits)

lemma packet_parse_wf:
  assumes "packet_parse dec buf = Success p n"
  shows "wf_packet p"
  using assms by (cases rule: packet_parse_cases [of buf dec])
    (auto simp: packet_parse_cut build_packet_wf split: if_splits sum.splits)

lemma header_fields_append:
  fixes ext :: bytes
  assumes "header_cut buf = Inr pos" and "header_fields (take pos buf) = r"
  shows "header_cut (buf @ ext) = Inr pos" and "header_fields (take pos (buf @ ext)) = r"
  using assms header_cut_append [of buf pos ext] header_cut_bound [of buf pos] by auto

lemma packet_parse_success_append:
  assumes "packet_parse dec buf = Success p n"
  shows "packet_parse dec (buf @ ext) = Success p n"
  using assms
proof (cases rule: packet_parse_cases [of buf dec])
  case (fields pos cmd msg_no siz)
  note parse = packet_parse_cut [OF header_fields_append [OF fields]]
  have "pos + siz + 7 \<le> length buf"
    using assms by (auto simp: packet_parse_cut [OF fields] split: if_splits)
  with assms show ?thesis
    by (auto simp: packet_parse_cut [OF fields] parse split: if_splits)
qed (auto split: if_splits)

lemma packet_parse_needs:
  assumes "packet_parse dec buf = NeedBytes k"
  obtains pos cmd msg_no siz where "header_cut buf = Inr pos"
    and "header_fields (take pos buf) = Inr (cmd, msg_no, siz)"
    and "length buf < pos + siz + 7" and "k = pos + siz + 7 - length buf"
  using assms
proof (cases rule: packet_parse_cases [of buf dec])
  case (fields pos cmd msg_no siz)
  with assms that [OF fields] show ?thesis
    by (auto simp: packet_parse_cut [OF fields] split: if_splits sum.splits)
qed (auto split: if_splits)

lemma packet_parse_written:
  assumes "sendable enc dec p"
  shows "packet_parse dec (packet_bytes enc p @ rest) = Success p (length (packet_bytes enc p))"
proof -
  have wf: "wf_packet p" "codec_ok enc dec p" and len: "length (body_buf enc p) \<le> MAX_PACKET_SIZE"
    using assms by (auto simp: sendable_def)
  let ?line = "header_line enc p" and ?body = "body_buf enc p"
  let ?buf = "?line @ crlf @ ?body @ trailer @ rest"
  have c: "header_cut ?buf = Inr (length ?line)"
    using length_header_line [OF len] header_line_no_cr by (simp add: wire_simps)
  have f: "header_fields (take (length ?line) ?buf)
      = Inr (type_str (p_type p), p_msg_no p, length ?body)"
    using header_fields_line [OF len] by simp
  show ?thesis
    using build_packet_written [OF wf]
    by (simp add: packet_bytes_eq packet_parse_cut [OF c f])
qed

text \<open>
  C10: Reading back a packet that was written gives the same packet and consumes exactly the bytes of
  that packet, whatever follows it in the buffer.  (The JSON library is relied on only to parse
  the header text it printed.)
\<close>

theorem packet_roundtrip:
  assumes "sendable enc dec p"
  shows "packet_parse dec (packet_bytes enc p @ rest) = Success p (length (packet_bytes enc p))"
  using assms by (rule packet_parse_written)

text \<open>
  Once a packet has been recognised, more input never changes it: the parser returns the same
  packet and count, which is at least the seven framing bytes and at most the buffer.
\<close>

theorem packet_parse_stable:
  assumes "packet_parse dec buf = Success p n"
  shows "packet_parse dec (buf @ ext) = Success p n \<and> 7 \<le> n \<and> n \<le> length buf"
  using packet_parse_success_append packet_parse_success_bound assms by blast

text \<open>
  \<open>NeedBytes\<close> is exact: with fewer bytes than it asks for the parser asks for the rest, and with
  that many or more it decides, accepting a packet that ends exactly there or failing.
\<close>

theorem packet_parse_need_exact:
  assumes "packet_parse dec buf = NeedBytes k"
  shows "if length ext < k then packet_parse dec (buf @ ext) = NeedBytes (k - length ext)
         else (\<exists>p. packet_parse dec (buf @ ext) = Success p (length buf + k))
              \<or> (\<exists>e. packet_parse dec (buf @ ext) = Fatal e)"
proof -
  from assms obtain pos cmd msg_no siz where cf: "header_cut buf = Inr pos"
    "header_fields (take pos buf) = Inr (cmd, msg_no, siz)"
    and k: "length buf < pos + siz + 7" "k = pos + siz + 7 - length buf"
    by (rule packet_parse_needs)
  obtain buf' where buf': "buf' = buf @ ext" by blast
  note parse = packet_parse_cut [OF header_fields_append [OF cf, of ext], folded buf']
  show ?thesis
  proof (cases "length ext < k")
    case True
    with k have "length buf' < pos + siz + 7" and "pos + siz + 7 - length buf' = k - length ext"
      by (simp_all add: buf')
    with True show ?thesis by (simp add: parse buf' [symmetric])
  next
    case False
    with k have "\<not> length buf' < pos + siz + 7" and "pos + siz + 7 = length buf + k"
      by (simp_all add: buf')
    with False show ?thesis
      by (simp add: parse buf' [symmetric] del: drop_append take_append split: sum.split)
  qed
qed

lemma header_cut_short:
  assumes "length buf < 80" and "CHR 0x0A \<notin> set buf"
  shows "header_cut buf = Inl TooShort"
proof -
  have "find_sub crlf buf = None"
    using assms(2) by (intro find_sub_absent_char [of "CHR 0x0A"]) (simp_all add: crlf_def)
  with assms show ?thesis
    by (simp add: header_cut_def Let_def)
qed

lemma packet_parse_short_prefix:
  assumes "length (header_line enc p) \<le> 34" and "n \<le> length (header_line enc p) + 1"
  shows "packet_parse dec (take n (packet_bytes enc p)) = TooShort"
proof -
  obtain pre where pre: "pre = take n (header_line enc p @ [CHR 0x0D])" by blast
  have eq: "take n (packet_bytes enc p) = pre"
    using assms(2) by (cases "n = length (header_line enc p) + 1")
      (auto simp: pre packet_bytes_eq crlf_def)
  have "CHR 0x0A \<notin> set pre"
    using header_line_no_lf [of enc p] by (auto simp: pre dest: in_set_takeD)
  moreover have "length pre < 80" using assms by (simp add: pre)
  ultimately have "header_cut pre = Inl TooShort"
    by (rule header_cut_short [rotated])
  then show ?thesis
    by (simp add: eq packet_parse_no_cut)
qed

lemma packet_parse_partial:
  assumes "length (body_buf enc p) \<le> MAX_PACKET_SIZE" and "length (header_line enc p) + 2 \<le> n"
    and "n < length (packet_bytes enc p)"
  shows "packet_parse dec (take n (packet_bytes enc p)) = NeedBytes (length (packet_bytes enc p) - n)"
proof -
  let ?line = "header_line enc p"
  from assms(2) obtain m where m: "n = length ?line + 2 + m"
    using le_Suc_ex by blast
  obtain pre where pre: "pre = ?line @ crlf @ take m (body_buf enc p @ trailer)" by blast
  have eq: "take n (packet_bytes enc p) = pre"
    by (simp add: packet_bytes_eq m pre)
  have c: "header_cut pre = Inr (length ?line)"
    using length_header_line [OF assms(1)] header_line_no_cr by (simp add: header_cut_written pre)
  have f: "header_fields (take (length ?line) pre)
      = Inr (type_str (p_type p), p_msg_no p, length (body_buf enc p))"
    using header_fields_line [OF assms(1)] by (simp add: pre)
  have "length pre = n" using assms(3) m by (simp add: length_packet_bytes pre)
  then show ?thesis
    using assms(3) by (simp add: eq packet_parse_cut [OF c f] length_packet_bytes)
qed

lemma packet_parse_waits:
  assumes "sendable enc dec p" and "n < length (packet_bytes enc p)"
  shows "packet_parse dec (take n (packet_bytes enc p)) = TooShort
         \<or> packet_parse dec (take n (packet_bytes enc p)) = NeedBytes (length (packet_bytes enc p) - n)"
proof (cases "n \<le> length (header_line enc p) + 1")
  case True
  with assms(1) packet_parse_short_prefix length_header_line show ?thesis
    by (auto simp: sendable_def)
next
  case False
  with assms packet_parse_partial show ?thesis by (simp add: sendable_def)
qed

text \<open>
  Every proper prefix of a written packet asks for more input: the parser neither accepts nor
  rejects a packet that is still arriving.
\<close>

theorem packet_parse_prefix_waits:
  assumes "sendable enc dec p" and "n < length (packet_bytes enc p)"
  shows "packet_parse dec (take n (packet_bytes enc p)) = TooShort
         \<or> packet_parse dec (take n (packet_bytes enc p)) = NeedBytes (length (packet_bytes enc p) - n)"
  using assms by (rule packet_parse_waits)

subsection \<open>Witnesses\<close>

text \<open>A HEADER packet with the default header, and a codec that knows its text.\<close>

definition sample_packet :: packet where
  "sample_packet = \<lparr>p_type = Header, p_msg_no = 3, p_header = Some default_header, p_body = []\<rparr>"

definition sample_enc :: "json \<Rightarrow> bytes" where
  "sample_enc v = ''{...}''"

definition sample_dec :: "bytes \<Rightarrow> json option" where
  "sample_dec b = (if b = ''{...}'' then Some (json_of_header default_header) else None)"

lemma sendable_sample [simp]: "sendable sample_enc sample_dec sample_packet"
  by (simp add: sendable_def wf_packet_def codec_ok_def sample_packet_def sample_enc_def sample_dec_def
      canonical_header_def default_header_def body_buf_def MAX_PACKET_SIZE_def)

lemma sample_bytes:
  "packet_bytes sample_enc sample_packet = ''HEADER 3 5'' @ crlf @ ''{...}END'' @ crlf"
  by code_simp

lemma packet_roundtrip_witness:
  "packet_parse sample_dec (''HEADER 3 5'' @ crlf @ ''{...}END'' @ crlf @ ''PING 1'')
     = Success sample_packet 22"
  using packet_roundtrip [OF sendable_sample, of "''PING 1''"]
  by (simp add: sample_bytes crlf_def)

lemma packet_parse_stable_witness:
  "packet_parse sample_dec ((''HEADER 3 5'' @ crlf @ ''{...}END'' @ crlf) @ ''junk'')
     = Success sample_packet 22"
proof -
  have "packet_parse sample_dec (packet_bytes sample_enc sample_packet) = Success sample_packet 22"
    using packet_parse_written [OF sendable_sample, of "[]"] by (simp add: sample_bytes crlf_def)
  from packet_parse_stable [OF this, of "''junk''"] show ?thesis by (simp add: sample_bytes)
qed

text \<open>The sample packet cut off after 14 of its 22 bytes.\<close>

lemma sample_partial:
  "packet_parse sample_dec (take 14 (packet_bytes sample_enc sample_packet)) = NeedBytes 8"
proof -
  have len: "length (packet_bytes sample_enc sample_packet) = 22"
    by (simp add: sample_bytes crlf_def)
  have body: "length (body_buf sample_enc sample_packet) = 5"
    by (simp add: body_buf_def sample_packet_def sample_enc_def)
  then have line: "length (header_line sample_enc sample_packet) = 10"
    using length_packet_bytes [of sample_enc sample_packet] len by simp
  show ?thesis
    using packet_parse_partial [of sample_enc sample_packet 14 sample_dec] len body line
    by (simp add: MAX_PACKET_SIZE_def)
qed

lemma packet_parse_need_exact_witness:
  "packet_parse sample_dec (take 14 (packet_bytes sample_enc sample_packet) @ ''..}EN'') = NeedBytes 3"
proof -
  have "(if length ''..}EN'' < 8
      then packet_parse sample_dec (take 14 (packet_bytes sample_enc sample_packet) @ ''..}EN'')
        = NeedBytes (8 - length ''..}EN'')
      else (\<exists>p. packet_parse sample_dec (take 14 (packet_bytes sample_enc sample_packet) @ ''..}EN'')
        = Success p (length (take 14 (packet_bytes sample_enc sample_packet)) + 8))
       \<or> (\<exists>e. packet_parse sample_dec (take 14 (packet_bytes sample_enc sample_packet) @ ''..}EN'') = Fatal e))"
    by (rule packet_parse_need_exact [OF sample_partial])
  then show ?thesis by (simp add: numeral_3_eq_3 del: take_append append_take_drop_id)
qed

lemma packet_parse_prefix_waits_witness:
  "packet_parse sample_dec (take 14 (packet_bytes sample_enc sample_packet)) = TooShort
   \<or> packet_parse sample_dec (take 14 (packet_bytes sample_enc sample_packet))
       = NeedBytes (length (packet_bytes sample_enc sample_packet) - 14)"
  by (rule packet_parse_prefix_waits [OF sendable_sample]) (simp add: sample_bytes crlf_def)

end
