(* ===== verification/Wire_Stream.thy ===== *)
theory Wire_Stream
  imports Wire_Packet
begin

text \<open>
  The read loop that both ends of a connection run: bytes arrive in pieces of at most 4096, are
  appended to a buffer whose length is capped, and every complete packet at the front of the buffer
  is handed to the routing function of that end.  The loop is written once, over the routing function;
  \<open>Server_Connection\<close> and \<open>Client_Reader\<close> instantiate it with theirs.

  The main result is that the segmentation of the byte stream does not matter: for packets that fit,
  every way of cutting the same bytes into reads routes the same packets in the same order.
\<close>

subsection \<open>The loop\<close>

text \<open>
  What the inner loop leaves behind: an incomplete rest to keep, or the connection closed by the
  routing function, or a protocol error.
\<close>

datatype 's drained = Rest bytes 's | Refused 's | Broken fatal 's

lemma packet_parse_no_drop: "packet_parse dec buf \<noteq> Drop n"
proof (cases rule: packet_parse_cases [of buf dec])
  case (fields pos cmd msg_no siz)
  then show ?thesis
    by (auto simp: packet_parse_cut [OF fields] split: sum.splits)
qed auto

function drain ::
  "(bytes \<Rightarrow> json option) \<Rightarrow> (packet \<Rightarrow> 's \<Rightarrow> bool \<times> 's) \<Rightarrow> bytes \<Rightarrow> 's \<Rightarrow> 's drained" where
  "drain dec route buf s =
     (if buf = [] then Rest buf s
      else case packet_parse dec buf of
        TooShort \<Rightarrow> Rest buf s
      | NeedBytes k \<Rightarrow> Rest buf s
      | Drop n \<Rightarrow> drain dec route (drop n buf) s
      | Success p n \<Rightarrow>
          (case route p s of
             (ok, s') \<Rightarrow> if ok then drain dec route (drop n buf) s' else Refused s')
      | Fatal e \<Rightarrow> Broken e s)"
  by pat_completeness auto

termination
proof (relation "measure (\<lambda>(dec, route, buf, s). length buf)")
  fix dec :: "bytes \<Rightarrow> json option" and buf p n
  assume "packet_parse dec buf = Success p n" and "buf \<noteq> []"
  then show "((dec, route, drop n buf, s'), dec, route, buf, s)
      \<in> measure (\<lambda>(dec, route, buf, s). length buf)" for route :: "packet \<Rightarrow> 's \<Rightarrow> bool \<times> 's" and s s'
    using packet_parse_success_bound [of dec buf p n] by simp
qed (auto simp: packet_parse_no_drop)

declare drain.simps [simp del]

text \<open>How the outer loop ends: no more input (end of stream, read error or timeout), buffer above
  the cap, closed by the routing function, or a protocol error.\<close>

datatype 's loop_end = ReadEnd 's | Overflow 's | Closed 's | ProtocolError fatal 's

fun read_loop ::
  "(bytes \<Rightarrow> json option) \<Rightarrow> (packet \<Rightarrow> 's \<Rightarrow> bool \<times> 's) \<Rightarrow> bytes \<Rightarrow> 's \<Rightarrow> bytes list
   \<Rightarrow> 's loop_end" where
  "read_loop dec route buf s [] = ReadEnd s"
| "read_loop dec route buf s (chunk # chunks) =
     (if MAX_PACKET_SIZE + 100 < length (buf @ chunk) then Overflow s
      else case drain dec route (buf @ chunk) s of
        Rest rest s' \<Rightarrow> read_loop dec route rest s' chunks
      | Refused s' \<Rightarrow> Closed s'
      | Broken e s' \<Rightarrow> ProtocolError e s')"

definition READ_SIZE :: nat where
  "READ_SIZE = 4096"

fun end_state :: "'s loop_end \<Rightarrow> 's" where
  "end_state (ReadEnd s) = s"
| "end_state (Overflow s) = s"
| "end_state (Closed s) = s"
| "end_state (ProtocolError e s) = s"

text \<open>The packets of a list routed in order, up to the first one that closes the connection.\<close>

fun route_all :: "(packet \<Rightarrow> 's \<Rightarrow> bool \<times> 's) \<Rightarrow> packet list \<Rightarrow> 's \<Rightarrow> bool \<times> 's" where
  "route_all route [] s = (True, s)"
| "route_all route (p # ps) s =
     (case route p s of (ok, s') \<Rightarrow> if ok then route_all route ps s' else (False, s'))"

lemma route_all_append:
  "route_all route (ps @ qs) s =
     (case route_all route ps s of
        (ok, s') \<Rightarrow> if ok then route_all route qs s' else (False, s'))"
  by (induction ps arbitrary: s) (auto split: prod.splits)

lemma route_all_keeps:
  assumes "\<And>p s. I s \<Longrightarrow> I (snd (route p s))"
  shows "I s \<Longrightarrow> I (snd (route_all route ps s))"
proof (induction ps arbitrary: s)
  case (Cons p ps)
  with assms [of s p] show ?case by (auto split: prod.split)
qed simp

subsection \<open>The contract of a routing function\<close>

text \<open>
  An end of a connection supplies the routing function and an invariant of its state that routing
  any well-formed packet keeps (the parser yields no others).  The invariant then holds whatever bytes arrive, in whatever pieces.
\<close>

locale packet_consumer =
  fixes route :: "packet \<Rightarrow> 's \<Rightarrow> bool \<times> 's"
    and inv :: "'s \<Rightarrow> bool"
  assumes route_inv: "wf_packet p \<Longrightarrow> inv s \<Longrightarrow> inv (snd (route p s))"
begin

fun drained_inv :: "'s drained \<Rightarrow> bool" where
  "drained_inv (Rest buf s) = inv s"
| "drained_inv (Refused s) = inv s"
| "drained_inv (Broken e s) = inv s"

lemma route_inv_pair: "wf_packet p \<Longrightarrow> route p s = (ok, s') \<Longrightarrow> inv s \<Longrightarrow> inv s'"
  using route_inv [of p s] by simp

lemma drain_inv: "inv s \<Longrightarrow> drained_inv (drain dec route buf s)"
proof (induction "length buf" arbitrary: buf s rule: less_induct)
  case less
  show ?case
  proof (cases "packet_parse dec buf")
    case (Success p n)
    obtain ok s' where r: "route p s = (ok, s')" by fastforce
    with less.prems packet_parse_wf [OF Success] have s': "inv s'" by (blast dest: route_inv_pair)
    have "length (drop n buf) < length buf"
      using packet_parse_success_bound [OF Success] by simp
    then have "drained_inv (drain dec route (drop n buf) s')"
      using s' by (rule less.hyps)
    with Success r s' less.prems show ?thesis
      by (subst drain.simps) simp
  qed (use less.prems in \<open>subst drain.simps, simp add: packet_parse_no_drop\<close>)+
qed

lemma read_loop_inv: "inv s \<Longrightarrow> inv (end_state (read_loop dec route buf s chunks))"
proof (induction chunks arbitrary: buf s)
  case (Cons chunk chunks)
  then show ?case
    using drain_inv [OF Cons.prems, of dec "buf @ chunk"]
    by (auto split: drained.splits)
qed simp

end

subsection \<open>Segmentation of the stream\<close>

definition stream_bytes :: "(json \<Rightarrow> bytes) \<Rightarrow> packet list \<Rightarrow> bytes" where
  "stream_bytes enc ps = concat (map (packet_bytes enc) ps)"

lemma stream_bytes_simps [simp]:
  "stream_bytes enc [] = []"
  "stream_bytes enc (p # ps) = packet_bytes enc p @ stream_bytes enc ps"
  "stream_bytes enc (ps @ qs) = stream_bytes enc ps @ stream_bytes enc qs"
  by (simp_all add: stream_bytes_def)

lemma drain_Success:
  assumes "packet_parse dec buf = Success p n"
  shows "drain dec route buf s =
     (case route p s of
        (ok, s') \<Rightarrow> if ok then drain dec route (drop n buf) s' else Refused s')"
  using assms by (subst drain.simps) auto

lemma drain_waits:
  assumes "packet_parse dec buf = TooShort \<or> packet_parse dec buf = NeedBytes k"
  shows "drain dec route buf s = Rest buf s"
  using assms by (subst drain.simps) auto

text \<open>Whole packets at the front are routed in order, an incomplete one stays in the buffer.\<close>

lemma drain_stream:
  assumes "\<forall>p \<in> set ps. sendable enc dec p" and "sendable enc dec q"
    and "n < length (packet_bytes enc q)"
  shows "drain dec route (stream_bytes enc ps @ take n (packet_bytes enc q)) s =
     (case route_all route ps s of
        (ok, s') \<Rightarrow> if ok then Rest (take n (packet_bytes enc q)) s' else Refused s')"
  using assms(1)
proof (induction ps arbitrary: s)
  case Nil
  show ?case
    using packet_parse_waits [OF assms(2,3)] by (simp add: drain_waits)
next
  case (Cons p ps)
  let ?rest = "stream_bytes enc ps @ take n (packet_bytes enc q)"
  from Cons.prems have "sendable enc dec p" by simp
  then have "packet_parse dec (packet_bytes enc p @ ?rest)
      = Success p (length (packet_bytes enc p))"
    by (rule packet_parse_written)
  note step = drain_Success [OF this, of route s]
  obtain ok s' where "route p s = (ok, s')" by fastforce
  with Cons.IH [of s'] Cons.prems show ?case
    by (simp add: step)
qed

lemma stream_prefix:
  assumes "prefix buf (stream_bytes enc ps @ take n (packet_bytes enc q))"
    and "n < length (packet_bytes enc q)"
  shows "\<exists>ps1 ps2 m. ps = ps1 @ ps2 \<and> m < length (packet_bytes enc (hd (ps2 @ [q])))
     \<and> buf = stream_bytes enc ps1 @ take m (packet_bytes enc (hd (ps2 @ [q])))"
  using assms(1)
proof (induction ps arbitrary: buf)
  case Nil
  then have "prefix buf (packet_bytes enc q)"
    using prefix_order.trans take_is_prefix by fastforce
  then have "buf = take (length buf) (packet_bytes enc q)"
    by (metis prefix_def append_eq_conv_conj)
  moreover have "length buf \<le> n"
    using Nil prefix_length_le by fastforce
  ultimately show ?case
    using assms(2) by (intro exI [of _ "[]"] exI [of _ "length buf"]) auto
next
  case (Cons p ps)
  show ?case
  proof (cases "length buf < length (packet_bytes enc p)")
    case True
    with Cons.prems have "buf = take (length buf) (packet_bytes enc p)"
      by (auto simp: prefix_def append_eq_append_conv_if)
    with True show ?thesis
      by (intro exI [of _ "[]"] exI [of _ "p # ps"] exI [of _ "length buf"]) auto
  next
    case False
    let ?rest = "stream_bytes enc ps @ take n (packet_bytes enc q)"
    have "prefix buf (packet_bytes enc p @ ?rest)"
      using Cons.prems by simp
    then have "prefix buf (packet_bytes enc p)
        \<or> (\<exists>us. buf = packet_bytes enc p @ us \<and> prefix us ?rest)"
      unfolding prefix_append .
    then obtain buf' where buf': "buf = packet_bytes enc p @ buf'" and "prefix buf' ?rest"
      using False by (fastforce simp: prefix_def)
    with Cons.IH [of buf'] obtain ps1 ps2 m where "ps = ps1 @ ps2"
      and "m < length (packet_bytes enc (hd (ps2 @ [q])))"
      and "buf' = stream_bytes enc ps1 @ take m (packet_bytes enc (hd (ps2 @ [q])))"
      by blast
    with buf' show ?thesis
      by (intro exI [of _ "p # ps1"] exI [of _ ps2] exI [of _ m]) auto
  qed
qed

text \<open>
  The longest packet, framing included, that can always be received: one byte of it missing plus a
  full read stays within the cap.
\<close>

definition MAX_SAFE_PACKET :: nat where
  "MAX_SAFE_PACKET = MAX_PACKET_SIZE + 100 - READ_SIZE + 1"

definition receivable :: "(json \<Rightarrow> bytes) \<Rightarrow> (bytes \<Rightarrow> json option) \<Rightarrow> packet \<Rightarrow> bool" where
  "receivable enc dec p \<longleftrightarrow>
     sendable enc dec p \<and> length (packet_bytes enc p) \<le> MAX_SAFE_PACKET"

lemma read_loop_segments:
  assumes "buf @ concat chunks = stream_bytes enc ps @ take n (packet_bytes enc q)"
    and "\<forall>p \<in> set (ps @ [q]). receivable enc dec p" and "n < length (packet_bytes enc q)"
    and "length buf < length (packet_bytes enc (hd (ps @ [q])))"
    and "\<forall>c \<in> set chunks. length c \<le> READ_SIZE"
  shows "read_loop dec route buf s chunks =
     (case route_all route ps s of (ok, s') \<Rightarrow> if ok then ReadEnd s' else Closed s')"
  using assms
proof (induction chunks arbitrary: buf ps s)
  case Nil
  then show ?case by (cases ps) auto
next
  case (Cons c cs)
  have "prefix (buf @ c) (stream_bytes enc ps @ take n (packet_bytes enc q))"
    using Cons.prems(1) by (metis concat.simps(2) append_assoc prefixI)
  from stream_prefix [OF this Cons.prems(3)] obtain ps1 ps2 m where ps: "ps = ps1 @ ps2"
    and m: "m < length (packet_bytes enc (hd (ps2 @ [q])))"
    and buf: "buf @ c = stream_bytes enc ps1 @ take m (packet_bytes enc (hd (ps2 @ [q])))"
    by blast
  let ?r = "hd (ps2 @ [q])"
  have r: "?r \<in> set (ps @ [q])" using ps by (cases ps2) auto
  have "hd (ps @ [q]) \<in> set (ps @ [q])" by (cases ps) auto
  with Cons.prems(2) have "receivable enc dec (hd (ps @ [q]))" by blast
  moreover have "length c \<le> READ_SIZE" using Cons.prems(5) by simp
  ultimately have cap: "length (buf @ c) \<le> MAX_PACKET_SIZE + 100"
    using Cons.prems(4)
    by (simp add: receivable_def MAX_SAFE_PACKET_def READ_SIZE_def MAX_PACKET_SIZE_def)
  have "drain dec route (buf @ c) s =
     (case route_all route ps1 s of
        (ok, s') \<Rightarrow> if ok then Rest (take m (packet_bytes enc ?r)) s' else Refused s')"
    unfolding buf using ps r Cons.prems(2) m by (intro drain_stream) (auto simp: receivable_def)
  moreover have "read_loop dec route (take m (packet_bytes enc ?r)) s' cs =
     (case route_all route ps2 s' of (ok, s') \<Rightarrow> if ok then ReadEnd s' else Closed s')" for s'
  proof (rule Cons.IH)
    have "stream_bytes enc ps1 @ take m (packet_bytes enc ?r) @ concat cs
        = stream_bytes enc ps1 @ stream_bytes enc ps2 @ take n (packet_bytes enc q)"
      using Cons.prems(1) buf ps by (metis append_assoc concat.simps(2) stream_bytes_simps(3))
    then show "take m (packet_bytes enc ?r) @ concat cs
        = stream_bytes enc ps2 @ take n (packet_bytes enc q)" by simp
  qed (use Cons.prems ps m in auto)
  ultimately show ?case
    using cap ps by (auto simp: route_all_append split: prod.splits)
qed


text \<open>A short packet without header, for use as the end marker of a stream.\<close>

lemma sendable_plain:
  assumes "p_header p = None" and "p_type p \<noteq> Header" and "length (p_body p) \<le> MAX_PACKET_SIZE"
  shows "sendable enc dec p"
  using assms by (simp add: sendable_def wf_packet_def codec_ok_def body_buf_def)

lemma receivable_plain:
  assumes "p_header p = None" and "p_type p \<noteq> Header" and "length (p_body p) \<le> 1000"
  shows "receivable enc dec p"
proof -
  have "sendable enc dec p"
    using assms by (intro sendable_plain) (simp_all add: MAX_PACKET_SIZE_def)
  moreover have "length (header_line enc p) \<le> 34"
    using assms by (intro length_header_line) (simp add: body_buf_def MAX_PACKET_SIZE_def)
  ultimately show ?thesis
    using assms(1,3)
    by (simp add: receivable_def length_packet_bytes body_buf_def MAX_SAFE_PACKET_def
        MAX_PACKET_SIZE_def READ_SIZE_def)
qed

definition ping_packet :: packet where
  "ping_packet = \<lparr>p_type = Ping, p_msg_no = 0, p_header = None, p_body = []\<rparr>"

lemma receivable_ping: "receivable enc dec ping_packet"
  by (intro receivable_plain) (simp_all add: ping_packet_def)

lemma read_loop_stream:
  assumes "concat chunks = stream_bytes enc ps"
    and "\<forall>p \<in> set ps. receivable enc dec p"
    and "\<forall>c \<in> set chunks. length c \<le> READ_SIZE"
  shows "read_loop dec route [] s chunks =
     (case route_all route ps s of (ok, s') \<Rightarrow> if ok then ReadEnd s' else Closed s')"
  using assms receivable_ping
  by (intro read_loop_segments [where q = ping_packet and n = 0 and enc = enc]) (cases ps; auto)+

text \<open>
  C11: The way the byte stream is cut into reads does not matter.  If every packet fits (its bytes plus
  framing at most \<open>MAX_SAFE_PACKET\<close>) and no read brings more than 4096 bytes, then for every
  segmentation the loop routes exactly the packets of the stream, in order, and stops early only
  where routing closes the connection.
\<close>

theorem read_loop_segmentation:
  assumes "concat chunks = stream_bytes enc ps"
    and "\<forall>p \<in> set ps. receivable enc dec p"
    and "\<forall>c \<in> set chunks. length c \<le> READ_SIZE"
  shows "read_loop dec route [] s chunks =
     (case route_all route ps s of (ok, s') \<Rightarrow> if ok then ReadEnd s' else Closed s')"
  using assms by (rule read_loop_stream)

text \<open>A packet still arriving only fills the buffer.\<close>

lemma read_loop_arriving:
  assumes "buf @ concat cs = take n (packet_bytes enc p)" and "n < length (packet_bytes enc p)"
    and "sendable enc dec p" and "n \<le> MAX_PACKET_SIZE + 100"
  shows "read_loop dec route buf s (cs @ ds) = read_loop dec route (take n (packet_bytes enc p)) s ds"
  using assms(1)
proof (induction cs arbitrary: buf)
  case (Cons c cs)
  let ?m = "length (buf @ c)"
  have len: "?m \<le> n"
    using arg_cong [OF Cons.prems, of length] assms(2) by simp
  have "prefix (buf @ c) (take n (packet_bytes enc p))"
    using Cons.prems by (metis append_assoc concat.simps(2) prefixI)
  then have eq: "buf @ c = take ?m (packet_bytes enc p)"
    using len by (metis append_eq_conv_conj min.absorb1 prefix_def take_take)
  have "drain dec route (buf @ c) s = Rest (buf @ c) s"
    using packet_parse_waits [OF assms(3), of ?m] len assms(2) eq
    by (intro drain_waits) auto
  moreover have "read_loop dec route (buf @ c) s (cs @ ds)
      = read_loop dec route (take n (packet_bytes enc p)) s ds"
    using Cons.prems by (intro Cons.IH) simp
  ultimately show ?case
    using len assms(4) by simp
qed simp

definition fill_packet :: "nat \<Rightarrow> packet" where
  "fill_packet n =
     \<lparr>p_type = Data, p_msg_no = 0, p_header = None, p_body = replicate n CHR ''x''\<rparr>"

lemma sendable_fill: "n \<le> MAX_PACKET_SIZE \<Longrightarrow> sendable enc dec (fill_packet n)"
  by (intro sendable_plain) (simp_all add: fill_packet_def)

lemma length_fill: "length (packet_bytes enc (fill_packet n)) \<ge> n + 7"
  by (simp add: length_packet_bytes body_buf_def fill_packet_def)

text \<open>Reads as the loop makes them: not empty, and at most \<open>READ_SIZE\<close> bytes.\<close>

definition short_reads :: "bytes list \<Rightarrow> bool" where
  "short_reads chunks \<longleftrightarrow> (\<forall>c \<in> set chunks. c \<noteq> [] \<and> length c \<le> READ_SIZE)"

text \<open>
  The bound is needed: the buffer cap can close a connection whose peer sends only valid packets.
  A DATA packet of the maximal size that has arrived but for its last byte, followed by a full read
  that also brings the start of the next packet, exceeds the cap although every packet is within
  \<open>MAX_PACKET_SIZE\<close>.
\<close>

theorem read_loop_rejects_valid_stream:
  "\<exists>p q chunks. sendable enc dec p \<and> sendable enc dec q
     \<and> concat chunks = stream_bytes enc [p, q]
     \<and> short_reads chunks
     \<and> read_loop dec route [] s chunks = Overflow s"
proof -
  let ?p = "fill_packet MAX_PACKET_SIZE" and ?q = "fill_packet READ_SIZE"
  let ?pb = "packet_bytes enc ?p" and ?qb = "packet_bytes enc ?q"
  let ?n = "length ?pb - 1"
  let ?one = "map (\<lambda>x. [x])"
  define last_read where "last_read = drop ?n ?pb @ take (READ_SIZE - 1) ?qb"
  define chunks where
    "chunks = ?one (take ?n ?pb) @ last_read # ?one (drop (READ_SIZE - 1) ?qb)"
  have p: "sendable enc dec ?p" by (rule sendable_fill) simp
  have q: "sendable enc dec ?q"
    by (rule sendable_fill) (simp add: READ_SIZE_def MAX_PACKET_SIZE_def)
  have lp: "MAX_PACKET_SIZE + 7 \<le> length ?pb" and lq: "READ_SIZE + 7 \<le> length ?qb"
    by (rule length_fill)+
  have "length (header_line enc ?p) \<le> 34"
    using p by (intro length_header_line) (simp add: sendable_def)
  then have n: "?n \<le> MAX_PACKET_SIZE + 100"
    by (simp add: length_packet_bytes body_buf_def fill_packet_def)
  have last_read: "length last_read = READ_SIZE"
    using lp lq by (simp add: last_read_def READ_SIZE_def)
  have split: "concat (?one xs) = xs" for xs :: bytes by (induction xs) auto
  have "read_loop dec route [] s chunks
      = read_loop dec route (take ?n ?pb) s (last_read # ?one (drop (READ_SIZE - 1) ?qb))"
    unfolding chunks_def using p n lp split by (intro read_loop_arriving) auto
  also have "\<dots> = Overflow s"
    using last_read lp by (simp add: READ_SIZE_def)
  finally have "read_loop dec route [] s chunks = Overflow s" .
  moreover have "concat chunks = stream_bytes enc [?p, ?q]"
    by (simp add: chunks_def split last_read_def)
  moreover have "short_reads chunks"
    using last_read by (auto simp: short_reads_def chunks_def READ_SIZE_def)
  ultimately show ?thesis using p q by blast
qed

text \<open>Witness: a ping that arrives in two reads is routed once.\<close>

lemma read_loop_segmentation_witness:
  "read_loop (\<lambda>b. None) (\<lambda>p n. (True, Suc n)) []
     (0::nat) [take 5 (packet_bytes (\<lambda>v. []) ping_packet), drop 5 (packet_bytes (\<lambda>v. []) ping_packet)]
   = ReadEnd 1"
proof -
  let ?b = "packet_bytes (\<lambda>v. []) ping_packet"
  have "length (header_line (\<lambda>v. []) ping_packet) \<le> 34"
    by (rule length_header_line) (simp add: ping_packet_def body_buf_def)
  then have "length ?b \<le> READ_SIZE"
    by (simp add: length_packet_bytes READ_SIZE_def ping_packet_def body_buf_def)
  then have "\<forall>c \<in> set [take 5 ?b, drop 5 ?b]. length c \<le> READ_SIZE" by (auto simp: min_def)
  moreover have "concat [take 5 ?b, drop 5 ?b] = stream_bytes (\<lambda>v. []) [ping_packet]" by simp
  moreover have "\<forall>p \<in> set [ping_packet]. receivable (\<lambda>v. []) (\<lambda>b. None) p"
    using receivable_ping by simp
  ultimately show ?thesis
    using read_loop_segmentation [of "[take 5 ?b, drop 5 ?b]" "\<lambda>v. []" "[ping_packet]" "\<lambda>b. None"
        "\<lambda>p n. (True, Suc n)" 0]
    by (simp del: read_loop.simps)
qed

end
