(* ===== verification/Message.thy ===== *)
theory Message
  imports Wire_Stream
begin

text \<open>
  Messages as sequences of packets: HEADER, DATA packets of at most \<open>DATA_CHUNK_SIZE\<close> bytes, EOF.
  \<open>message_packets\<close> is the reference for what both ends send (\<open>send_request\<close> on the client,
  \<open>send_reply\<close> on the server), and \<open>asm_step\<close> the abstract specification of how both ends put
  arriving packets together again.  The locale \<open>assembler\<close> is the contract that a routing function
  refines that specification; \<open>Server_Connection\<close> and \<open>Client_Reader\<close> interpret it.
\<close>

subsection \<open>Cutting a body into chunks\<close>

function chunks_of :: "nat \<Rightarrow> 'a list \<Rightarrow> 'a list list" where
  "chunks_of n xs = (if xs = [] \<or> n = 0 then [] else take n xs # chunks_of n (drop n xs))"
  by pat_completeness auto
termination
  by (relation "measure (\<lambda>(n, xs). length xs)") auto

declare chunks_of.simps [simp del]

lemma chunks_of_Nil [simp]: "chunks_of n [] = []"
  by (simp add: chunks_of.simps)

lemma chunks_of_step:
  "xs \<noteq> [] \<Longrightarrow> 0 < n \<Longrightarrow> chunks_of n xs = take n xs # chunks_of n (drop n xs)"
  by (subst chunks_of.simps) simp

lemma concat_chunks_of [simp]: "0 < n \<Longrightarrow> concat (chunks_of n xs) = xs"
proof (induction n xs rule: chunks_of.induct)
  case (1 n xs)
  then show ?case
    by (cases "xs = []") (simp_all add: chunks_of_step)
qed

lemma chunks_of_bounds: "c \<in> set (chunks_of n xs) \<Longrightarrow> c \<noteq> [] \<and> length c \<le> n"
proof (induction n xs rule: chunks_of.induct)
  case (1 n xs)
  then show ?case
    by (cases "xs = [] \<or> n = 0") (auto simp: chunks_of.simps [of n xs])
qed

subsection \<open>The packets of a message\<close>

definition header_packet :: "u64 \<Rightarrow> packet_header \<Rightarrow> packet" where
  "header_packet no h = \<lparr>p_type = Header, p_msg_no = no, p_header = Some h, p_body = []\<rparr>"

definition data_packet :: "u64 \<Rightarrow> bytes \<Rightarrow> packet" where
  "data_packet no b = \<lparr>p_type = Data, p_msg_no = no, p_header = None, p_body = b\<rparr>"

definition eof_packet :: "u64 \<Rightarrow> packet" where
  "eof_packet no = \<lparr>p_type = Eof, p_msg_no = no, p_header = None, p_body = []\<rparr>"

definition ack_packet :: "u64 \<Rightarrow> nat \<Rightarrow> packet" where
  "ack_packet no n = \<lparr>p_type = Ack, p_msg_no = no, p_header = None, p_body = dec_of_nat n\<rparr>"

definition pong_packet :: "u64 \<Rightarrow> packet" where
  "pong_packet no = \<lparr>p_type = Pong, p_msg_no = no, p_header = None, p_body = []\<rparr>"

definition data_packets :: "u64 \<Rightarrow> bytes \<Rightarrow> packet list" where
  "data_packets no body = map (data_packet no) (chunks_of DATA_CHUNK_SIZE body)"

definition message_packets :: "u64 \<Rightarrow> packet_header \<Rightarrow> bytes \<Rightarrow> packet list" where
  "message_packets no h body = header_packet no h # data_packets no body @ [eof_packet no]"

lemmas packet_defs = header_packet_def data_packet_def eof_packet_def ack_packet_def pong_packet_def

lemma packet_fields [simp]:
  "p_type (header_packet no h) = Header" "p_msg_no (header_packet no h) = no"
  "p_header (header_packet no h) = Some h" "p_body (header_packet no h) = []"
  "p_type (data_packet no b) = Data" "p_msg_no (data_packet no b) = no"
  "p_header (data_packet no b) = None" "p_body (data_packet no b) = b"
  "p_type (eof_packet no) = Eof" "p_msg_no (eof_packet no) = no"
  "p_header (eof_packet no) = None" "p_body (eof_packet no) = []"
  "p_type (ack_packet no n) = Ack" "p_msg_no (ack_packet no n) = no"
  "p_header (ack_packet no n) = None" "p_body (ack_packet no n) = dec_of_nat n"
  "p_type (pong_packet no) = Pong" "p_msg_no (pong_packet no) = no"
  "p_header (pong_packet no) = None" "p_body (pong_packet no) = []"
  by (simp_all add: packet_defs)

lemma data_packets_Nil [simp]: "data_packets no [] = []"
  by (simp add: data_packets_def)

lemma data_packets_step:
  "body \<noteq> [] \<Longrightarrow> data_packets no body =
     data_packet no (take DATA_CHUNK_SIZE body) # data_packets no (drop DATA_CHUNK_SIZE body)"
  by (simp add: data_packets_def chunks_of_step DATA_CHUNK_SIZE_def)

text \<open>The packets of messages, as opposed to the answers ACK and PONG.\<close>

definition is_message_packet :: "packet \<Rightarrow> bool" where
  "is_message_packet p \<longleftrightarrow> p_type p \<noteq> Ack \<and> p_type p \<noteq> Pong"

fun numbered_messages :: "u64 \<Rightarrow> (packet_header \<times> bytes) list \<Rightarrow> packet list" where
  "numbered_messages n [] = []"
| "numbered_messages n ((h, b) # ms) = message_packets n h b @ numbered_messages (n + 1) ms"

lemma numbered_messages_append:
  "numbered_messages n (ms @ ms') =
     numbered_messages n ms @ numbered_messages (n + of_nat (length ms)) ms'"
  by (induction n ms rule: numbered_messages.induct) (auto simp: add.assoc)

lemma message_packets_own [simp]:
  "filter is_message_packet (message_packets no h b) = message_packets no h b"
  by (rule filter_True)
    (auto simp: message_packets_def data_packets_def is_message_packet_def packet_defs)

text \<open>A body cut at a chunk boundary.\<close>

lemma chunks_of_split:
  assumes "n dvd k" and "k \<le> length xs"
  shows "chunks_of n xs = chunks_of n (take k xs) @ chunks_of n (drop k xs)"
proof (cases "n = 0")
  case False
  from assms(1) obtain m where "k = n * m" by blast
  with assms(2) show ?thesis
  proof (induction m arbitrary: xs k)
    case (Suc m)
    then have n: "n \<le> length xs" and k: "k = n + n * m" by auto
    show ?case
    proof (cases "xs = []")
      case xs: False
      have "chunks_of n (drop n xs) = chunks_of n (take (n * m) (drop n xs)) @ chunks_of n (drop (n * m) (drop n xs))"
        using Suc.prems k by (intro Suc.IH) auto
      moreover have "take k xs \<noteq> []" using xs False k by simp
      then have "chunks_of n (take k xs) = take n xs # chunks_of n (take (n * m) (drop n xs))"
        using False k by (subst chunks_of_step) (simp_all add: drop_take min_def)
      ultimately show ?thesis
        using xs False k by (simp add: chunks_of_step [of xs] add.commute)
    qed simp
  qed simp
qed (simp add: chunks_of.simps)

lemma data_packets_split:
  assumes "DATA_CHUNK_SIZE dvd k" and "k \<le> length body"
  shows "data_packets no body = data_packets no (take k body) @ data_packets no (drop k body)"
  using chunks_of_split [OF assms] by (simp add: data_packets_def)

lemma data_packets_short:
  assumes "b \<noteq> []" and "length b \<le> DATA_CHUNK_SIZE"
  shows "data_packets no b = [data_packet no b]"
  using assms by (simp add: data_packets_step)

text \<open>The acknowledgements sent for a sequence of non-empty DATA bodies, \<open>n\<close> bytes in.\<close>

fun acks_for :: "u64 \<Rightarrow> nat \<Rightarrow> bytes list \<Rightarrow> packet list" where
  "acks_for no n [] = []"
| "acks_for no n (b # bs) = ack_packet no (n + length b) # acks_for no (n + length b) bs"

text \<open>Every packet of a message fits the receivers' limits, provided the header text does.\<close>

definition header_fits :: "(json \<Rightarrow> bytes) \<Rightarrow> (bytes \<Rightarrow> json option) \<Rightarrow> packet_header \<Rightarrow> bool" where
  "header_fits enc dec h \<longleftrightarrow>
     canonical_header h \<and> dec (enc (json_of_header h)) = Some (json_of_header h)
     \<and> length (enc (json_of_header h)) \<le> 100000"

lemma receivable_data:
  assumes "length b \<le> DATA_CHUNK_SIZE"
  shows "receivable enc dec (data_packet no b)"
proof -
  have "length (header_line enc (data_packet no b)) \<le> 34"
    using assms by (intro length_header_line)
      (simp add: body_buf_def MAX_PACKET_SIZE_def DATA_CHUNK_SIZE_def)
  moreover have "sendable enc dec (data_packet no b)"
    using assms by (intro sendable_plain) (simp_all add: MAX_PACKET_SIZE_def DATA_CHUNK_SIZE_def)
  ultimately show ?thesis
    using assms
    by (simp add: receivable_def length_packet_bytes body_buf_def MAX_SAFE_PACKET_def
        MAX_PACKET_SIZE_def READ_SIZE_def DATA_CHUNK_SIZE_def)
qed

lemma receivable_header:
  assumes "header_fits enc dec h"
  shows "receivable enc dec (header_packet no h)"
proof -
  have "length (header_line enc (header_packet no h)) \<le> 34"
    using assms by (intro length_header_line)
      (simp add: body_buf_def MAX_PACKET_SIZE_def header_fits_def)
  then show ?thesis
    using assms
    by (simp add: receivable_def sendable_def wf_packet_def codec_ok_def header_fits_def
        length_packet_bytes body_buf_def MAX_SAFE_PACKET_def MAX_PACKET_SIZE_def READ_SIZE_def)
qed

lemma message_receivable:
  assumes "header_fits enc dec h"
  shows "\<forall>p \<in> set (message_packets no h body). receivable enc dec p"
proof -
  have "receivable enc dec (eof_packet no)"
    by (intro receivable_plain) simp_all
  moreover have "\<forall>p \<in> set (data_packets no body). receivable enc dec p"
    using receivable_data chunks_of_bounds by (fastforce simp: data_packets_def)
  ultimately show ?thesis
    using receivable_header [OF assms] by (auto simp: message_packets_def)
qed

lemma acks_receivable:
  assumes "n + length (concat bs) \<le> u64_max"
  shows "\<forall>p \<in> set (acks_for no n bs). receivable enc dec p"
  using assms
proof (induction no n bs rule: acks_for.induct)
  case (2 no n b bs)
  have "n + length b < 10 ^ 20"
    using "2.prems" by (simp add: u64_max_def)
  then have "length (dec_of_nat (n + length b)) \<le> 20"
    by (rule length_dec_of_nat) simp
  then have "receivable enc dec (ack_packet no (n + length b))"
    by (intro receivable_plain) simp_all
  moreover have "\<forall>p \<in> set (acks_for no (n + length b) bs). receivable enc dec p"
    using "2.prems" by (intro "2.IH") (simp add: add.assoc)
  ultimately show ?case by simp
qed simp

subsection \<open>Abstract assembly of arriving messages\<close>

record assembly =
  asm_next :: u64
  asm_open :: "u64 \<rightharpoonup> packet_header \<times> bytes"

definition asm_init :: assembly where
  "asm_init = \<lparr>asm_next = 0, asm_open = Map.empty\<rparr>"

text \<open>A TXERR body is valid when its text is neither empty nor \<open>0\<close>.\<close>

definition txerr_valid :: "bytes \<Rightarrow> bool" where
  "txerr_valid b \<longleftrightarrow> utf8_lossy b \<noteq> [] \<and> utf8_lossy b \<noteq> ''0''"

definition asm_step :: "packet \<Rightarrow> assembly \<Rightarrow> assembly" where
  "asm_step p a =
     (let no = p_msg_no p in
      case p_type p of
        Header \<Rightarrow>
          (if no \<noteq> asm_next a then a
           else (case p_header p of
                   None \<Rightarrow> a\<lparr>asm_next := asm_next a + 1\<rparr>
                 | Some h \<Rightarrow> a\<lparr>asm_next := asm_next a + 1,
                               asm_open := (asm_open a)(no \<mapsto> (h, []))\<rparr>))
      | Data \<Rightarrow>
          (case asm_open a no of
             None \<Rightarrow> a
           | Some (h, b) \<Rightarrow> a\<lparr>asm_open := (asm_open a)(no \<mapsto> (h, b @ p_body p))\<rparr>)
      | Eof \<Rightarrow>
          (if p_body p \<noteq> [] then a else a\<lparr>asm_open := (asm_open a)(no := None)\<rparr>)
      | Txerr \<Rightarrow>
          (if txerr_valid (p_body p) then a\<lparr>asm_open := (asm_open a)(no := None)\<rparr> else a)
      | _ \<Rightarrow> a)"

fun asm_run :: "packet list \<Rightarrow> assembly \<Rightarrow> assembly" where
  "asm_run [] a = a"
| "asm_run (p # ps) a = asm_run ps (asm_step p a)"

text \<open>The HEADER packets of a sequence carry the consecutive numbers from \<open>n\<close> on.\<close>

fun in_sequence :: "u64 \<Rightarrow> packet list \<Rightarrow> bool" where
  "in_sequence n [] = True"
| "in_sequence n (p # ps) =
     (if p_type p = Header then p_msg_no p = n \<and> p_header p \<noteq> None \<and> in_sequence (n + 1) ps
      else in_sequence n ps)"

text \<open>What one message alone contributes, the sequence numbers put aside.\<close>

fun msg_step :: "packet \<Rightarrow> (packet_header \<times> bytes) option \<Rightarrow> (packet_header \<times> bytes) option" where
  "msg_step p m =
     (case p_type p of
        Header \<Rightarrow> map_option (\<lambda>h. (h, [])) (p_header p)
      | Data \<Rightarrow> map_option (\<lambda>(h, b). (h, b @ p_body p)) m
      | Eof \<Rightarrow> if p_body p \<noteq> [] then m else None
      | Txerr \<Rightarrow> if txerr_valid (p_body p) then None else m
      | _ \<Rightarrow> m)"

definition of_message :: "u64 \<Rightarrow> packet list \<Rightarrow> packet list" where
  "of_message n ps = filter (\<lambda>p. p_msg_no p = n) ps"

lemma asm_step_other [simp]:
  "p_msg_no p \<noteq> n \<Longrightarrow> asm_open (asm_step p a) n = asm_open a n"
  by (auto simp: asm_step_def Let_def split: packet_type.splits option.splits)

lemma asm_step_own:
  assumes "p_type p = Header \<longrightarrow> p_msg_no p = asm_next a \<and> p_header p \<noteq> None"
  shows "asm_open (asm_step p a) (p_msg_no p) = msg_step p (asm_open a (p_msg_no p))"
  using assms by (auto simp: asm_step_def Let_def split: packet_type.splits option.splits)

lemma asm_step_next:
  assumes "p_type p = Header \<longrightarrow> p_msg_no p = asm_next a"
  shows "asm_next (asm_step p a) = (if p_type p = Header then asm_next a + 1 else asm_next a)"
  using assms by (auto simp: asm_step_def Let_def split: packet_type.splits option.splits)

text \<open>
  The messages of an interleaved sequence do not disturb one another: what is open under a number
  depends only on the packets with that number.
\<close>

lemma asm_run_of_message:
  assumes "in_sequence (asm_next a) ps"
  shows "asm_open (asm_run ps a) n = fold msg_step (of_message n ps) (asm_open a n)"
  using assms
proof (induction ps arbitrary: a)
  case Nil
  then show ?case by (simp add: of_message_def)
next
  case (Cons p ps)
  have seq: "p_type p = Header \<longrightarrow> p_msg_no p = asm_next a \<and> p_header p \<noteq> None"
    using Cons.prems by auto
  then have "in_sequence (asm_next (asm_step p a)) ps"
    using Cons.prems by (auto simp: asm_step_next split: if_splits)
  note IH = Cons.IH [OF this]
  show ?case
  proof (cases "p_msg_no p = n")
    case True
    with IH asm_step_own [OF seq] show ?thesis
      by (simp add: of_message_def del: msg_step.simps)
  next
    case False
    with IH show ?thesis
      by (simp add: of_message_def del: msg_step.simps)
  qed
qed

lemma fold_msg_step_data:
  "fold msg_step (map (data_packet n) bs) (Some (h, b)) = Some (h, b @ concat bs)"
  by (induction bs arbitrary: b) auto

lemma asm_run_open_message:
  assumes "in_sequence (asm_next a) ps"
    and "of_message n ps = header_packet n h # map (data_packet n) bs"
  shows "asm_open (asm_run ps a) n = Some (h, concat bs)"
  using asm_run_of_message [OF assms(1), of n] by (simp add: assms(2) fold_msg_step_data)

text \<open>The contract of an end of a connection: its routing function refines the assembly.\<close>

locale assembler =
  fixes route :: "packet \<Rightarrow> 's \<Rightarrow> bool \<times> 's"
    and abs :: "'s \<Rightarrow> assembly"
  assumes route_abs: "abs (snd (route p s)) = asm_step p (abs s)"
begin

lemma route_all_abs:
  assumes "route_all route ps s = (True, s')"
  shows "abs s' = asm_run ps (abs s)"
  using assms
proof (induction ps arbitrary: s)
  case (Cons p ps)
  then obtain s1 where r: "route p s = (True, s1)" and "route_all route ps s1 = (True, s')"
    by (auto split: prod.splits if_splits)
  then show ?case
    using Cons.IH [of s1] route_abs [of p s] by simp
qed simp

lemma assembled:
  assumes "route_all route ps s = (True, s')" and "in_sequence (asm_next (abs s)) ps"
    and "of_message n ps = header_packet n h # map (data_packet n) bs"
  shows "asm_open (abs s') n = Some (h, concat bs)"
  using route_all_abs [OF assms(1)] asm_run_open_message [OF assms(2,3)] by simp

end

text \<open>The number of chunks.\<close>

lemma length_chunks_of: "0 < n \<Longrightarrow> length (chunks_of n xs) \<le> Suc (length xs div n)"
proof (induction n xs rule: chunks_of.induct)
  case (1 n xs)
  show ?case
  proof (cases "n \<le> length xs")
    case True
    with 1 have "length (chunks_of n (drop n xs)) \<le> Suc ((length xs - n) div n)" by (cases "xs = []") auto
    moreover have "length xs div n = Suc ((length xs - n) div n)" using True 1(2) by (simp add: le_div_geq)
    ultimately show ?thesis using 1(2) by (cases "xs = []") (simp_all add: chunks_of_step)
  next
    case False
    then show ?thesis using 1(2) by (cases "xs = []") (simp_all add: chunks_of_step)
  qed
qed

end
