(* ===== verification/Message_Trace.thy ===== *)
theory Message_Trace
  imports Message
begin

text \<open>
  The messages an end completes: what \<open>asm_step\<close> of \<open>Message\<close> does over a whole stream of packets.
  \<open>completed\<close> lists the messages that an EOF has ended, in that order.

  The lemmas show what completes when the packets of one number are those of one message (the view of
  the service, whose peer interleaves its requests) and when whole messages come one after the other
  (the view of the client, whose peer writes its replies in turn).
\<close>

subsection \<open>The messages an end completes\<close>

fun completes :: "assembly \<Rightarrow> packet \<Rightarrow> (u64 \<times> packet_header \<times> bytes) list" where
  "completes a p =
     (if p_type p = Eof \<and> p_body p = [] then
        (case asm_open a (p_msg_no p) of Some (h, b) \<Rightarrow> [(p_msg_no p, h, b)] | None \<Rightarrow> [])
      else [])"

fun completed :: "assembly \<Rightarrow> packet list \<Rightarrow> (u64 \<times> packet_header \<times> bytes) list" where
  "completed a [] = []"
| "completed a (p # ps) = completes a p @ completed (asm_step p a) ps"

declare completes.simps [simp del]

lemma completes_cases:
  obtains (nothing) "completes a p = []" "\<not> (p_type p = Eof \<and> p_body p = [] \<and> asm_open a (p_msg_no p) \<noteq> None)"
  | (message) h b where "completes a p = [(p_msg_no p, h, b)]" "p_type p = Eof" "p_body p = []"
      "asm_open a (p_msg_no p) = Some (h, b)"
proof (cases "p_type p = Eof \<and> p_body p = []")
  case True
  then show ?thesis
    by (cases "asm_open a (p_msg_no p)") (auto simp: completes.simps intro: that)
qed (auto simp: completes.simps intro: that)

lemma asm_run_append: "asm_run (ps @ qs) a = asm_run qs (asm_run ps a)"
  by (induction ps arbitrary: a) simp_all

lemma completed_append: "completed a (ps @ qs) = completed a ps @ completed (asm_run ps a) qs"
  by (induction ps arbitrary: a) simp_all

lemma completed_snoc: "completed a (ps @ [p]) = completed a ps @ completes (asm_run ps a) p"
  by (simp add: completed_append)

text \<open>ACK and PONG packets leave the assembly alone.\<close>

lemma no_message_step:
  "\<not> is_message_packet p \<Longrightarrow> asm_step p a = a" "\<not> is_message_packet p \<Longrightarrow> completes a p = []"
  by (auto simp: is_message_packet_def asm_step_def completes.simps)

lemma completed_messages:
  "completed a (filter is_message_packet ps) = completed a ps"
  "asm_run (filter is_message_packet ps) a = asm_run ps a"
  by (induction ps arbitrary: a) (simp_all add: no_message_step)

subsection \<open>A message under its own number\<close>

text \<open>The packets of one number are those of one message, up to a point.\<close>

definition single_message :: "u64 \<Rightarrow> packet_header \<Rightarrow> bytes \<Rightarrow> packet list \<Rightarrow> bool" where
  "single_message n h b ps \<longleftrightarrow> prefix (filter is_message_packet (of_message n ps)) (message_packets n h b)"

lemma of_message_snoc: "of_message n (ps @ [p]) = of_message n ps @ (if p_msg_no p = n then [p] else [])"
  by (simp add: of_message_def)

lemma single_message_prefix:
  "single_message n h b (ps @ qs) \<Longrightarrow> single_message n h b ps"
  by (auto simp: single_message_def of_message_def elim: append_prefixD)

lemma message_cut:
  assumes "prefix qs (message_packets n h b)" and "qs \<noteq> []"
  shows "(\<exists>k. qs = header_packet n h # take k (data_packets n b)) \<or> qs = message_packets n h b"
proof -
  obtain rest where rest: "message_packets n h b = qs @ rest" using assms(1) by (auto simp: prefix_def)
  show ?thesis
  proof (cases "rest = []")
    case False
    then have "prefix qs (header_packet n h # data_packets n b)"
      using rest unfolding message_packets_def
      by (metis append_Cons append_butlast_last_id append_eq_append_conv2 butlast_append butlast_snoc prefixI)
    then have "qs = take (length qs) (header_packet n h # data_packets n b)"
      by (metis append_eq_conv_conj prefix_def)
    with assms(2) show ?thesis by (cases "length qs") auto
  qed (use rest in simp)
qed

lemma fold_data_packets:
  "fold msg_step (data_packets n b) (Some (h, [])) = Some (h, b)"
  using fold_msg_step_data [of n "chunks_of DATA_CHUNK_SIZE b" h "[]"]
  by (simp add: data_packets_def DATA_CHUNK_SIZE_def)

text \<open>Such a message, if it is open, is open with what has come of it; if it completes, it is itself.\<close>

lemma single_message_open:
  assumes "single_message n h b ps"
  shows "asm_open (asm_run ps asm_init) n = None
    \<or> asm_open (asm_run ps asm_init) n = fold msg_step (filter is_message_packet (of_message n ps)) None"
  using assms
proof (induction ps rule: rev_induct)
  case (snoc p ps)
  let ?a = "asm_run ps asm_init" and ?qs = "filter is_message_packet (of_message n ps)"
  have ih: "asm_open ?a n = None \<or> asm_open ?a n = fold msg_step ?qs None"
    using snoc.IH single_message_prefix [OF snoc.prems] by blast
  show ?case
  proof (cases "p_msg_no p = n \<and> is_message_packet p")
    case False
    then show ?thesis
      using ih by (cases "p_msg_no p = n") (simp_all add: asm_run_append of_message_snoc no_message_step del: msg_step.simps)
  next
    case True
    then have pre: "prefix (?qs @ [p]) (message_packets n h b)"
      using snoc.prems by (simp add: single_message_def of_message_snoc)
    have step: "asm_open (asm_step p ?a) n = None \<or> asm_open (asm_step p ?a) n = msg_step p (fold msg_step ?qs None)"
    proof (cases "?qs")
      case Nil
      with pre have "p = header_packet n h" by (simp add: message_packets_def)
      with ih Nil show ?thesis by (auto simp: asm_step_def)
    next
      case (Cons q qs)
      with pre have "p \<in> set (data_packets n b @ [eof_packet n])"
        by (auto simp: message_packets_def prefix_def append_eq_Cons_conv dest!: arg_cong [of _ _ set])
      then have p: "p_type p = Data \<or> p_type p = Eof \<and> p_body p = []" by (auto simp: data_packets_def)
      then have "asm_open (asm_step p ?a) n = msg_step p (asm_open ?a n)"
        using asm_step_own [of p ?a] True by auto
      moreover have "msg_step p None = None" using p by auto
      ultimately show ?thesis using ih by metis
    qed
    with True show ?thesis by (simp add: asm_run_append of_message_snoc del: msg_step.simps)
  qed
qed (simp add: asm_init_def)

lemma single_message_completed:
  assumes "single_message n h b ps"
  shows "filter (\<lambda>m. fst m = n) (completed asm_init ps) \<in> {[], [(n, h, b)]}
    \<and> (eof_packet n \<notin> set ps \<longrightarrow> filter (\<lambda>m. fst m = n) (completed asm_init ps) = [])"
  using assms
proof (induction ps rule: rev_induct)
  case (snoc p ps)
  let ?a = "asm_run ps asm_init" and ?qs = "filter is_message_packet (of_message n ps)"
  let ?own = "filter (\<lambda>m. fst m = n)"
  have ih: "?own (completed asm_init ps) \<in> {[], [(n, h, b)]}"
    "eof_packet n \<notin> set ps \<longrightarrow> ?own (completed asm_init ps) = []"
    using snoc.IH [OF single_message_prefix [OF snoc.prems]] by simp_all
  show ?case
  proof (cases "p_msg_no p = n \<and> p_type p = Eof \<and> p_body p = []")
    case False
    then have "?own (completes ?a p) = []" by (cases rule: completes_cases [of ?a p]) auto
    then show ?thesis using ih by (simp add: completed_snoc)
  next
    case True
    then have pre: "prefix (?qs @ [p]) (message_packets n h b)"
      using snoc.prems by (simp add: single_message_def of_message_snoc is_message_packet_def)
    have "?qs @ [p] \<noteq> header_packet n h # take k (data_packets n b)" for k
    proof
      assume "?qs @ [p] = header_packet n h # take k (data_packets n b)"
      then have "p \<in> set (header_packet n h # take k (data_packets n b))"
        by (metis in_set_conv_decomp)
      then have "p_type p \<noteq> Eof" using set_take_subset [of k "data_packets n b"] by (auto simp: data_packets_def)
      with True show False by blast
    qed
    with message_cut [OF pre] have whole: "?qs @ [p] = message_packets n h b" by blast
    then have qs: "?qs = header_packet n h # data_packets n b" "p = eof_packet n"
      by (simp_all add: message_packets_def flip: append_Cons)
    have "eof_packet n \<notin> set ?qs" unfolding qs(1) by (auto simp: data_packets_def packet_defs)
    then have "eof_packet n \<notin> set ps" by (auto simp: of_message_def is_message_packet_def)
    then have none: "?own (completed asm_init ps) = []" using ih(2) by blast
    have "asm_open ?a n = None \<or> asm_open ?a n = Some (h, b)"
      using single_message_open [OF single_message_prefix [OF snoc.prems]]
      unfolding qs(1) by (simp add: fold_data_packets del: msg_step.simps) (simp add: fold_data_packets)
    then show ?thesis using none True qs(2) by (auto simp: completed_snoc completes.simps)
  qed
qed simp

subsection \<open>Whole messages one after the other\<close>

lemma completed_no_eof: "\<forall>p \<in> set ps. p_type p \<noteq> Eof \<Longrightarrow> completed a ps = []"
  by (induction ps arbitrary: a) (simp_all add: completes.simps)

lemma asm_run_data_none:
  "asm_open a = Map.empty \<Longrightarrow> asm_open (asm_run (map (data_packet n) bs) a) = Map.empty"
  by (induction bs arbitrary: a) (simp_all add: asm_step_def)

lemma asm_run_data_one:
  "asm_open a = [n \<mapsto> (h, b)] \<Longrightarrow> asm_open (asm_run (map (data_packet n) bs) a) = [n \<mapsto> (h, b @ concat bs)]"
  by (induction bs arbitrary: a b) (simp_all add: asm_step_def)

lemma message_run:
  assumes "asm_open a = Map.empty"
  shows "asm_open (asm_run (message_packets n h b) a) = Map.empty"
    and "completed a (message_packets n h b) \<in> {[], [(n, h, b)]}"
proof -
  let ?a1 = "asm_step (header_packet n h) a" and ?ds = "data_packets n b"
  let ?a2 = "asm_run ?ds ?a1"
  have open2: "asm_open ?a2 = Map.empty \<or> asm_open ?a2 = [n \<mapsto> (h, b)]"
  proof (cases "n = asm_next a")
    case True
    then have "asm_open ?a1 = [n \<mapsto> (h, [])]" using assms by (simp add: asm_step_def Let_def)
    from asm_run_data_one [OF this, of "chunks_of DATA_CHUNK_SIZE b"] show ?thesis
      by (simp add: data_packets_def DATA_CHUNK_SIZE_def)
  next
    case False
    then have "asm_open ?a1 = Map.empty" using assms by (simp add: asm_step_def)
    then show ?thesis using asm_run_data_none unfolding data_packets_def by blast
  qed
  have run: "asm_run (message_packets n h b) a = asm_step (eof_packet n) ?a2"
    by (simp add: message_packets_def asm_run_append)
  show "asm_open (asm_run (message_packets n h b) a) = Map.empty"
    using open2 unfolding run by (auto simp: asm_step_def)
  have "completed ?a1 ?ds = []" by (rule completed_no_eof) (auto simp: data_packets_def)
  then have "completed a (message_packets n h b) = completes ?a2 (eof_packet n)"
    by (simp add: message_packets_def completed_append completes.simps [of _ "header_packet n h"])
  then show "completed a (message_packets n h b) \<in> {[], [(n, h, b)]}"
    using open2 by (auto simp: completes.simps)
qed

lemma completed_numbered:
  assumes "asm_open a = Map.empty" and "prefix qs (numbered_messages n ms)"
  shows "\<forall>m \<in> set (completed a qs). snd m \<in> set ms"
  using assms
proof (induction n ms arbitrary: a qs rule: numbered_messages.induct)
  case (2 n h b ms)
  have "prefix qs (message_packets n h b)
      \<or> (\<exists>qs'. qs = message_packets n h b @ qs' \<and> prefix qs' (numbered_messages (n + 1) ms))"
    using 2(3) by (auto simp: prefix_append)
  then show ?case
  proof (elim disjE exE conjE)
    assume pre: "prefix qs (message_packets n h b)"
    have "completed a qs \<in> {[], [(n, h, b)]}"
    proof (cases "qs = []")
      case False
      from message_cut [OF pre this] show ?thesis
      proof (elim disjE exE)
        fix k assume "qs = header_packet n h # take k (data_packets n b)"
        moreover have "\<forall>p \<in> set (take k (data_packets n b)). p_type p \<noteq> Eof"
          using set_take_subset [of k "data_packets n b"] by (auto simp: data_packets_def)
        ultimately show ?thesis using completed_no_eof [of qs a] by simp
      qed (use message_run(2) [OF 2(2)] in simp)
    qed simp
    then show ?thesis by auto
  next
    fix qs' assume qs: "qs = message_packets n h b @ qs'" "prefix qs' (numbered_messages (n + 1) ms)"
    have "\<forall>m \<in> set (completed (asm_run (message_packets n h b) a) qs'). snd m \<in> set ms"
      by (rule 2(1) [OF message_run(1) [OF 2(2)] qs(2)])
    moreover have "\<forall>m \<in> set (completed a (message_packets n h b)). snd m = (h, b)"
      using message_run(2) [OF 2(2), of n h b] by auto
    ultimately show ?thesis by (auto simp: qs(1) completed_append)
  qed
qed simp

end
