(* ===== verification/Server_Connection.thy ===== *)
theory Server_Connection
  imports Message
begin

text \<open>
  The service side of a connection: \<open>scamp/src/service/handler.rs\<close> (requests, replies, registered
  actions), \<open>server_reply.rs\<close> (\<open>send_reply\<close>) and \<open>server_connection.rs\<close> (\<open>handle_connection\<close>,
  \<open>route_packet\<close>, \<open>dispatch_and_reply\<close>).

  A connection is served by one task, so its mutable variables form one record that every step
  returns updated.  What the task calls and cannot know (the stream it writes to, the privilege
  check, the handlers) is the record \<open>server_env\<close> of functions; each takes the number of the
  external call, so that no two calls need to behave alike.

  The lemmas show which packets close the connection, that a request is answered by its
  acknowledgements and exactly the packets of its reply, that a request without access never
  reaches a handler, and that the table of outgoing replies is empty whenever a packet is routed.
\<close>

subsection \<open>Requests, replies and actions (handler.rs)\<close>

record scamp_request =
  req_action :: string
  req_version :: i32
  req_envelope :: envelope_format
  req_request_id :: i64
  req_client_id :: i64
  req_ticket :: string
  req_identifying_token :: string
  req_body :: bytes

record scamp_reply =
  rep_body :: bytes
  rep_error :: "string option"
  rep_error_code :: "string option"
  rep_error_data :: "json option"

definition reply_ok :: "bytes \<Rightarrow> scamp_reply" where
  "reply_ok body =
     \<lparr>rep_body = body, rep_error = None, rep_error_code = None, rep_error_data = None\<rparr>"

definition reply_error :: "string \<Rightarrow> string \<Rightarrow> scamp_reply" where
  "reply_error message code =
     \<lparr>rep_body = [], rep_error = Some message, rep_error_code = Some code, rep_error_data = None\<rparr>"

definition reply_error_with_data :: "string \<Rightarrow> string \<Rightarrow> json \<Rightarrow> scamp_reply" where
  "reply_error_with_data message code d =
     \<lparr>rep_body = [], rep_error = Some message, rep_error_code = Some code, rep_error_data = Some d\<rparr>"

type_synonym action_handler = "nat \<Rightarrow> scamp_request \<Rightarrow> scamp_reply"

record registered_action =
  ra_name :: string
  ra_version :: i32
  ra_flags :: "string list"
  ra_handler :: action_handler

record action_info =
  ai_name :: string
  ai_version :: i32
  ai_flags :: "string list"

definition action_info_of :: "registered_action \<Rightarrow> action_info" where
  "action_info_of ra =
     \<lparr>ai_name = ra_name ra, ai_version = ra_version ra, ai_flags = ra_flags ra\<rparr>"

subsection \<open>State of a connection\<close>

record incoming_request =
  in_header :: packet_header
  in_body :: bytes
  in_received :: nat

record outgoing_reply_state =
  or_sent :: nat
  or_acknowledged :: nat

text \<open>
  \<open>env_check\<close> is \<open>AuthzChecker::check_access\<close> on the action and the ticket: the text of the
  error that denies access, or nothing.
\<close>

record server_env =
  env_write :: "nat \<Rightarrow> bool"
  env_actions :: "string \<rightharpoonup> registered_action"
  env_check :: "(nat \<Rightarrow> string \<Rightarrow> string \<Rightarrow> string option) option"

record conn =
  c_incoming :: "u64 \<rightharpoonup> incoming_request"
  c_outgoing :: "u64 \<rightharpoonup> outgoing_reply_state"
  c_next_in :: u64
  c_next_out :: u64
  c_written :: "packet list"
  c_calls :: nat

definition conn_init :: conn where
  "conn_init =
     \<lparr>c_incoming = Map.empty, c_outgoing = Map.empty, c_next_in = 0, c_next_out = 0,
      c_written = [], c_calls = 0\<rparr>"

text \<open>\<open>Packet::write\<close> on the connection's stream: the packet goes out whole, or an error.\<close>

definition conn_write :: "server_env \<Rightarrow> packet \<Rightarrow> conn \<Rightarrow> bool \<times> conn" where
  "conn_write env p c =
     (if env_write env (c_calls c)
      then (True, c\<lparr>c_written := c_written c @ [p], c_calls := Suc (c_calls c)\<rparr>)
      else (False, c\<lparr>c_calls := Suc (c_calls c)\<rparr>))"

subsection \<open>Writing a reply (server_reply.rs)\<close>

definition reply_header :: "scamp_reply \<Rightarrow> i64 \<Rightarrow> packet_header" where
  "reply_header reply request_id =
     \<lparr>h_action = [], h_envelope = Json, h_error = rep_error reply,
      h_error_code = rep_error_code reply, h_error_data = rep_error_data reply,
      h_request_id = request_id, h_client_id = 0, h_ticket = [], h_identifying_token = [],
      h_message_type = Reply, h_version = 0\<rparr>"

definition outgoing_remove :: "u64 \<Rightarrow> conn \<Rightarrow> conn" where
  "outgoing_remove no c = c\<lparr>c_outgoing := (c_outgoing c)(no := None)\<rparr>"

definition outgoing_sent :: "u64 \<Rightarrow> nat \<Rightarrow> conn \<Rightarrow> conn" where
  "outgoing_sent no n c =
     c\<lparr>c_outgoing := (case c_outgoing c no of
         None \<Rightarrow> c_outgoing c
       | Some st \<Rightarrow> (c_outgoing c)(no \<mapsto> st\<lparr>or_sent := or_sent st + n\<rparr>))\<rparr>"

text \<open>The loop over the body; the result says whether every DATA packet was written.\<close>

function reply_data :: "server_env \<Rightarrow> u64 \<Rightarrow> bytes \<Rightarrow> nat \<Rightarrow> conn \<Rightarrow> bool \<times> conn" where
  "reply_data env no body offset c =
     (if offset < length body then
        (let end_pos = min (offset + DATA_CHUNK_SIZE) (length body);
             chunk_len = end_pos - offset;
             pkt = data_packet no (take chunk_len (drop offset body))
         in case conn_write env pkt c of
              (False, c') \<Rightarrow> (False, outgoing_remove no c')
            | (True, c') \<Rightarrow> reply_data env no body end_pos (outgoing_sent no chunk_len c'))
      else (True, c))"
  by pat_completeness auto
termination
  by (relation "measure (\<lambda>(env, no, body, offset, c). length body - offset)")
    (auto simp: DATA_CHUNK_SIZE_def)

declare reply_data.simps [simp del]

definition send_reply :: "server_env \<Rightarrow> scamp_reply \<Rightarrow> i64 \<Rightarrow> conn \<Rightarrow> conn" where
  "send_reply env reply request_id c0 =
     (let no = c_next_out c0;
          c = c0\<lparr>c_next_out := no + 1,
                 c_outgoing := (c_outgoing c0)(no \<mapsto> \<lparr>or_sent = 0, or_acknowledged = 0\<rparr>)\<rparr>
      in case conn_write env (header_packet no (reply_header reply request_id)) c of
           (False, c1) \<Rightarrow> outgoing_remove no c1
         | (True, c1) \<Rightarrow>
             (case reply_data env no (rep_body reply) 0 c1 of
                (False, c2) \<Rightarrow> c2
              | (True, c2) \<Rightarrow>
                  (let (_, c3) = conn_write env (eof_packet no) c2 in outgoing_remove no c3)))"

subsection \<open>Dispatch (server_connection.rs)\<close>

definition action_key :: "packet_header \<Rightarrow> string" where
  "action_key h = to_lowercase (h_action h) @ ''.v'' @ dec_of_int (sint (h_version h))"

definition is_noauth :: "server_env \<Rightarrow> string \<Rightarrow> bool" where
  "is_noauth env key =
     (case env_actions env key of None \<Rightarrow> False | Some a \<Rightarrow> ''noauth'' \<in> set (ra_flags a))"

definition request_of :: "packet_header \<Rightarrow> bytes \<Rightarrow> scamp_request" where
  "request_of h body =
     \<lparr>req_action = h_action h, req_version = h_version h, req_envelope = h_envelope h,
      req_request_id = h_request_id h, req_client_id = h_client_id h, req_ticket = h_ticket h,
      req_identifying_token = h_identifying_token h, req_body = body\<rparr>"

definition count_call :: "conn \<Rightarrow> conn" where
  "count_call c = c\<lparr>c_calls := Suc (c_calls c)\<rparr>"

text \<open>The last part of \<open>dispatch_and_reply\<close>: run the handler of the action, if there is one.\<close>

definition run_action :: "server_env \<Rightarrow> incoming_request \<Rightarrow> conn \<Rightarrow> conn" where
  "run_action env msg c =
     (let key = action_key (in_header msg); rid = h_request_id (in_header msg) in
      case env_actions env key of
        Some ra \<Rightarrow>
          send_reply env (ra_handler ra (c_calls c) (request_of (in_header msg) (in_body msg)))
            rid (count_call c)
      | None \<Rightarrow> send_reply env (reply_error (''No such action: '' @ key) ''not_found'') rid c)"

definition dispatch_and_reply :: "server_env \<Rightarrow> incoming_request \<Rightarrow> conn \<Rightarrow> conn" where
  "dispatch_and_reply env msg c =
     (let h = in_header msg; rid = h_request_id h in
      case env_check env of
        None \<Rightarrow> run_action env msg c
      | Some check \<Rightarrow>
          if is_noauth env (action_key h) then run_action env msg c
          else if h_ticket h = [] then
            send_reply env (reply_error ''Authentication required'' ''unauthorized'') rid c
          else (case check (c_calls c) (h_action h) (h_ticket h) of
                  Some e \<Rightarrow> send_reply env (reply_error e ''unauthorized'') rid (count_call c)
                | None \<Rightarrow> run_action env msg (count_call c)))"

subsection \<open>Routing (server_connection.rs)\<close>

text \<open>The value of an ACK body: a positive \<open>u64\<close>, or malformed.\<close>

definition ack_value :: "bytes \<Rightarrow> nat option" where
  "ack_value body =
     (case parse_uint u64_max (utf8_lossy body) of
        None \<Rightarrow> None
      | Some v \<Rightarrow> if 0 < v then Some v else None)"

definition server_ack :: "packet \<Rightarrow> conn \<Rightarrow> conn" where
  "server_ack p c =
     (case ack_value (p_body p) of
        None \<Rightarrow> c
      | Some v \<Rightarrow>
          (case c_outgoing c (p_msg_no p) of
             None \<Rightarrow> c
           | Some st \<Rightarrow>
               if v \<le> or_acknowledged st then c
               else if or_sent st < v then c
               else c\<lparr>c_outgoing := (c_outgoing c)(p_msg_no p \<mapsto> st\<lparr>or_acknowledged := v\<rparr>)\<rparr>))"

definition server_route :: "server_env \<Rightarrow> packet \<Rightarrow> conn \<Rightarrow> bool \<times> conn" where
  "server_route env p c =
     (let no = p_msg_no p in
      case p_type p of
        Header \<Rightarrow>
          if no \<noteq> c_next_in c then (False, c)
          else (True,
            (case p_header p of
               None \<Rightarrow> c\<lparr>c_next_in := c_next_in c + 1\<rparr>
             | Some h \<Rightarrow>
                 c\<lparr>c_next_in := c_next_in c + 1,
                   c_incoming := (c_incoming c)
                     (no \<mapsto> \<lparr>in_header = h, in_body = [], in_received = 0\<rparr>)\<rparr>))
      | Data \<Rightarrow>
          (case c_incoming c no of
             None \<Rightarrow> (True, c)
           | Some msg \<Rightarrow>
               (let msg' = msg\<lparr>in_body := in_body msg @ p_body p,
                               in_received := in_received msg + length (p_body p)\<rparr>
                in conn_write env (ack_packet no (in_received msg'))
                     (c\<lparr>c_incoming := (c_incoming c)(no \<mapsto> msg')\<rparr>)))
      | Eof \<Rightarrow>
          if p_body p \<noteq> [] then (True, c)
          else (case c_incoming c no of
                  None \<Rightarrow> (True, c)
                | Some msg \<Rightarrow>
                    (True, dispatch_and_reply env msg
                             (c\<lparr>c_incoming := (c_incoming c)(no := None)\<rparr>)))
      | Txerr \<Rightarrow>
          (let body_str = utf8_lossy (p_body p) in
           if body_str = [] \<or> body_str = ''0'' then (True, c)
           else (True, c\<lparr>c_incoming := (c_incoming c)(no := None)\<rparr>))
      | Ack \<Rightarrow> (True, server_ack p c)
      | Ping \<Rightarrow> conn_write env (pong_packet no) c
      | Pong \<Rightarrow> (True, c))"

subsection \<open>The connection's loop (server_connection.rs)\<close>

text \<open>
  One read ends with bytes (none at end of stream), with an error, or, for an idle connection, with
  the timeout of 120 seconds; a busy connection waits on.
\<close>

datatype read_event = Got bytes | ReadError | IdleElapsed

definition is_busy :: "conn \<Rightarrow> bool" where
  "is_busy c \<longleftrightarrow> dom (c_incoming c) \<noteq> {} \<or> dom (c_outgoing c) \<noteq> {}"

fun serve ::
  "server_env \<Rightarrow> (bytes \<Rightarrow> json option) \<Rightarrow> bytes \<Rightarrow> conn \<Rightarrow> read_event list \<Rightarrow> conn loop_end" where
  "serve env dec buf c [] = ReadEnd c"
| "serve env dec buf c (IdleElapsed # evs) =
     (if is_busy c then serve env dec buf c evs else ReadEnd c)"
| "serve env dec buf c (ReadError # evs) = ReadEnd c"
| "serve env dec buf c (Got chunk # evs) =
     (if chunk = [] then ReadEnd c
      else if MAX_PACKET_SIZE + 100 < length (buf @ chunk) then Overflow c
      else case drain dec (server_route env) (buf @ chunk) c of
        Rest rest c' \<Rightarrow> serve env dec rest c' evs
      | Refused c' \<Rightarrow> Closed c'
      | Broken e c' \<Rightarrow> ProtocolError e c')"

definition handle_connection ::
  "server_env \<Rightarrow> (bytes \<Rightarrow> json option) \<Rightarrow> read_event list \<Rightarrow> conn loop_end" where
  "handle_connection env dec evs = serve env dec [] conn_init evs"

lemma serve_reads:
  "\<forall>c \<in> set chunks. c \<noteq> [] \<Longrightarrow>
     serve env dec buf s (map Got chunks) = read_loop dec (server_route env) buf s chunks"
  by (induction chunks arbitrary: buf s) (auto split: drained.splits)

subsection \<open>Lemmas on writing\<close>

lemma conn_write_fields [simp]:
  "c_incoming (snd (conn_write env p c)) = c_incoming c"
  "c_outgoing (snd (conn_write env p c)) = c_outgoing c"
  "c_next_in (snd (conn_write env p c)) = c_next_in c"
  "c_next_out (snd (conn_write env p c)) = c_next_out c"
  by (simp_all add: conn_write_def)

lemma outgoing_fields [simp]:
  "c_incoming (outgoing_remove no c) = c_incoming c"
  "c_next_in (outgoing_remove no c) = c_next_in c"
  "c_next_out (outgoing_remove no c) = c_next_out c"
  "c_written (outgoing_remove no c) = c_written c"
  "c_outgoing (outgoing_remove no c) = (c_outgoing c)(no := None)"
  "c_incoming (outgoing_sent no n c) = c_incoming c"
  "c_next_in (outgoing_sent no n c) = c_next_in c"
  "c_next_out (outgoing_sent no n c) = c_next_out c"
  "c_written (outgoing_sent no n c) = c_written c"
  "(c_outgoing (outgoing_sent no n c))(no := None) = (c_outgoing c)(no := None)"
  by (auto simp: outgoing_remove_def outgoing_sent_def split: option.splits)

lemma count_call_fields [simp]:
  "c_incoming (count_call c) = c_incoming c" "c_outgoing (count_call c) = c_outgoing c"
  "c_next_in (count_call c) = c_next_in c" "c_next_out (count_call c) = c_next_out c"
  "c_written (count_call c) = c_written c"
  by (simp_all add: count_call_def)

text \<open>What a step that only writes leaves alone.\<close>

definition same_reading :: "conn \<Rightarrow> conn \<Rightarrow> bool" where
  "same_reading c c' \<longleftrightarrow> c_incoming c' = c_incoming c \<and> c_next_in c' = c_next_in c"

lemma reply_data_fields:
  "same_reading c (snd (reply_data env no body offset c))
   \<and> c_next_out (snd (reply_data env no body offset c)) = c_next_out c
   \<and> (c_outgoing (snd (reply_data env no body offset c)))(no := None) = (c_outgoing c)(no := None)
   \<and> (\<not> fst (reply_data env no body offset c) \<longrightarrow>
        c_outgoing (snd (reply_data env no body offset c)) = (c_outgoing c)(no := None))"
proof (induction env no body offset c rule: reply_data.induct)
  case (1 env no body offset c)
  show ?case
  proof (cases "offset < length body")
    case True
    define end_pos where "end_pos = min (offset + DATA_CHUNK_SIZE) (length body)"
    define pkt where "pkt = data_packet no (take (end_pos - offset) (drop offset body))"
    obtain ok c' where w: "conn_write env pkt c = (ok, c')" by fastforce
    have c': "c_incoming c' = c_incoming c" "c_next_in c' = c_next_in c"
      "c_next_out c' = c_next_out c" "c_outgoing c' = c_outgoing c"
      using w conn_write_fields [of env pkt c] by simp_all
    have eq: "reply_data env no body offset c =
      (if ok then reply_data env no body end_pos (outgoing_sent no (end_pos - offset) c')
       else (False, outgoing_remove no c'))"
      using True w by (subst reply_data.simps) (simp add: Let_def end_pos_def pkt_def)
    show ?thesis
    proof (cases ok)
      case ok: True
      have "same_reading (outgoing_sent no (end_pos - offset) c') x \<longleftrightarrow> same_reading c x" for x
        using c' by (simp add: same_reading_def)
      moreover have "(True, c') = conn_write env pkt c" using w ok by simp
      note "1.IH" [OF True end_pos_def refl pkt_def this refl]
      ultimately show ?thesis using ok c' by (simp add: eq)
    next
      case False
      with c' show ?thesis by (simp add: eq same_reading_def fun_eq_iff)
    qed
  qed (simp add: reply_data.simps same_reading_def)
qed

lemma send_reply_fields [simp]:
  "c_incoming (send_reply env r rid c) = c_incoming c"
  "c_next_in (send_reply env r rid c) = c_next_in c"
  "c_next_out (send_reply env r rid c) = c_next_out c + 1"
  "c_outgoing (send_reply env r rid c) = (c_outgoing c)(c_next_out c := None)"
proof -
  let ?no = "c_next_out c"
  let ?c = "c\<lparr>c_next_out := ?no + 1, c_outgoing := (c_outgoing c)
      (?no \<mapsto> \<lparr>or_sent = 0, or_acknowledged = 0\<rparr>)\<rparr>"
  obtain ok1 c1 where w1: "conn_write env (header_packet ?no (reply_header r rid)) ?c = (ok1, c1)"
    by fastforce
  note c1 = conn_write_fields [of env "header_packet ?no (reply_header r rid)" ?c, unfolded w1, simplified]
  obtain ok2 c2 where w2: "reply_data env ?no (rep_body r) 0 c1 = (ok2, c2)" by fastforce
  note c2 = reply_data_fields [of c1 env ?no "rep_body r" 0, unfolded w2 same_reading_def, simplified]
  obtain ok3 c3 where w3: "conn_write env (eof_packet ?no) c2 = (ok3, c3)" by fastforce
  note c3 = conn_write_fields [of env "eof_packet ?no" c2, unfolded w3, simplified]
  have "send_reply env r rid c =
      (if ok1 then if ok2 then outgoing_remove ?no c3 else c2 else outgoing_remove ?no c1)"
    by (simp add: send_reply_def Let_def w1 w2 w3)
  then show "c_incoming (send_reply env r rid c) = c_incoming c"
    "c_next_in (send_reply env r rid c) = c_next_in c"
    "c_next_out (send_reply env r rid c) = ?no + 1"
    "c_outgoing (send_reply env r rid c) = (c_outgoing c)(?no := None)"
    using c1 c2 c3 by simp_all
qed

text \<open>When no write fails, a reply is the packets of a message.\<close>

definition reliable :: "server_env \<Rightarrow> bool" where
  "reliable env \<longleftrightarrow> (\<forall>n. env_write env n)"

lemma conn_write_reliable [simp]:
  "reliable env \<Longrightarrow> conn_write env p c =
     (True, c\<lparr>c_written := c_written c @ [p], c_calls := Suc (c_calls c)\<rparr>)"
  by (simp add: conn_write_def reliable_def)

lemma reply_data_reliable:
  assumes "reliable env"
  shows "fst (reply_data env no body offset c)
    \<and> c_written (snd (reply_data env no body offset c))
      = c_written c @ data_packets no (drop offset body)"
  using assms
proof (induction env no body offset c rule: reply_data.induct)
  case (1 env no body offset c)
  show ?case
  proof (cases "offset < length body")
    case True
    let ?stop = "min (offset + DATA_CHUNK_SIZE) (length body)"
    have take: "take (?stop - offset) (drop offset body) = take DATA_CHUNK_SIZE (drop offset body)"
      using True by (auto simp: min_def)
    have drop: "drop ?stop body = drop DATA_CHUNK_SIZE (drop offset body)"
      using True by (auto simp: min_def add.commute)
    note IH = "1.IH" [OF True refl refl refl conn_write_reliable [OF "1.prems", symmetric] refl "1.prems"]
    show ?thesis
      using True "1.prems" IH
      by (subst (1 2) reply_data.simps)
        (simp add: Let_def data_packets_step [of "drop offset body"] take drop)
  qed (simp add: reply_data.simps)
qed

lemma send_reply_reliable:
  assumes "reliable env"
  shows "c_written (send_reply env r rid c)
    = c_written c @ message_packets (c_next_out c) (reply_header r rid) (rep_body r)"
proof -
  let ?no = "c_next_out c"
  let ?c = "c\<lparr>c_next_out := ?no + 1, c_outgoing := (c_outgoing c)
      (?no \<mapsto> \<lparr>or_sent = 0, or_acknowledged = 0\<rparr>)\<rparr>"
  obtain c1 where w1: "conn_write env (header_packet ?no (reply_header r rid)) ?c = (True, c1)"
    and c1: "c_written c1 = c_written c @ [header_packet ?no (reply_header r rid)]"
    using assms by simp
  obtain c2 where w2: "reply_data env ?no (rep_body r) 0 c1 = (True, c2)"
    and c2: "c_written c2 = c_written c1 @ data_packets ?no (rep_body r)"
    using reply_data_reliable [OF assms, of ?no "rep_body r" 0 c1] by (metis drop0 prod.collapse)
  obtain c3 where w3: "conn_write env (eof_packet ?no) c2 = (True, c3)"
    and c3: "c_written c3 = c_written c2 @ [eof_packet ?no]"
    using assms by simp
  show ?thesis
    using c1 c2 c3
    by (simp add: send_reply_def Let_def w1 w2 w3 message_packets_def del: conn_write_reliable)
qed

subsection \<open>Lemmas on dispatch and routing\<close>

lemma run_action_fields [simp]:
  "c_incoming (run_action env msg c) = c_incoming c"
  "c_next_in (run_action env msg c) = c_next_in c"
  "c_next_out (run_action env msg c) = c_next_out c + 1"
  "c_outgoing (run_action env msg c) = (c_outgoing c)(c_next_out c := None)"
  by (simp_all add: run_action_def Let_def split: option.split)

lemma dispatch_fields [simp]:
  "c_incoming (dispatch_and_reply env msg c) = c_incoming c"
  "c_next_in (dispatch_and_reply env msg c) = c_next_in c"
  "c_next_out (dispatch_and_reply env msg c) = c_next_out c + 1"
  "c_outgoing (dispatch_and_reply env msg c) = (c_outgoing c)(c_next_out c := None)"
  by (simp_all add: dispatch_and_reply_def Let_def split: option.split)

lemma server_ack_fields [simp]:
  "c_incoming (server_ack p c) = c_incoming c" "c_next_in (server_ack p c) = c_next_in c"
  "c_next_out (server_ack p c) = c_next_out c" "c_written (server_ack p c) = c_written c"
  by (simp_all add: server_ack_def split: option.split)

lemma server_ack_idle [simp]: "c_outgoing c = Map.empty \<Longrightarrow> server_ack p c = c"
  by (simp add: server_ack_def split: option.split)

text \<open>
  What holds between packets: no reply is outgoing, and an open request counts the bytes it has.
\<close>

definition server_inv :: "conn \<Rightarrow> bool" where
  "server_inv c \<longleftrightarrow>
     c_outgoing c = Map.empty
     \<and> (\<forall>no msg. c_incoming c no = Some msg \<longrightarrow> in_received msg = length (in_body msg))"

lemma server_inv_init [simp]: "server_inv conn_init"
  by (simp add: server_inv_def conn_init_def)

text \<open>The view of a connection as messages under assembly.\<close>

definition conn_assembly :: "conn \<Rightarrow> assembly" where
  "conn_assembly c =
     \<lparr>asm_next = c_next_in c,
      asm_open = (\<lambda>no. map_option (\<lambda>msg. (in_header msg, in_body msg)) (c_incoming c no))\<rparr>"

lemma conn_assembly_fields [simp]:
  "asm_next (conn_assembly c) = c_next_in c"
  "asm_open (conn_assembly c) no
     = map_option (\<lambda>msg. (in_header msg, in_body msg)) (c_incoming c no)"
  by (simp_all add: conn_assembly_def)

lemma conn_assembly_cong:
  "c_incoming c = c_incoming c' \<Longrightarrow> c_next_in c = c_next_in c'
   \<Longrightarrow> conn_assembly c = conn_assembly c'"
  by (simp add: conn_assembly_def)

lemma server_route_abs: "conn_assembly (snd (server_route env p c)) = asm_step p (conn_assembly c)"
proof (cases "p_type p")
  case Header
  then show ?thesis
    by (auto simp: server_route_def asm_step_def conn_assembly_def Let_def fun_eq_iff
        split: option.split)
next
  case Data
  then show ?thesis
    by (cases "c_incoming c (p_msg_no p)")
      (auto simp: server_route_def asm_step_def conn_assembly_def Let_def fun_eq_iff)
next
  case Eof
  then show ?thesis
    by (cases "c_incoming c (p_msg_no p)")
      (auto simp: server_route_def asm_step_def conn_assembly_def Let_def fun_eq_iff)
next
  case Txerr
  then show ?thesis
    by (auto simp: server_route_def asm_step_def conn_assembly_def txerr_valid_def Let_def fun_eq_iff)
qed (auto simp: server_route_def asm_step_def intro: conn_assembly_cong)

lemma server_route_inv:
  assumes "server_inv c"
  shows "server_inv (snd (server_route env p c))"
proof (cases "p_type p")
  case Header
  with assms show ?thesis
    by (auto simp: server_route_def server_inv_def Let_def split: option.split)
next
  case Data
  with assms show ?thesis
    by (cases "c_incoming c (p_msg_no p)") (auto simp: server_route_def server_inv_def Let_def)
next
  case Eof
  with assms show ?thesis
    by (cases "c_incoming c (p_msg_no p)") (auto simp: server_route_def server_inv_def Let_def)
next
  case Txerr
  with assms show ?thesis
    by (auto simp: server_route_def server_inv_def Let_def)
qed (use assms in \<open>auto simp: server_route_def server_inv_def\<close>)

interpretation server: assembler "server_route env" conn_assembly for env
  by unfold_locales (rule server_route_abs)

text \<open>The loop with its read events keeps an invariant that routing keeps.\<close>

locale serving = packet_consumer "server_route env" inv
  for env :: server_env and inv :: "conn \<Rightarrow> bool"
begin

lemma serve_inv: "inv c \<Longrightarrow> inv (end_state (serve env dec buf c evs))"
proof (induction evs arbitrary: buf c)
  case (Cons ev evs)
  then show ?case
  proof (cases ev)
    case (Got chunk)
    then show ?thesis
      using Cons drain_inv [OF Cons.prems, of dec "buf @ chunk"] by (auto split: drained.splits)
  qed simp_all
qed simp

lemma handle_inv: "inv conn_init \<Longrightarrow> inv (end_state (handle_connection env dec evs))"
  unfolding handle_connection_def by (rule serve_inv)

end

interpretation server_consumer: serving env server_inv for env
  by unfold_locales (rule server_route_inv)

subsection \<open>Properties\<close>

text \<open>
  C19: Whatever bytes, errors and timeouts a connection sees, between packets its table of outgoing
  replies is empty and every open request counts exactly its bytes; so the validation of
  acknowledgements never finds a reply, and every ACK leaves the connection as it is.
\<close>

theorem server_acks_ineffective:
  "server_inv (end_state (handle_connection env dec evs))
   \<and> server_route env \<lparr>p_type = Ack, p_msg_no = no, p_header = None, p_body = body\<rparr>
       (end_state (handle_connection env dec evs))
     = (True, end_state (handle_connection env dec evs))"
proof -
  have "server_inv (end_state (handle_connection env dec evs))"
    by (rule server_consumer.handle_inv) simp
  then show ?thesis by (simp add: server_route_def server_inv_def)
qed

lemma server_route_closes:
  "\<not> fst (server_route env p c) \<longleftrightarrow>
     (p_type p = Header \<and> p_msg_no p \<noteq> c_next_in c)
     \<or> (p_type p = Data \<and> c_incoming c (p_msg_no p) \<noteq> None \<and> \<not> env_write env (c_calls c))
     \<or> (p_type p = Ping \<and> \<not> env_write env (c_calls c))"
  by (cases "p_type p")
    (auto simp: server_route_def conn_write_def Let_def split: option.split)

text \<open>
  The packets that close a connection: a HEADER out of sequence, and a DATA packet of an open
  request or a PING whose answer cannot be written.  Everything else, malformed EOF, TXERR and ACK
  packets included, keeps it open.
\<close>

theorem server_closes_iff:
  "\<not> fst (server_route env p c) \<longleftrightarrow>
     (p_type p = Header \<and> p_msg_no p \<noteq> c_next_in c)
     \<or> (p_type p = Data \<and> c_incoming c (p_msg_no p) \<noteq> None \<and> \<not> env_write env (c_calls c))
     \<or> (p_type p = Ping \<and> \<not> env_write env (c_calls c))"
  by (rule server_route_closes)

text \<open>
  The access rule of \<open>dispatch_and_reply\<close>, for the external call number of the check: nothing when
  access is granted, and otherwise the text of the error.
\<close>

definition denial :: "server_env \<Rightarrow> packet_header \<Rightarrow> nat \<Rightarrow> string option" where
  "denial env h k =
     (case env_check env of
        None \<Rightarrow> None
      | Some check \<Rightarrow>
          if is_noauth env (action_key h) then None
          else if h_ticket h = [] then Some ''Authentication required''
          else check k (h_action h) (h_ticket h))"

text \<open>The environment with every handler replaced.\<close>

definition with_handlers :: "(string \<Rightarrow> action_handler) \<Rightarrow> server_env \<Rightarrow> server_env" where
  "with_handlers f env =
     env\<lparr>env_actions := (\<lambda>key. map_option (\<lambda>ra. ra\<lparr>ra_handler := f key\<rparr>) (env_actions env key))\<rparr>"

lemma with_handlers_simps [simp]:
  "env_write (with_handlers f env) = env_write env"
  "env_check (with_handlers f env) = env_check env"
  "is_noauth (with_handlers f env) key = is_noauth env key"
  by (auto simp: with_handlers_def is_noauth_def split: option.split)

lemma conn_write_with_handlers [simp]: "conn_write (with_handlers f env) = conn_write env"
  by (simp add: conn_write_def fun_eq_iff)

lemma reply_data_with_handlers [simp]:
  "reply_data (with_handlers f env) no body offset c = reply_data env no body offset c"
proof (induction env no body offset c rule: reply_data.induct)
  case (1 env no body offset c)
  then show ?case
    by (subst (1 2) reply_data.simps) (auto simp: Let_def split: prod.split bool.split)
qed

lemma send_reply_with_handlers [simp]: "send_reply (with_handlers f env) r rid c = send_reply env r rid c"
  proof -
  have "reply_data (with_handlers f env) = reply_data env"
    by (intro ext) (rule reply_data_with_handlers)
  then show ?thesis by (simp only: send_reply_def conn_write_with_handlers)
qed

lemma denied_dispatch:
  assumes "denial env (in_header msg) (c_calls c) = Some e"
  shows "dispatch_and_reply (with_handlers f env) msg c
      = send_reply env (reply_error e ''unauthorized'') (h_request_id (in_header msg))
          (if h_ticket (in_header msg) = [] then c else count_call c)"
  using assms by (auto simp: denial_def dispatch_and_reply_def Let_def split: option.splits if_splits)

text \<open>
  A request that is not granted access never reaches a handler: the connection ends up the same
  whatever the handlers are, and the answer is an \<open>unauthorized\<close> error for the request's id.
\<close>

theorem denied_request_unhandled:
  assumes "denial env (in_header msg) (c_calls c) = Some e"
  shows "dispatch_and_reply (with_handlers f env) msg c
      = send_reply env (reply_error e ''unauthorized'') (h_request_id (in_header msg))
          (if h_ticket (in_header msg) = [] then c else count_call c)"
  using assms by (rule denied_dispatch)

text \<open>The reply to a granted request, from the external call number of its handler.\<close>

definition reply_to :: "server_env \<Rightarrow> packet_header \<Rightarrow> bytes \<Rightarrow> nat \<Rightarrow> scamp_reply" where
  "reply_to env h body k =
     (case env_actions env (action_key h) of
        Some ra \<Rightarrow> ra_handler ra k (request_of h body)
      | None \<Rightarrow> reply_error (''No such action: '' @ action_key h) ''not_found'')"

definition reply_packets :: "server_env \<Rightarrow> packet_header \<Rightarrow> bytes \<Rightarrow> nat \<Rightarrow> u64 \<Rightarrow> packet list" where
  "reply_packets env h body k no =
     message_packets no (reply_header (reply_to env h body k) (h_request_id h))
       (rep_body (reply_to env h body k))"

lemma dispatch_written:
  assumes "denial env (in_header msg) (c_calls c) = None" and "reliable env"
  shows "\<exists>k. c_written (dispatch_and_reply env msg c)
    = c_written c @ reply_packets env (in_header msg) (in_body msg) k (c_next_out c)"
proof -
  have run: "\<exists>k. c_written (run_action env msg c')
      = c_written c' @ reply_packets env (in_header msg) (in_body msg) k (c_next_out c')" for c'
    by (rule exI [of _ "c_calls c'"])
      (simp add: run_action_def reply_packets_def reply_to_def Let_def
        send_reply_reliable [OF assms(2)] split: option.split)
  have "dispatch_and_reply env msg c \<in> {run_action env msg c, run_action env msg (count_call c)}"
    using assms(1) by (auto simp: denial_def dispatch_and_reply_def Let_def split: option.splits if_splits)
  then show ?thesis
    using run [of c] run [of "count_call c"] by auto
qed

text \<open>
  C16: A granted request of a registered action is answered with what its handler returns, one of an
  unknown action with a \<open>not_found\<close> error; when no write fails the answer on the wire is exactly
  the packets of that one message, under the next reply number and with the request's id.
\<close>

theorem granted_request_answered:
  assumes "denial env (in_header msg) (c_calls c) = None" and "reliable env"
  shows "\<exists>k. c_written (dispatch_and_reply env msg c)
    = c_written c @ reply_packets env (in_header msg) (in_body msg) k (c_next_out c)"
  using assms by (rule dispatch_written)

text \<open>Routing a sequence whose HEADER packets are in sequence, when no write fails.\<close>

lemma server_route_all_open:
  assumes "reliable env" and "in_sequence (c_next_in c) ps"
  shows "\<exists>c'. route_all (server_route env) ps c = (True, c')"
  using assms(2)
proof (induction ps arbitrary: c)
  case (Cons p ps)
  have ok: "fst (server_route env p c)"
    using Cons.prems assms(1) server_route_closes [of env p c] by (auto simp: reliable_def split: if_splits)
  obtain c1 where c1: "server_route env p c = (True, c1)"
    using ok by (cases "server_route env p c") auto
  then have "c_next_in c1 = asm_next (asm_step p (conn_assembly c))"
    using arg_cong [OF server_route_abs [of env p c], of asm_next] by simp
  also have "\<dots> = (if p_type p = Header then c_next_in c + 1 else c_next_in c)"
    using Cons.prems by (subst asm_step_next) (auto split: if_splits)
  finally have "in_sequence (c_next_in c1) ps"
    using Cons.prems by (auto split: if_splits)
  from Cons.IH [OF this] c1 show ?case by simp
qed simp

text \<open>
  C17: However the packets of several requests are interleaved, the EOF of a request dispatches
  exactly its header and the concatenation of its DATA bodies, provided the HEADER packets are
  numbered in sequence and writing works.
\<close>

theorem interleaved_request_dispatched:
  assumes "reliable env" and "in_sequence 0 ps"
    and "of_message n ps = header_packet n h # map (data_packet n) bs"
  shows "\<exists>c. route_all (server_route env) ps conn_init = (True, c)
    \<and> server_route env (eof_packet n) c =
        (True, dispatch_and_reply env
           \<lparr>in_header = h, in_body = concat bs, in_received = length (concat bs)\<rparr>
           (c\<lparr>c_incoming := (c_incoming c)(n := None)\<rparr>))"
proof -
  have seq: "in_sequence (c_next_in conn_init) ps"
    using assms(2) by (simp add: conn_init_def)
  then obtain c where c: "route_all (server_route env) ps conn_init = (True, c)"
    using server_route_all_open [OF assms(1)] by blast
  have "asm_open (conn_assembly c) n = Some (h, concat bs)"
    using c seq assms(3) by (intro server.assembled) (auto simp: conn_init_def)
  then obtain msg where msg: "c_incoming c n = Some msg" "in_header msg = h" "in_body msg = concat bs"
    by auto
  have "server_inv c"
    using route_all_keeps [of server_inv "server_route env", OF server_route_inv server_inv_init, of ps] c by simp
  with msg have "in_received msg = length (concat bs)"
    by (simp add: server_inv_def)
  with msg have "msg = \<lparr>in_header = h, in_body = concat bs, in_received = length (concat bs)\<rparr>"
    by (cases msg) simp
  with c msg show ?thesis by (simp add: server_route_def)
qed

subsection \<open>What the service writes\<close>

definition replies_numbered :: "server_env \<Rightarrow> conn \<Rightarrow> bool" where
  "replies_numbered env c \<longleftrightarrow>
     (reliable env \<longrightarrow>
        (\<exists>ms. filter is_message_packet (c_written c) = numbered_messages 0 ms
          \<and> c_next_out c = of_nat (length ms)))"

lemma replies_numbered_cong:
  "replies_numbered env c \<Longrightarrow> c_written c' = c_written c \<Longrightarrow> c_next_out c' = c_next_out c
   \<Longrightarrow> replies_numbered env c'"
  by (simp add: replies_numbered_def)

lemma replies_numbered_answer:
  "replies_numbered env c \<Longrightarrow> \<not> is_message_packet p
   \<Longrightarrow> replies_numbered env (snd (conn_write env p c))"
  by (auto simp: replies_numbered_def)

lemma replies_numbered_send:
  assumes "replies_numbered env c"
  shows "replies_numbered env (send_reply env r rid c)"
  unfolding replies_numbered_def
proof (intro impI)
  assume env: "reliable env"
  with assms obtain ms where "filter is_message_packet (c_written c) = numbered_messages 0 ms"
    and "c_next_out c = of_nat (length ms)"
    by (auto simp: replies_numbered_def)
  then show "\<exists>ms. filter is_message_packet (c_written (send_reply env r rid c)) = numbered_messages 0 ms
      \<and> c_next_out (send_reply env r rid c) = of_nat (length ms)"
    using send_reply_reliable [OF env, of r rid c]
    by (intro exI [of _ "ms @ [(reply_header r rid, rep_body r)]"])
      (simp add: numbered_messages_append add.commute)
qed

lemma replies_numbered_count [simp]: "replies_numbered env (count_call c) = replies_numbered env c"
  by (simp add: replies_numbered_def)

lemma replies_numbered_incoming [simp]:
  "replies_numbered env (c\<lparr>c_incoming := m\<rparr>) = replies_numbered env c"
  by (simp add: replies_numbered_def)

lemma replies_numbered_run: "replies_numbered env c \<Longrightarrow> replies_numbered env (run_action env msg c)"
  by (auto simp: run_action_def Let_def intro: replies_numbered_send split: option.split)

lemma replies_numbered_dispatch:
  "replies_numbered env c \<Longrightarrow> replies_numbered env (dispatch_and_reply env msg c)"
  by (auto simp: dispatch_and_reply_def Let_def split: option.split
      intro: replies_numbered_send replies_numbered_run)

lemma server_route_numbered:
  assumes "replies_numbered env c"
  shows "replies_numbered env (snd (server_route env p c))"
proof (cases "p_type p")
  case Header
  with assms show ?thesis
    by (auto simp: server_route_def Let_def split: option.split intro: replies_numbered_cong)
next
  case Data
  with assms show ?thesis
    by (auto simp: server_route_def Let_def is_message_packet_def split: option.split
        intro!: replies_numbered_answer)
next
  case Eof
  with assms show ?thesis
    by (auto simp: server_route_def Let_def split: option.split intro!: replies_numbered_dispatch)
next
  case Txerr
  with assms show ?thesis
    by (auto simp: server_route_def Let_def)
next
  case Ack
  with assms show ?thesis
    by (auto simp: server_route_def intro: replies_numbered_cong)
next
  case Ping
  with assms show ?thesis
    by (auto simp: server_route_def is_message_packet_def intro!: replies_numbered_answer)
qed (use assms in \<open>simp add: server_route_def\<close>)

interpretation server_output: serving env "replies_numbered env" for env
  by unfold_locales (rule server_route_numbered)

text \<open>
  C18: When writing works, the packets a connection writes, acknowledgements and pongs put aside, are
  whole reply messages one after the other, numbered 0, 1, 2 and so on: replies never interleave
  and no number is skipped or used twice.
\<close>

theorem server_replies_numbered:
  assumes "reliable env"
  shows "\<exists>ms. filter is_message_packet (c_written (end_state (handle_connection env dec evs)))
      = numbered_messages 0 ms"
proof -
  have "replies_numbered env conn_init"
    by (auto simp: replies_numbered_def conn_init_def intro!: exI [of _ "[]"])
  from server_output.handle_inv [OF this, of dec evs] assms show ?thesis
    by (auto simp: replies_numbered_def)
qed

subsection \<open>Types on the service side\<close>

text \<open>
  The packets a service sends: well-formed, with REPLY headers, never an empty DATA packet, never
  TXERR or PING; the requests it holds have headers as a reader can produce them.
\<close>

definition service_packet :: "packet \<Rightarrow> bool" where
  "service_packet p \<longleftrightarrow>
     wf_packet p \<and> p_type p \<notin> {Txerr, Ping}
     \<and> (p_type p = Data \<longrightarrow> 0 < length (p_body p) \<and> length (p_body p) \<le> DATA_CHUNK_SIZE)
     \<and> (\<forall>h. p_header p = Some h \<longrightarrow> h_message_type h = Reply)"

definition typed_conn :: "conn \<Rightarrow> bool" where
  "typed_conn c \<longleftrightarrow>
     (\<forall>no m. c_incoming c no = Some m \<longrightarrow> canonical_header (in_header m))
     \<and> (\<forall>p \<in> set (c_written c). service_packet p)"

text \<open>Replies whose error data is not the null document, which a reader takes for absent.\<close>

definition typed_reply :: "scamp_reply \<Rightarrow> bool" where
  "typed_reply r \<longleftrightarrow> rep_error_data r \<noteq> Some JNull"

definition typed_env :: "server_env \<Rightarrow> bool" where
  "typed_env env \<longleftrightarrow> (\<forall>key ra k r. env_actions env key = Some ra \<longrightarrow> typed_reply (ra_handler ra k r))"

lemma typed_reply_simps [simp]: "typed_reply (reply_ok body)" "typed_reply (reply_error e code)"
  by (simp_all add: typed_reply_def reply_ok_def reply_error_def)

lemma service_packets [simp]:
  "typed_reply r \<Longrightarrow> service_packet (header_packet no (reply_header r rid))"
  "service_packet (data_packet no b) \<longleftrightarrow> 0 < length b \<and> length b \<le> DATA_CHUNK_SIZE"
  "service_packet (eof_packet no)" "service_packet (ack_packet no n)" "service_packet (pong_packet no)"
  by (auto simp: service_packet_def wf_packet_def typed_reply_def reply_header_def canonical_header_def)

lemma typed_write: "service_packet p \<Longrightarrow> typed_conn c \<Longrightarrow> typed_conn (snd (conn_write env p c))"
  by (simp add: conn_write_def typed_conn_def)

lemma typed_same:
  "c_incoming c' = c_incoming c \<Longrightarrow> c_written c' = c_written c \<Longrightarrow> typed_conn c \<Longrightarrow> typed_conn c'"
  by (simp add: typed_conn_def)

lemma typed_outgoing [simp]: "typed_conn (outgoing_remove no c) = typed_conn c"
  "typed_conn (outgoing_sent no n c) = typed_conn c" "typed_conn (count_call c) = typed_conn c"
  by (simp_all add: typed_conn_def)

lemma typed_reply_data: "typed_conn c \<Longrightarrow> typed_conn (snd (reply_data env no body offset c))"
proof (induction env no body offset c rule: reply_data.induct)
  case (1 env no body offset c)
  show ?case
  proof (cases "offset < length body")
    case False
    with "1.prems" show ?thesis by (simp add: reply_data.simps)
  next
    case True
    define e where "e = min (offset + DATA_CHUNK_SIZE) (length body)"
    have e: "offset < e" "e - offset \<le> DATA_CHUNK_SIZE" "e \<le> length body"
      using True by (auto simp: e_def DATA_CHUNK_SIZE_def)
    have p: "service_packet (data_packet no (take (e - offset) (drop offset body)))" using e by simp
    obtain ok c' where w: "conn_write env (data_packet no (take (e - offset) (drop offset body))) c = (ok, c')" by fastforce
    with typed_write [OF p "1.prems", of env] have c': "typed_conn c'" by simp
    show ?thesis
    proof (cases ok)
      case False
      with w c' True show ?thesis by (subst reply_data.simps) (simp add: e_def Let_def)
    next
      case ok: True
      then have "typed_conn (snd (reply_data env no body e (outgoing_sent no (e - offset) c')))"
        using "1.IH" [OF True e_def refl refl] w c' by simp
      with w ok True show ?thesis by (subst reply_data.simps) (simp add: e_def Let_def)
    qed
  qed
qed

lemma typed_send: 
  assumes "typed_reply r" and "typed_conn c"
  shows "typed_conn (send_reply env r rid c)"
proof -
  define c0 where "c0 = c\<lparr>c_next_out := c_next_out c + 1,
    c_outgoing := (c_outgoing c)(c_next_out c \<mapsto> \<lparr>or_sent = 0, or_acknowledged = 0\<rparr>)\<rparr>"
  have "typed_conn c0" using assms(2) by (simp add: c0_def typed_conn_def)
  then have 1: "typed_conn c1" if "conn_write env (header_packet (c_next_out c) (reply_header r rid)) c0 = (ok, c1)" for ok c1
    using typed_write [OF service_packets(1) [OF assms(1)]] that by (metis snd_conv)
  have 2: "typed_conn c2" if "reply_data env no body 0 c1 = (ok, c2)" "typed_conn c1" for no body ok c1 c2
    using typed_reply_data [OF that(2), of env no body 0] that(1) by simp
  have 3: "typed_conn c3" if "conn_write env (eof_packet no) c2 = (ok, c3)" "typed_conn c2" for no ok c2 c3
    using typed_write [OF service_packets(3) that(2), of env no] that(1) by simp
  show ?thesis
    unfolding send_reply_def Let_def c0_def [symmetric]
    by (auto split: prod.split bool.split dest!: 1 intro: 2 3)
qed

lemma typed_run: "typed_env env \<Longrightarrow> typed_conn c \<Longrightarrow> typed_conn (run_action env msg c)"
  by (auto simp: run_action_def Let_def typed_env_def split: option.split intro!: typed_send)

lemma typed_dispatch: "typed_env env \<Longrightarrow> typed_conn c \<Longrightarrow> typed_conn (dispatch_and_reply env msg c)"
  by (auto simp: dispatch_and_reply_def Let_def split: option.split intro!: typed_send typed_run)

lemma typed_incoming:
  "typed_conn c \<Longrightarrow> (\<And>m. x = Some m \<Longrightarrow> canonical_header (in_header m))
    \<Longrightarrow> typed_conn (c\<lparr>c_incoming := (c_incoming c)(no := x)\<rparr>)"
  by (simp add: typed_conn_def)

lemma server_route_typed:
  assumes "typed_env env" and "wf_packet p" and "typed_conn c"
  shows "typed_conn (snd (server_route env p c))"
proof (cases "p_type p")
  case Header
  with assms(2,3) show ?thesis
    by (auto simp: server_route_def Let_def typed_conn_def wf_packet_def split: option.split)
next
  case Data
  show ?thesis
  proof (cases "c_incoming c (p_msg_no p)")
    case (Some m)
    then have "canonical_header (in_header m)" using assms(3) by (simp add: typed_conn_def)
    with assms(3) Data Some show ?thesis
      by (auto simp: server_route_def Let_def intro!: typed_write typed_incoming)
  qed (use assms(3) Data in \<open>simp add: server_route_def\<close>)
next
  case Eof
  with assms show ?thesis
    by (auto simp: server_route_def Let_def split: option.split intro!: typed_dispatch typed_incoming)
next
  case Txerr
  with assms(3) show ?thesis by (auto simp: server_route_def Let_def intro!: typed_incoming)
next
  case Ack
  with assms(3) show ?thesis
    by (auto simp: server_route_def server_ack_def split: option.split elim: typed_same [rotated 2])
next
  case Ping
  with assms(3) show ?thesis by (auto simp: server_route_def intro!: typed_write)
qed (use assms in \<open>simp add: server_route_def\<close>)

interpretation server_types: serving env "\<lambda>c. typed_env env \<longrightarrow> typed_conn c" for env
  by unfold_locales (auto intro: server_route_typed)

lemma handle_connection_typed: "typed_env env \<Longrightarrow> typed_conn (end_state (handle_connection env dec evs))"
  using server_types.handle_inv [of env dec evs] by (simp add: typed_conn_def conn_init_def)

subsection \<open>Witnesses\<close>

text \<open>A service with one echoing action, open to all or guarded by a ticket.\<close>

definition echo_action :: registered_action where
  "echo_action =
     \<lparr>ra_name = ''Echo.run'', ra_version = 1, ra_flags = [], ra_handler = (\<lambda>k r. reply_ok (req_body r))\<rparr>"

definition echo_env :: server_env where
  "echo_env =
     \<lparr>env_write = (\<lambda>n. True), env_actions = [''echo.run.v1'' \<mapsto> echo_action], env_check = None\<rparr>"

definition guarded_env :: server_env where
  "guarded_env =
     echo_env\<lparr>env_check := Some (\<lambda>k action ticket. if ticket = ''good'' then None else Some ''denied'')\<rparr>"

definition echo_header :: packet_header where
  "echo_header = default_header\<lparr>h_action := ''Echo.run'', h_request_id := 7\<rparr>"

definition echo_request :: incoming_request where
  "echo_request = \<lparr>in_header = echo_header, in_body = ''hi'', in_received = 2\<rparr>"

lemma reliable_echo [simp]: "reliable echo_env" "reliable guarded_env"
  by (simp_all add: reliable_def echo_env_def guarded_env_def)

lemma echo_key [simp]: "action_key echo_header = ''echo.run.v1''"
  by code_simp

lemma denied_request_unhandled_witness:
  "dispatch_and_reply (with_handlers (\<lambda>key k r. reply_ok ''leak'') guarded_env) echo_request conn_init
     = send_reply guarded_env (reply_error ''Authentication required'' ''unauthorized'') 7 conn_init"
  using denied_request_unhandled
    [of guarded_env echo_request conn_init "''Authentication required''" "\<lambda>key k r. reply_ok ''leak''"]
  by (simp add: denial_def guarded_env_def echo_env_def echo_request_def is_noauth_def
      echo_action_def echo_header_def default_header_def echo_key [unfolded echo_header_def default_header_def, simplified])

lemma granted_request_answered_witness:
  "c_written (dispatch_and_reply echo_env echo_request conn_init) =
     message_packets 0 (reply_header (reply_ok ''hi'') 7) ''hi''"
proof -
  have "denial echo_env (in_header echo_request) (c_calls conn_init) = None"
    by (simp add: denial_def echo_env_def)
  moreover have "env_actions echo_env ''echo.run.v1'' = Some echo_action"
    by (simp add: echo_env_def)
  moreover have "h_request_id echo_header = 7" by (simp add: echo_header_def)
  ultimately show ?thesis
    using granted_request_answered [of echo_env echo_request conn_init]
    by (simp add: echo_request_def conn_init_def echo_action_def reply_ok_def request_of_def
        reply_packets_def reply_to_def)
qed

lemma interleaved_request_dispatched_witness:
  "\<exists>c. route_all (server_route echo_env)
        [header_packet 0 echo_header, data_packet 0 ''a'', header_packet 1 echo_header,
         data_packet 1 ''x'', data_packet 0 ''b''] conn_init = (True, c)
    \<and> server_route echo_env (eof_packet 0) c =
        (True, dispatch_and_reply echo_env
           \<lparr>in_header = echo_header, in_body = ''ab'', in_received = 2\<rparr>
           (c\<lparr>c_incoming := (c_incoming c)(0 := None)\<rparr>))"
  using interleaved_request_dispatched
    [of echo_env "[header_packet 0 echo_header, data_packet 0 ''a'', header_packet 1 echo_header,
         data_packet 1 ''x'', data_packet 0 ''b'']" 0 echo_header "[''a'', ''b'']"]
  by (simp add: of_message_def numeral_2_eq_2)

lemma server_replies_numbered_witness:
  "\<exists>ms. filter is_message_packet (c_written (end_state (handle_connection echo_env (\<lambda>b. None)
      [Got ''PING 5 0'', Got (crlf @ trailer)]))) = numbered_messages 0 ms"
  by (rule server_replies_numbered) simp

end
