(* ===== verification/Server_Replies.thy ===== *)
theory Server_Replies
  imports Message_Trace Server_Connection
begin

text \<open>
  The service over a whole stream of packets (\<open>scamp/src/service/server_connection.rs\<close>): when its writes
  work, it writes one reply for every request completed, in the order of their EOF packets, and each is a
  reply that request can get.
\<close>

subsection \<open>One reply for every completed request\<close>

text \<open>The replies a request can get: the error of a denial, or what the action gives when access is granted.\<close>

definition possible_replies :: "server_env \<Rightarrow> packet_header \<Rightarrow> bytes \<Rightarrow> scamp_reply set" where
  "possible_replies env h b =
     {reply_error e ''unauthorized'' | k e. denial env h k = Some e}
     \<union> {reply_to env h b k | k k'. denial env h k' = None}"

definition reply_message :: "scamp_reply \<Rightarrow> i64 \<Rightarrow> packet_header \<times> bytes" where
  "reply_message rep rid = (reply_header rep rid, rep_body rep)"

text \<open>The replies written so far are one for each request completed by the packets read so far, in order.\<close>

definition replies_answer :: "server_env \<Rightarrow> packet list \<Rightarrow> conn \<Rightarrow> bool" where
  "replies_answer env ps c \<longleftrightarrow>
     (\<exists>reps. list_all2 (\<lambda>rep (n, h, b). rep \<in> possible_replies env h b) reps (completed asm_init ps)
        \<and> filter is_message_packet (c_written c)
            = numbered_messages 0 (map2 (\<lambda>rep (n, h, b). reply_message rep (h_request_id h)) reps (completed asm_init ps))
        \<and> c_next_out c = of_nat (length reps))"

lemma dispatch_reply:
  assumes "reliable env"
  shows "\<exists>rep \<in> possible_replies env (in_header msg) (in_body msg). \<exists>c'.
    dispatch_and_reply env msg c = send_reply env rep (h_request_id (in_header msg)) c'
    \<and> c_written c' = c_written c \<and> c_next_out c' = c_next_out c"
proof -
  let ?h = "in_header msg"
  have run: "\<exists>rep \<in> possible_replies env ?h (in_body msg). \<exists>c''.
      run_action env msg c' = send_reply env rep (h_request_id ?h) c'' \<and> c_written c'' = c_written c' \<and> c_next_out c'' = c_next_out c'"
    if "denial env ?h k = None" for c' k
  proof (cases "env_actions env (action_key ?h)")
    case None
    have "reply_to env ?h (in_body msg) 0 \<in> possible_replies env ?h (in_body msg)"
      using that by (auto simp: possible_replies_def)
    with None show ?thesis
      by (intro bexI [of _ "reply_to env ?h (in_body msg) 0"] exI [of _ c']) (simp_all add: run_action_def reply_to_def Let_def)
  next
    case (Some ra)
    have "reply_to env ?h (in_body msg) (c_calls c') \<in> possible_replies env ?h (in_body msg)"
      using that by (auto simp: possible_replies_def)
    with Some show ?thesis
      by (intro bexI [of _ "reply_to env ?h (in_body msg) (c_calls c')"] exI [of _ "count_call c'"])
        (simp_all add: run_action_def reply_to_def count_call_def Let_def)
  qed
  have denied: "reply_error e ''unauthorized'' \<in> possible_replies env ?h (in_body msg)" if "denial env ?h k = Some e" for k e
    using that by (auto simp: possible_replies_def)
  show ?thesis
  proof (cases "denial env ?h (c_calls c)")
    case (Some e)
    then have "dispatch_and_reply env msg c \<in> {send_reply env (reply_error e ''unauthorized'') (h_request_id ?h) c,
        send_reply env (reply_error e ''unauthorized'') (h_request_id ?h) (count_call c)}"
      by (auto simp: denial_def dispatch_and_reply_def Let_def split: option.splits if_splits)
    with denied [OF Some] show ?thesis
      by (auto simp: count_call_def intro!: bexI [of _ "reply_error e ''unauthorized''"])
  next
    case None
    then have "dispatch_and_reply env msg c \<in> {run_action env msg c, run_action env msg (count_call c)}"
      by (auto simp: denial_def dispatch_and_reply_def Let_def split: option.splits if_splits)
    then show ?thesis
    proof (elim insertE emptyE)
      assume "dispatch_and_reply env msg c = run_action env msg c"
      with run [OF None, of c] show ?thesis by simp
    next
      assume eq: "dispatch_and_reply env msg c = run_action env msg (count_call c)"
      have "c_written (count_call c) = c_written c" "c_next_out (count_call c) = c_next_out c"
        by (simp_all add: count_call_def)
      with run [OF None, of "count_call c"] show ?thesis unfolding eq by simp
    qed
  qed
qed

lemma server_route_message:
  assumes "reliable env"
  shows "(p_type p = Eof \<and> p_body p = [] \<and> asm_open (conn_assembly c) (p_msg_no p) \<noteq> None
      \<longrightarrow> (\<exists>rep h b. asm_open (conn_assembly c) (p_msg_no p) = Some (h, b) \<and> rep \<in> possible_replies env h b
          \<and> c_written (snd (server_route env p c))
              = c_written c @ message_packets (c_next_out c) (reply_header rep (h_request_id h)) (rep_body rep)
          \<and> c_next_out (snd (server_route env p c)) = c_next_out c + 1))
    \<and> (\<not> (p_type p = Eof \<and> p_body p = [] \<and> asm_open (conn_assembly c) (p_msg_no p) \<noteq> None)
      \<longrightarrow> filter is_message_packet (c_written (snd (server_route env p c))) = filter is_message_packet (c_written c)
        \<and> c_next_out (snd (server_route env p c)) = c_next_out c)"
proof (cases "p_type p = Eof \<and> p_body p = [] \<and> asm_open (conn_assembly c) (p_msg_no p) \<noteq> None")
  case True
  then obtain msg where msg: "c_incoming c (p_msg_no p) = Some msg" by auto
  let ?c = "c\<lparr>c_incoming := (c_incoming c)(p_msg_no p := None)\<rparr>"
  have route: "snd (server_route env p c) = dispatch_and_reply env msg ?c"
    using True msg by (simp add: server_route_def Let_def)
  obtain rep c' where rep: "rep \<in> possible_replies env (in_header msg) (in_body msg)"
    "dispatch_and_reply env msg ?c = send_reply env rep (h_request_id (in_header msg)) c'"
    "c_written c' = c_written c" "c_next_out c' = c_next_out c"
    using dispatch_reply [OF assms, of msg ?c] by auto
  then show ?thesis
    using True msg send_reply_reliable [OF assms, of rep "h_request_id (in_header msg)" c']
    by (intro conjI impI exI [of _ rep] exI [of _ "in_header msg"] exI [of _ "in_body msg"]) (simp_all add: route)
next
  case False
  have "filter is_message_packet (c_written (snd (server_route env p c))) = filter is_message_packet (c_written c)
      \<and> c_next_out (snd (server_route env p c)) = c_next_out c"
  proof (cases "p_type p")
    case Header
    then show ?thesis by (auto simp: server_route_def Let_def split: option.split)
  next
    case Data
    then show ?thesis
      by (cases "c_incoming c (p_msg_no p)") (simp_all add: server_route_def Let_def assms is_message_packet_def)
  next
    case Eof
    with False show ?thesis by (auto simp: server_route_def Let_def)
  next
    case Txerr
    then show ?thesis by (simp add: server_route_def Let_def)
  next
    case Ack
    then show ?thesis by (auto simp: server_route_def server_ack_def split: option.split)
  next
    case Ping
    then show ?thesis by (simp add: server_route_def assms is_message_packet_def)
  qed (simp add: server_route_def)
  with False show ?thesis by blast
qed

lemma replies_answer_step:
  assumes "reliable env" and "conn_assembly c = asm_run ps asm_init" and "replies_answer env ps c"
  shows "replies_answer env (ps @ [p]) (snd (server_route env p c))"
proof -
  obtain reps where reps: "list_all2 (\<lambda>rep (n, h, b). rep \<in> possible_replies env h b) reps (completed asm_init ps)"
    "filter is_message_packet (c_written c)
      = numbered_messages 0 (map2 (\<lambda>rep (n, h, b). reply_message rep (h_request_id h)) reps (completed asm_init ps))"
    "c_next_out c = of_nat (length reps)"
    using assms(3) by (auto simp: replies_answer_def)
  have len: "length reps = length (completed asm_init ps)" using reps(1) by (rule list_all2_lengthD)
  note route = server_route_message [OF assms(1), of p c]
  show ?thesis
  proof (cases rule: completes_cases [of "asm_run ps asm_init" p])
    case nothing
    then show ?thesis
      using reps route unfolding replies_answer_def completed_snoc assms(2) by (intro exI [of _ reps]) simp
  next
    case (message h b)
    then obtain rep where rep: "rep \<in> possible_replies env h b"
      "c_written (snd (server_route env p c))
        = c_written c @ message_packets (c_next_out c) (reply_header rep (h_request_id h)) (rep_body rep)"
      "c_next_out (snd (server_route env p c)) = c_next_out c + 1"
      using route unfolding assms(2) by auto
    show ?thesis
      unfolding replies_answer_def completed_snoc message(1)
      using reps rep len
      by (intro exI [of _ "reps @ [rep]"])
        (simp add: list_all2_appendI numbered_messages_append reply_message_def add.commute)
  qed
qed

lemma replies_answer_init: "replies_answer env [] conn_init"
  by (simp add: replies_answer_def conn_init_def)

end
