(* ===== verification/Client_Reader.thy ===== *)
theory Client_Reader
  imports Message "HOL-Library.AList"
begin

text \<open>
  The reading half of a client connection, \<open>scamp/src/transport/beepish/client/reader.rs\<close>:
  \<open>reader_task\<close>, \<open>route_packet\<close> and \<open>notify_all_pending\<close>.

  The record \<open>client\<close> holds the reader's own variables and what it shares with the requests of the
  connection: the pending map (request id to the one-shot channel of the request, which is named by
  a number), the outgoing map with the counters of flow control, the channel to the writer task
  and the wake-up \<open>ack_notify\<close> with its stored permit and its queue of waiting requests.

  The lemmas show that a complete message is delivered to the request it answers and to no other,
  that the end of the reader leaves no request unanswered, and which packets are passed over.
\<close>

subsection \<open>State\<close>

record scamp_response =
  rs_header :: packet_header
  rs_body :: bytes
  rs_error :: "string option"

record incoming_message =
  im_header :: packet_header
  im_body :: bytes
  im_received :: nat

record outgoing_state =
  os_sent :: nat
  os_acknowledged :: nat

definition outgoing_default :: outgoing_state where
  "outgoing_default = \<lparr>os_sent = 0, os_acknowledged = 0\<rparr>"

record client =
  cl_incoming :: "u64 \<rightharpoonup> incoming_message"
  cl_next_in :: u64
  cl_pending :: "(i64 \<times> nat) list"
  cl_answers :: "nat \<rightharpoonup> scamp_response"
  cl_outgoing :: "u64 \<rightharpoonup> outgoing_state"
  cl_writer_alive :: bool
  cl_sent :: "packet list"
  cl_permit :: bool
  cl_waiting :: "nat list"

definition client_init :: client where
  "client_init =
     \<lparr>cl_incoming = Map.empty, cl_next_in = 0, cl_pending = [], cl_answers = Map.empty,
      cl_outgoing = Map.empty, cl_writer_alive = True, cl_sent = [], cl_permit = False,
      cl_waiting = []\<rparr>"

text \<open>Sending to the writer task fails once the task is gone.\<close>

definition writer_send :: "packet \<Rightarrow> client \<Rightarrow> bool \<times> client" where
  "writer_send p s =
     (if cl_writer_alive s then (True, s\<lparr>cl_sent := cl_sent s @ [p]\<rparr>) else (False, s))"

text \<open>\<open>pend.remove(&request_id)\<close> followed by sending the response to the removed channel.\<close>

definition deliver :: "i64 \<Rightarrow> scamp_response \<Rightarrow> client \<Rightarrow> client" where
  "deliver rid r s =
     (case map_of (cl_pending s) rid of
        None \<Rightarrow> s
      | Some t \<Rightarrow> s\<lparr>cl_pending := AList.delete rid (cl_pending s),
                    cl_answers := (cl_answers s)(t \<mapsto> r)\<rparr>)"

text \<open>\<open>Notify::notify_one\<close>: the longest waiting request is woken, or the permit is stored.\<close>

definition notify_one :: "client \<Rightarrow> client" where
  "notify_one s =
     (case cl_waiting s of [] \<Rightarrow> s\<lparr>cl_permit := True\<rparr> | t # ts \<Rightarrow> s\<lparr>cl_waiting := ts\<rparr>)"

subsection \<open>Routing a packet\<close>

definition client_ack_value :: "bytes \<Rightarrow> nat option" where
  "client_ack_value body =
     (case parse_uint u64_max (utf8_lossy body) of
        None \<Rightarrow> None
      | Some v \<Rightarrow> if 0 < v then Some v else None)"

definition client_ack :: "packet \<Rightarrow> client \<Rightarrow> client" where
  "client_ack p s =
     (case client_ack_value (p_body p) of
        None \<Rightarrow> s
      | Some v \<Rightarrow>
          (case cl_outgoing s (p_msg_no p) of
             None \<Rightarrow> s
           | Some st \<Rightarrow>
               if v \<le> os_acknowledged st then s
               else if os_sent st < v then s
               else notify_one
                 (s\<lparr>cl_outgoing := (cl_outgoing s)(p_msg_no p \<mapsto> st\<lparr>os_acknowledged := v\<rparr>)\<rparr>)))"

definition client_route :: "packet \<Rightarrow> client \<Rightarrow> client" where
  "client_route p s =
     (let no = p_msg_no p in
      case p_type p of
        Header \<Rightarrow>
          if no \<noteq> cl_next_in s then s
          else (case p_header p of
                  None \<Rightarrow> s\<lparr>cl_next_in := cl_next_in s + 1\<rparr>
                | Some h \<Rightarrow>
                    s\<lparr>cl_next_in := cl_next_in s + 1,
                      cl_incoming := (cl_incoming s)
                        (no \<mapsto> \<lparr>im_header = h, im_body = [], im_received = 0\<rparr>)\<rparr>)
      | Data \<Rightarrow>
          (case cl_incoming s no of
             None \<Rightarrow> s
           | Some msg \<Rightarrow>
               if p_body p = [] then s
               else (let msg' = msg\<lparr>im_body := im_body msg @ p_body p,
                                    im_received := im_received msg + length (p_body p)\<rparr>
                     in snd (writer_send (ack_packet no (im_received msg'))
                          (s\<lparr>cl_incoming := (cl_incoming s)(no \<mapsto> msg')\<rparr>))))
      | Eof \<Rightarrow>
          if p_body p \<noteq> [] then s
          else (case cl_incoming s no of
                  None \<Rightarrow> s
                | Some msg \<Rightarrow>
                    deliver (h_request_id (im_header msg))
                      \<lparr>rs_header = im_header msg, rs_body = im_body msg, rs_error = None\<rparr>
                      (s\<lparr>cl_incoming := (cl_incoming s)(no := None)\<rparr>))
      | Txerr \<Rightarrow>
          (let body_str = utf8_lossy (p_body p) in
           if body_str = [] \<or> body_str = ''0'' then s
           else (case cl_incoming s no of
                   None \<Rightarrow> s
                 | Some msg \<Rightarrow>
                     deliver (h_request_id (im_header msg))
                       \<lparr>rs_header = im_header msg, rs_body = im_body msg, rs_error = Some body_str\<rparr>
                       (s\<lparr>cl_incoming := (cl_incoming s)(no := None)\<rparr>)))
      | Ack \<Rightarrow> client_ack p s
      | Ping \<Rightarrow> snd (writer_send (pong_packet no) s)
      | Pong \<Rightarrow> s)"

subsection \<open>The reader task\<close>

definition lost_response :: "string \<Rightarrow> scamp_response" where
  "lost_response e = \<lparr>rs_header = default_header, rs_body = [], rs_error = Some e\<rparr>"

definition notify_all_pending :: "string \<Rightarrow> client \<Rightarrow> client" where
  "notify_all_pending e s =
     s\<lparr>cl_pending := [],
       cl_answers := (\<lambda>t. if t \<in> snd ` set (cl_pending s) then Some (lost_response e)
                         else cl_answers s t)\<rparr>"

text \<open>Routing never ends the loop; the reader ends with the stream or on a protocol error.\<close>

definition client_route_step :: "packet \<Rightarrow> client \<Rightarrow> bool \<times> client" where
  "client_route_step p s = (True, client_route p s)"

definition reader_task ::
  "(bytes \<Rightarrow> json option) \<Rightarrow> (bytes \<Rightarrow> string) \<Rightarrow> bytes list \<Rightarrow> client \<Rightarrow> client" where
  "reader_task dec json_err chunks s =
     (case read_loop dec client_route_step [] s chunks of
        ReadEnd s' \<Rightarrow> notify_all_pending ''Connection lost'' s'
      | Overflow s' \<Rightarrow> notify_all_pending ''Connection lost'' s'
      | Closed s' \<Rightarrow> notify_all_pending ''Connection lost'' s'
      | ProtocolError e s' \<Rightarrow>
          notify_all_pending (''Protocol error: '' @ fatal_text json_err e) s')"

subsection \<open>Lemmas\<close>

lemma writer_send_fields [simp]:
  "cl_incoming (snd (writer_send p s)) = cl_incoming s"
  "cl_next_in (snd (writer_send p s)) = cl_next_in s"
  "cl_pending (snd (writer_send p s)) = cl_pending s"
  "cl_answers (snd (writer_send p s)) = cl_answers s"
  "cl_outgoing (snd (writer_send p s)) = cl_outgoing s"
  "cl_writer_alive (snd (writer_send p s)) = cl_writer_alive s"
  "cl_permit (snd (writer_send p s)) = cl_permit s"
  "cl_waiting (snd (writer_send p s)) = cl_waiting s"
  by (simp_all add: writer_send_def)

lemma deliver_fields [simp]:
  "cl_incoming (deliver rid r s) = cl_incoming s"
  "cl_next_in (deliver rid r s) = cl_next_in s"
  "cl_outgoing (deliver rid r s) = cl_outgoing s"
  "cl_writer_alive (deliver rid r s) = cl_writer_alive s"
  "cl_sent (deliver rid r s) = cl_sent s"
  "cl_permit (deliver rid r s) = cl_permit s"
  "cl_waiting (deliver rid r s) = cl_waiting s"
  by (simp_all add: deliver_def split: option.split)

lemma notify_one_fields [simp]:
  "cl_incoming (notify_one s) = cl_incoming s"
  "cl_next_in (notify_one s) = cl_next_in s"
  "cl_pending (notify_one s) = cl_pending s"
  "cl_answers (notify_one s) = cl_answers s"
  "cl_outgoing (notify_one s) = cl_outgoing s"
  "cl_writer_alive (notify_one s) = cl_writer_alive s"
  "cl_sent (notify_one s) = cl_sent s"
  by (simp_all add: notify_one_def split: list.split)

lemma client_ack_fields [simp]:
  "cl_incoming (client_ack p s) = cl_incoming s"
  "cl_next_in (client_ack p s) = cl_next_in s"
  "cl_pending (client_ack p s) = cl_pending s"
  "cl_answers (client_ack p s) = cl_answers s"
  "cl_writer_alive (client_ack p s) = cl_writer_alive s"
  "cl_sent (client_ack p s) = cl_sent s"
  by (simp_all add: client_ack_def split: option.split)

text \<open>The view of the reader as messages under assembly.\<close>

definition client_assembly :: "client \<Rightarrow> assembly" where
  "client_assembly s =
     \<lparr>asm_next = cl_next_in s,
      asm_open = (\<lambda>no. map_option (\<lambda>msg. (im_header msg, im_body msg)) (cl_incoming s no))\<rparr>"

lemma client_assembly_fields [simp]:
  "asm_next (client_assembly s) = cl_next_in s"
  "asm_open (client_assembly s) no
     = map_option (\<lambda>msg. (im_header msg, im_body msg)) (cl_incoming s no)"
  by (simp_all add: client_assembly_def)

lemma client_assembly_cong:
  "cl_incoming s = cl_incoming s' \<Longrightarrow> cl_next_in s = cl_next_in s'
   \<Longrightarrow> client_assembly s = client_assembly s'"
  by (simp add: client_assembly_def)

lemma client_route_abs:
  "client_assembly (snd (client_route_step p s)) = asm_step p (client_assembly s)"
proof (cases "p_type p")
  case Header
  then show ?thesis
    by (auto simp: client_route_step_def client_route_def asm_step_def client_assembly_def Let_def
        fun_eq_iff split: option.split)
next
  case Data
  then show ?thesis
    by (cases "cl_incoming s (p_msg_no p)")
      (auto simp: client_route_step_def client_route_def asm_step_def client_assembly_def Let_def
        fun_eq_iff)
next
  case Eof
  then show ?thesis
    by (cases "cl_incoming s (p_msg_no p)")
      (auto simp: client_route_step_def client_route_def asm_step_def client_assembly_def Let_def
        fun_eq_iff)
next
  case Txerr
  then show ?thesis
    by (cases "cl_incoming s (p_msg_no p)")
      (auto simp: client_route_step_def client_route_def asm_step_def client_assembly_def
        txerr_valid_def Let_def fun_eq_iff)
qed (auto simp: client_route_step_def client_route_def asm_step_def intro: client_assembly_cong)

interpretation client: assembler client_route_step client_assembly
  by unfold_locales (rule client_route_abs)

text \<open>
  What routing keeps: acknowledged never passes sent, and an open message counts its bytes.
\<close>

definition acks_within :: "client \<Rightarrow> bool" where
  "acks_within s \<longleftrightarrow>
     (\<forall>no st. cl_outgoing s no = Some st \<longrightarrow> os_acknowledged st \<le> os_sent st)"

definition client_inv :: "client \<Rightarrow> bool" where
  "client_inv s \<longleftrightarrow>
     acks_within s
     \<and> (\<forall>no msg. cl_incoming s no = Some msg \<longrightarrow> im_received msg = length (im_body msg))"

lemma acks_within_ack: "acks_within s \<Longrightarrow> acks_within (client_ack p s)"
  by (auto simp: acks_within_def client_ack_def split: option.splits)

lemma acks_within_cong: "acks_within s \<Longrightarrow> cl_outgoing s' = cl_outgoing s \<Longrightarrow> acks_within s'"
  by (simp add: acks_within_def)

lemma client_route_inv:
  assumes "client_inv s"
  shows "client_inv (client_route p s)"
proof (cases "p_type p")
  case Header
  with assms show ?thesis
    by (auto simp: client_route_def client_inv_def Let_def split: option.split intro: acks_within_cong)
next
  case Data
  with assms show ?thesis
    by (cases "cl_incoming s (p_msg_no p)")
      (auto simp: client_route_def client_inv_def Let_def intro: acks_within_cong)
next
  case Eof
  with assms show ?thesis
    by (cases "cl_incoming s (p_msg_no p)")
      (auto simp: client_route_def client_inv_def Let_def intro: acks_within_cong)
next
  case Txerr
  with assms show ?thesis
    by (cases "cl_incoming s (p_msg_no p)")
      (auto simp: client_route_def client_inv_def Let_def intro: acks_within_cong)
next
  case Ack
  with assms show ?thesis
    by (auto simp: client_route_def client_inv_def acks_within_ack)
qed (use assms in \<open>auto simp: client_route_def client_inv_def intro: acks_within_cong\<close>)

interpretation client_consumer: packet_consumer client_route_step client_inv
  by unfold_locales (simp add: client_route_step_def client_route_inv)

text \<open>Routing a whole sequence is the fold of the single steps: it never stops early.\<close>

lemma client_route_all: "route_all client_route_step ps s = (True, fold client_route ps s)"
  by (induction ps arbitrary: s) (auto simp: client_route_step_def)

lemma drain_client_not_refused: "drain dec client_route_step buf s \<noteq> Refused s'"
proof (induction "length buf" arbitrary: buf s rule: less_induct)
  case less
  show ?case
  proof (cases "packet_parse dec buf")
    case (Success p n)
    then have "length (drop n buf) < length buf"
      using packet_parse_success_bound [OF Success] by simp
    then have "drain dec client_route_step (drop n buf) (client_route p s) \<noteq> Refused s'"
      by (rule less.hyps)
    with Success show ?thesis
      by (subst drain.simps) (simp add: client_route_step_def)
  qed (subst drain.simps, simp add: packet_parse_no_drop)+
qed

lemma read_loop_client_not_closed: "read_loop dec client_route_step buf s chunks \<noteq> Closed s'"
  by (induction chunks arbitrary: buf s) (auto simp: drain_client_not_refused split: drained.splits)

subsection \<open>Pending requests are never forgotten\<close>

text \<open>Every request that was pending is still pending or has its answer.\<close>

definition accounted :: "nat set \<Rightarrow> client \<Rightarrow> bool" where
  "accounted ts s \<longleftrightarrow>
     distinct (map fst (cl_pending s))
     \<and> (\<forall>t \<in> ts. t \<in> snd ` set (cl_pending s) \<or> cl_answers s t \<noteq> None)"

lemma delete_values:
  assumes "t \<in> snd ` set m" and "map_of m k = Some u" and "distinct (map fst m)"
  shows "t = u \<or> t \<in> snd ` set (AList.delete k m)"
proof -
  from assms(1) obtain k' where kt: "(k', t) \<in> set m" by auto
  show ?thesis
  proof (cases "k' = k")
    case True
    with kt assms(3) have "map_of m k = Some t" by (simp add: map_of_is_SomeI)
    with assms(2) show ?thesis by simp
  next
    case False
    with kt have "(k', t) \<in> set (AList.delete k m)" by (simp add: AList.delete_eq)
    then show ?thesis by force
  qed
qed

lemma accounted_deliver:
  assumes "accounted ts s"
  shows "accounted ts (deliver rid r s)"
proof (cases "map_of (cl_pending s) rid")
  case (Some u)
  have "t = u \<or> t \<in> snd ` set (AList.delete rid (cl_pending s)) \<or> cl_answers s t \<noteq> None"
    if "t \<in> ts" for t
    using assms that delete_values [OF _ Some, of t] unfolding accounted_def by blast
  then show ?thesis
    using assms Some unfolding accounted_def by (simp add: deliver_def distinct_delete) blast
qed (use assms in \<open>simp add: deliver_def\<close>)

lemma accounted_cong:
  "accounted ts s \<Longrightarrow> cl_pending s' = cl_pending s \<Longrightarrow> cl_answers s' = cl_answers s
   \<Longrightarrow> accounted ts s'"
  by (simp add: accounted_def)

lemma client_route_accounted:
  assumes "accounted ts s"
  shows "accounted ts (client_route p s)"
proof (cases "p_type p")
  case Eof
  with assms show ?thesis
    by (auto simp: client_route_def Let_def split: option.split
        intro!: accounted_deliver intro: accounted_cong)
next
  case Txerr
  with assms show ?thesis
    by (auto simp: client_route_def Let_def split: option.split
        intro!: accounted_deliver intro: accounted_cong)
qed (use assms in \<open>auto simp: client_route_def Let_def split: option.split intro: accounted_cong\<close>)

interpretation client_pending: packet_consumer client_route_step "accounted ts" for ts
  by unfold_locales (simp add: client_route_step_def client_route_accounted)

lemma notify_all_answers:
  assumes "accounted ts s" and "t \<in> ts"
  shows "cl_answers (notify_all_pending e s) t \<noteq> None"
  using assms by (auto simp: accounted_def notify_all_pending_def)

text \<open>
  C15: However the connection ends (end of stream, read error, oversized buffer, protocol error),
  every request that was pending has an answer afterwards, its response or an error, and no
  request is pending any more.
\<close>

theorem reader_answers_all:
  assumes "distinct (map fst (cl_pending s))" and "(rid, t) \<in> set (cl_pending s)"
  shows "cl_answers (reader_task dec json_err chunks s) t \<noteq> None
    \<and> cl_pending (reader_task dec json_err chunks s) = []"
proof -
  let ?ts = "snd ` set (cl_pending s)"
  have t: "t \<in> ?ts" using assms(2) by force
  have "accounted ?ts s" using assms(1) by (simp add: accounted_def)
  then have "accounted ?ts (end_state (read_loop dec client_route_step [] s chunks))"
    by (rule client_pending.read_loop_inv)
  from notify_all_answers [OF this t] show ?thesis
    by (auto simp: reader_task_def notify_all_pending_def split: loop_end.splits)
qed

subsection \<open>Delivery\<close>

text \<open>Packet \<open>p\<close> completes the open message \<open>msg\<close>, which answers the pending request \<open>t\<close>.\<close>

definition delivers :: "packet \<Rightarrow> client \<Rightarrow> incoming_message \<Rightarrow> nat \<Rightarrow> bool" where
  "delivers p s msg t \<longleftrightarrow>
     cl_incoming s (p_msg_no p) = Some msg
     \<and> map_of (cl_pending s) (h_request_id (im_header msg)) = Some t
     \<and> cl_answers (client_route p s) = (cl_answers s)(t \<mapsto>
        \<lparr>rs_header = im_header msg, rs_body = im_body msg,
         rs_error = (if p_type p = Txerr then Some (utf8_lossy (p_body p)) else None)\<rparr>)
     \<and> cl_pending (client_route p s) = AList.delete (h_request_id (im_header msg)) (cl_pending s)
     \<and> (p_type p = Eof \<and> p_body p = [] \<or> p_type p = Txerr \<and> txerr_valid (p_body p))"

lemma client_route_delivery:
  assumes "cl_answers (client_route p s) \<noteq> cl_answers s \<or> cl_pending (client_route p s) \<noteq> cl_pending s"
  shows "\<exists>msg t. delivers p s msg t"
  using assms
  by (cases "p_type p")
    (auto simp: client_route_def deliver_def delivers_def Let_def txerr_valid_def
      split: option.splits if_splits)

text \<open>
  A packet gives an answer to at most the one request whose id is in the header of the message
  it completes: the answer carries that header and the assembled body, the error text exactly for
  TXERR, and the request stops being pending.
\<close>

theorem delivery_matches_request:
  assumes "cl_answers (client_route p s) t \<noteq> cl_answers s t"
  shows "\<exists>msg. cl_incoming s (p_msg_no p) = Some msg
    \<and> map_of (cl_pending s) (h_request_id (im_header msg)) = Some t
    \<and> cl_answers (client_route p s) = (cl_answers s)(t \<mapsto>
        \<lparr>rs_header = im_header msg, rs_body = im_body msg,
         rs_error = (if p_type p = Txerr then Some (utf8_lossy (p_body p)) else None)\<rparr>)
    \<and> cl_pending (client_route p s) = AList.delete (h_request_id (im_header msg)) (cl_pending s)
    \<and> (p_type p = Eof \<and> p_body p = [] \<or> p_type p = Txerr \<and> txerr_valid (p_body p))"
proof -
  from assms have "cl_answers (client_route p s) \<noteq> cl_answers s" by auto
  then obtain msg u where msg: "delivers p s msg u"
    using client_route_delivery by blast
  with assms have "u = t" by (auto simp: delivers_def split: if_splits)
  with msg show ?thesis unfolding delivers_def by blast
qed

text \<open>
  A HEADER out of sequence does not close the connection on this side, it makes the client deaf
  to its message: routing all packets of a message under a number that is neither expected nor
  open leaves the reader's state exactly as it was.
\<close>

theorem out_of_sequence_message_ignored:
  assumes "no \<noteq> cl_next_in s" and "cl_incoming s no = None"
  shows "route_all client_route_step (message_packets no h body) s = (True, s)"
proof -
  have "fold client_route (map (data_packet no) bs) s = s" for bs
    using assms by (induction bs) (auto simp: client_route_def)
  moreover have "client_route (header_packet no h) s = s" "client_route (eof_packet no) s = s"
    using assms by (simp_all add: client_route_def)
  ultimately show ?thesis
    by (simp add: client_route_all message_packets_def data_packets_def del: route_all.simps)
qed

lemma client_route_data:
  assumes "cl_incoming s no = Some \<lparr>im_header = h, im_body = b0, im_received = length b0\<rparr>"
    and "cl_writer_alive s" and "[] \<notin> set bs"
  shows "fold client_route (map (data_packet no) bs) s =
    s\<lparr>cl_incoming := (cl_incoming s)(no \<mapsto>
        \<lparr>im_header = h, im_body = b0 @ concat bs, im_received = length (b0 @ concat bs)\<rparr>),
      cl_sent := cl_sent s @ acks_for no (length b0) bs\<rparr>"
  using assms
proof (induction bs arbitrary: s b0)
  case Nil
  then have "(cl_incoming s)(no \<mapsto> \<lparr>im_header = h, im_body = b0, im_received = length b0\<rparr>) = cl_incoming s"
    by (simp add: fun_upd_idem)
  with Nil show ?case by simp
next
  case (Cons b bs)
  let ?s = "s\<lparr>cl_incoming := (cl_incoming s)(no \<mapsto>
      \<lparr>im_header = h, im_body = b0 @ b, im_received = length (b0 @ b)\<rparr>),
      cl_sent := cl_sent s @ [ack_packet no (length (b0 @ b))]\<rparr>"
  have "client_route (data_packet no b) s = ?s"
    using Cons.prems by (auto simp: client_route_def writer_send_def)
  moreover have "fold client_route (map (data_packet no) bs) ?s =
    ?s\<lparr>cl_incoming := (cl_incoming ?s)(no \<mapsto>
        \<lparr>im_header = h, im_body = (b0 @ b) @ concat bs, im_received = length ((b0 @ b) @ concat bs)\<rparr>),
      cl_sent := cl_sent ?s @ acks_for no (length (b0 @ b)) bs\<rparr>"
    using Cons.prems by (intro Cons.IH) simp_all
  ultimately show ?case by (simp add: fun_upd_def add.assoc cong: if_cong)
qed

lemma client_message_routed:
  assumes "no = cl_next_in s" and "cl_writer_alive s"
    and "map_of (cl_pending s) (h_request_id h) = Some t"
  shows "route_all client_route_step (message_packets no h body) s = (True,
    s\<lparr>cl_incoming := (cl_incoming s)(no := None), cl_next_in := no + 1,
      cl_pending := AList.delete (h_request_id h) (cl_pending s),
      cl_answers := (cl_answers s)(t \<mapsto> \<lparr>rs_header = h, rs_body = body, rs_error = None\<rparr>),
      cl_sent := cl_sent s @ acks_for no 0 (chunks_of DATA_CHUNK_SIZE body)\<rparr>)"
proof -
  let ?bs = "chunks_of DATA_CHUNK_SIZE body"
  have bs: "[] \<notin> set ?bs" "concat ?bs = body"
    using chunks_of_bounds by (auto simp: DATA_CHUNK_SIZE_def)
  let ?s1 = "s\<lparr>cl_next_in := no + 1, cl_incoming := (cl_incoming s)
      (no \<mapsto> \<lparr>im_header = h, im_body = [], im_received = 0\<rparr>)\<rparr>"
  have "client_route (header_packet no h) s = ?s1"
    using assms(1) by (simp add: client_route_def Let_def)
  moreover have "fold client_route (map (data_packet no) ?bs) ?s1 =
    ?s1\<lparr>cl_incoming := (cl_incoming ?s1)(no \<mapsto>
        \<lparr>im_header = h, im_body = body, im_received = length body\<rparr>),
      cl_sent := cl_sent ?s1 @ acks_for no 0 ?bs\<rparr>"
    using client_route_data [of ?s1 no h "[]" ?bs] assms(2) bs by simp
  ultimately show ?thesis
    using assms(3)
    by (simp add: client_route_all message_packets_def data_packets_def deliver_def
        client_route_def [of "eof_packet no"] del: route_all.simps)
qed

text \<open>
  A reply that arrives whole and in sequence is delivered: the request it names by its id gets
  the header and the exact body, is no longer pending, every DATA packet is acknowledged with the
  cumulative count, and nothing else changes.
\<close>

theorem reply_delivered:
  assumes "no = cl_next_in s" and "cl_writer_alive s"
    and "map_of (cl_pending s) (h_request_id h) = Some t"
  shows "route_all client_route_step (message_packets no h body) s = (True,
    s\<lparr>cl_incoming := (cl_incoming s)(no := None), cl_next_in := no + 1,
      cl_pending := AList.delete (h_request_id h) (cl_pending s),
      cl_answers := (cl_answers s)(t \<mapsto> \<lparr>rs_header = h, rs_body = body, rs_error = None\<rparr>),
      cl_sent := cl_sent s @ acks_for no 0 (chunks_of DATA_CHUNK_SIZE body)\<rparr>)"
  using assms by (rule client_message_routed)

text \<open>
  However replies are interleaved, the EOF of a message delivers exactly its header and the
  concatenation of its DATA bodies to the request that its header names.
\<close>

theorem interleaved_reply_delivered:
  assumes "in_sequence (cl_next_in s) ps"
    and "of_message no ps = header_packet no h # map (data_packet no) bs"
    and "map_of (cl_pending (fold client_route ps s)) (h_request_id h) = Some t"
  shows "cl_answers (client_route (eof_packet no) (fold client_route ps s)) t =
    Some \<lparr>rs_header = h, rs_body = concat bs, rs_error = None\<rparr>"
proof -
  have "asm_open (client_assembly (fold client_route ps s)) no = Some (h, concat bs)"
    using client_route_all assms(1,2) by (intro client.assembled) auto
  then obtain msg where "cl_incoming (fold client_route ps s) no = Some msg"
    and "im_header msg = h" and "im_body msg = concat bs"
    by auto
  with assms(3) show ?thesis
    by (simp add: client_route_def deliver_def)
qed

subsection \<open>Types on the client side\<close>

text \<open>Responses, and headers of messages coming in, are as a reader can produce them; what is sent is well-formed.\<close>

definition typed_client :: "client \<Rightarrow> bool" where
  "typed_client s \<longleftrightarrow>
     (\<forall>no m. cl_incoming s no = Some m \<longrightarrow> canonical_header (im_header m))
     \<and> (\<forall>t r. cl_answers s t = Some r \<longrightarrow> canonical_header (rs_header r))
     \<and> (\<forall>p \<in> set (cl_sent s). wf_packet p)"

lemma typed_client_init [simp]: "typed_client client_init"
  by (simp add: typed_client_def client_init_def)

lemma typed_client_same:
  "cl_incoming s' = cl_incoming s \<Longrightarrow> cl_answers s' = cl_answers s \<Longrightarrow> cl_sent s' = cl_sent s
    \<Longrightarrow> typed_client s' = typed_client s"
  by (simp add: typed_client_def)

lemma typed_writer_send: "wf_packet p \<Longrightarrow> typed_client s \<Longrightarrow> typed_client (snd (writer_send p s))"
  by (simp add: writer_send_def typed_client_def)

lemma typed_deliver: "canonical_header (rs_header r) \<Longrightarrow> typed_client s \<Longrightarrow> typed_client (deliver rid r s)"
  by (simp add: deliver_def typed_client_def split: option.split)

lemma typed_client_incoming:
  "typed_client s \<Longrightarrow> (\<And>m. x = Some m \<Longrightarrow> canonical_header (im_header m))
    \<Longrightarrow> typed_client (s\<lparr>cl_incoming := (cl_incoming s)(no := x)\<rparr>)"
  by (simp add: typed_client_def)

lemma typed_client_ack: "typed_client (client_ack p s) = typed_client s"
  by (rule typed_client_same) simp_all

lemma client_route_typed:
  assumes "wf_packet p" and "typed_client s"
  shows "typed_client (client_route p s)"
proof -
  have held: "canonical_header (im_header m)" if "cl_incoming s no = Some m" for no m
    using assms(2) that by (simp add: typed_client_def)
  show ?thesis
  proof (cases "p_type p")
    case Header
    with assms show ?thesis
      by (auto simp: client_route_def Let_def typed_client_def wf_packet_def split: option.split)
  next
    case Data
    with assms held show ?thesis
      by (auto simp: client_route_def Let_def wf_packet_def split: option.split
          intro!: typed_writer_send typed_client_incoming)
  next
    case Eof
    with assms held show ?thesis
      by (auto simp: client_route_def Let_def split: option.split intro!: typed_deliver typed_client_incoming)
  next
    case Txerr
    with assms held show ?thesis
      by (auto simp: client_route_def Let_def split: option.split intro!: typed_deliver typed_client_incoming)
  next
    case Ack
    with assms(2) show ?thesis by (simp add: client_route_def typed_client_ack)
  next
    case Ping
    with assms(2) show ?thesis by (auto simp: client_route_def wf_packet_def intro!: typed_writer_send)
  qed (use assms(2) in \<open>simp add: client_route_def\<close>)
qed

interpretation client_types: packet_consumer client_route_step typed_client
  by unfold_locales (simp add: client_route_step_def client_route_typed)

lemma typed_notify_all: "typed_client s \<Longrightarrow> typed_client (notify_all_pending e s)"
  by (simp add: typed_client_def notify_all_pending_def lost_response_def canonical_header_def default_header_def)

lemma reader_task_typed: "typed_client s \<Longrightarrow> typed_client (reader_task dec json_err chunks s)"
  using client_types.read_loop_inv [of s dec "[]" chunks]
  by (auto simp: reader_task_def typed_notify_all split: loop_end.split)

subsection \<open>Witnesses\<close>

definition waiting_client :: client where
  "waiting_client = client_init\<lparr>cl_pending := [(1, 0), (2, 1)]\<rparr>"

definition answer_header :: packet_header where
  "answer_header = default_header\<lparr>h_request_id := 2, h_message_type := Reply\<rparr>"

lemmas waiting_simps = waiting_client_def answer_header_def client_init_def

lemma reader_answers_all_witness:
  "cl_answers (reader_task (\<lambda>b. None) (\<lambda>b. []) [''x'', ''y''] waiting_client) 1 \<noteq> None
   \<and> cl_pending (reader_task (\<lambda>b. None) (\<lambda>b. []) [''x'', ''y''] waiting_client) = []"
  by (rule reader_answers_all [where rid = 2]) (simp_all add: waiting_simps)

lemma delivery_matches_request_witness:
  "\<exists>s p t. cl_answers (client_route p s) t \<noteq> cl_answers s t
    \<and> map_of (cl_pending s) 2 = Some t"
proof -
  let ?s = "client_route (header_packet 0 answer_header) waiting_client"
  have "cl_answers (client_route (eof_packet 0) ?s) 1 \<noteq> cl_answers ?s 1"
    by (simp add: client_route_def waiting_simps deliver_def)
  moreover from delivery_matches_request [OF this]
  have "map_of (cl_pending ?s) 2 = Some 1"
    by (auto simp: client_route_def waiting_simps)
  ultimately show ?thesis by blast
qed

lemma out_of_sequence_message_ignored_witness:
  "route_all client_route_step (message_packets 1 answer_header ''late'') waiting_client
     = (True, waiting_client)"
  by (rule out_of_sequence_message_ignored) (simp_all add: waiting_simps)

lemma reply_delivered_witness:
  "\<exists>s. route_all client_route_step (message_packets 0 answer_header ''yes'') waiting_client = (True, s)
    \<and> cl_answers s 1 = Some \<lparr>rs_header = answer_header, rs_body = ''yes'', rs_error = None\<rparr>
    \<and> cl_pending s = [(1, 0)]"
  using reply_delivered [of 0 waiting_client answer_header 1 "''yes''"]
  by (simp add: waiting_simps del: route_all.simps)

lemma interleaved_reply_delivered_witness:
  "cl_answers (client_route (eof_packet 0) (fold client_route
      [header_packet 0 answer_header, header_packet 1 default_header, data_packet 0 ''a'',
       data_packet 1 ''z'', data_packet 0 ''b''] waiting_client)) 1 =
    Some \<lparr>rs_header = answer_header, rs_body = ''ab'', rs_error = None\<rparr>"
proof -
  let ?ps = "[header_packet 0 answer_header, header_packet 1 default_header, data_packet 0 ''a'',
       data_packet 1 ''z'', data_packet 0 ''b'']"
  have "map_of (cl_pending (fold client_route ?ps waiting_client)) (h_request_id answer_header) = Some 1"
    by (simp add: client_route_def waiting_simps)
  then show ?thesis
    using interleaved_reply_delivered [of waiting_client ?ps 0 answer_header "[''a'', ''b'']" 1]
    by (simp add: of_message_def waiting_client_def client_init_def)
qed

end
