(* ===== verification/Client_Connection.thy ===== *)
theory Client_Connection
  imports Client_Reader
begin

text \<open>
  Requests on a client connection, \<open>scamp/src/transport/beepish/client/connection.rs\<close>:
  \<open>ConnectionHandle::send_request\<close> with its flow control, \<open>cleanup_request\<close>, the writer task, and
  the end of the reader task, all running concurrently on one connection.

  Every call of \<open>send_request\<close> is a task with a program counter; a step of a task is the code from
  one suspension point (a lock, a channel, an atomic shared with others) to the next.  The relation
  \<open>client_step\<close> interleaves the tasks with the reader, the writer and the timeouts.  The number
  taken by \<open>fetch_add\<close> is kept as the count of calls so far; the word on the wire is that count
  modulo \<open>2^64\<close>.

  The lemmas show for every reachable state that each request has sent a prefix of exactly its
  message, that flow control bounds what is in flight and that acknowledgements stay within what
  was sent; and that concurrency breaks two things: the order of HEADER packets, and the wake-up of
  a request waiting for acknowledgements when the connection ends.
\<close>

definition FLOW_CONTROL_WATERMARK :: nat where
  "FLOW_CONTROL_WATERMARK = 65536"

definition DEFAULT_RPC_TIMEOUT_SECS :: nat where
  "DEFAULT_RPC_TIMEOUT_SECS = 75"

text \<open>The capacity of the channel to the writer task.\<close>

definition WRITER_CAPACITY :: nat where
  "WRITER_CAPACITY = 256"

subsection \<open>Tasks\<close>

record request_args =
  rq_action :: string
  rq_version :: i32
  rq_envelope :: envelope_format
  rq_ticket :: string
  rq_client_id :: i64
  rq_body :: bytes

datatype send_error =
    IsClosed
  | ClosedSendingHeader
  | ClosedInFlowControl
  | ClosedSendingData
  | ClosedSendingEof
  | LostWaiting
  | RequestTimedOut

text \<open>The messages of the errors; \<open>dur\<close> is the printed timeout.\<close>

fun send_error_text :: "string \<Rightarrow> send_error \<Rightarrow> string" where
  "send_error_text dur IsClosed = ''Connection is closed''"
| "send_error_text dur ClosedSendingHeader = ''Connection closed while sending header''"
| "send_error_text dur ClosedInFlowControl = ''Connection closed during flow control wait''"
| "send_error_text dur ClosedSendingData = ''Connection closed while sending data''"
| "send_error_text dur ClosedSendingEof = ''Connection closed while sending EOF''"
| "send_error_text dur LostWaiting = ''Connection lost while waiting for response''"
| "send_error_text dur RequestTimedOut = ''Request timed out after '' @ dur"

datatype request_result = Response scamp_response | Failed send_error

datatype pc =
    CheckClosed
  | TakeId
  | TakeNumber
  | RegisterPending
  | RegisterOutgoing
  | SendHeader
  | FlowCheck nat
  | FlowNotified nat
  | FlowWait nat
  | SendData nat
  | CountSent nat nat
  | SendEof
  | Await
  | TimedOut
  | DropOutgoing request_result
  | CleanPending send_error
  | CleanOutgoing send_error
  | Done request_result

record task =
  t_args :: request_args
  t_pc :: pc
  t_id :: nat
  t_no :: nat

datatype reader_state = Reading | Notified | Exited

record connection =
  cn_client :: client
  cn_tasks :: "nat \<rightharpoonup> task"
  cn_next_id :: nat
  cn_next_no :: nat
  cn_reader :: reader_state
  cn_written :: nat

text \<open>The flag \<open>closed\<close> is set after the reader task has ended.\<close>

definition cn_closed :: "connection \<Rightarrow> bool" where
  "cn_closed s \<longleftrightarrow> cn_reader s = Exited"

definition connection_init :: connection where
  "connection_init =
     \<lparr>cn_client = client_init, cn_tasks = Map.empty, cn_next_id = 1, cn_next_no = 0,
      cn_reader = Reading, cn_written = 0\<rparr>"

definition new_task :: "request_args \<Rightarrow> task" where
  "new_task args = \<lparr>t_args = args, t_pc = CheckClosed, t_id = 0, t_no = 0\<rparr>"

abbreviation wire_id :: "task \<Rightarrow> i64" where
  "wire_id tk \<equiv> of_nat (t_id tk)"

abbreviation wire_no :: "task \<Rightarrow> u64" where
  "wire_no tk \<equiv> of_nat (t_no tk)"

definition request_header :: "task \<Rightarrow> packet_header" where
  "request_header tk =
     (let a = t_args tk in
      \<lparr>h_action = rq_action a, h_envelope = rq_envelope a, h_error = None, h_error_code = None,
       h_error_data = None, h_request_id = wire_id tk, h_client_id = rq_client_id a,
       h_ticket = rq_ticket a, h_identifying_token = [], h_message_type = Request,
       h_version = rq_version a\<rparr>)"

definition writer_room :: "connection \<Rightarrow> bool" where
  "writer_room s \<longleftrightarrow>
     \<not> cl_writer_alive (cn_client s)
     \<or> length (cl_sent (cn_client s)) - cn_written s < WRITER_CAPACITY"

text \<open>A send in a task: on success the task goes on at \<open>ok\<close>, otherwise it cleans up.\<close>

definition task_send :: "packet \<Rightarrow> pc \<Rightarrow> send_error \<Rightarrow> task \<Rightarrow> connection \<Rightarrow> (task \<times> connection) option" where
  "task_send p ok err tk s =
     (if \<not> writer_room s then None
      else case writer_send p (cn_client s) of
        (True, cl) \<Rightarrow> Some (tk\<lparr>t_pc := ok\<rparr>, s\<lparr>cn_client := cl\<rparr>)
      | (False, cl) \<Rightarrow> Some (tk\<lparr>t_pc := CleanPending err\<rparr>, s\<lparr>cn_client := cl\<rparr>))"

definition over_watermark :: "u64 \<Rightarrow> client \<Rightarrow> bool" where
  "over_watermark no cl =
     (case cl_outgoing cl no of
        None \<Rightarrow> False
      | Some st \<Rightarrow> FLOW_CONTROL_WATERMARK \<le> os_sent st - os_acknowledged st)"

definition remove_pending :: "i64 \<Rightarrow> client \<Rightarrow> client" where
  "remove_pending rid cl = cl\<lparr>cl_pending := AList.delete rid (cl_pending cl)\<rparr>"

definition remove_outgoing :: "u64 \<Rightarrow> client \<Rightarrow> client" where
  "remove_outgoing no cl = cl\<lparr>cl_outgoing := (cl_outgoing cl)(no := None)\<rparr>"

definition add_sent :: "u64 \<Rightarrow> nat \<Rightarrow> client \<Rightarrow> client" where
  "add_sent no n cl =
     cl\<lparr>cl_outgoing := (case cl_outgoing cl no of
         None \<Rightarrow> cl_outgoing cl
       | Some st \<Rightarrow> (cl_outgoing cl)(no \<mapsto> st\<lparr>os_sent := os_sent st + n\<rparr>))\<rparr>"

text \<open>Where the loop over the body goes at an offset.\<close>

definition loop_pc :: "task \<Rightarrow> nat \<Rightarrow> pc" where
  "loop_pc tk offset = (if offset < length (rq_body (t_args tk)) then FlowCheck offset else SendEof)"

definition chunk_end :: "task \<Rightarrow> nat \<Rightarrow> nat" where
  "chunk_end tk offset = min (offset + DATA_CHUNK_SIZE) (length (rq_body (t_args tk)))"

text \<open>One step of task number \<open>t\<close>; nothing when the task is blocked or done.\<close>

definition task_step :: "nat \<Rightarrow> task \<Rightarrow> connection \<Rightarrow> (task \<times> connection) option" where
  "task_step t tk s =
     (let cl = cn_client s in
      case t_pc tk of
        CheckClosed \<Rightarrow>
          Some (tk\<lparr>t_pc := if cn_closed s then Done (Failed IsClosed) else TakeId\<rparr>, s)
      | TakeId \<Rightarrow>
          Some (tk\<lparr>t_id := cn_next_id s, t_pc := TakeNumber\<rparr>, s\<lparr>cn_next_id := Suc (cn_next_id s)\<rparr>)
      | TakeNumber \<Rightarrow>
          Some (tk\<lparr>t_no := cn_next_no s, t_pc := RegisterPending\<rparr>,
                s\<lparr>cn_next_no := Suc (cn_next_no s)\<rparr>)
      | RegisterPending \<Rightarrow>
          Some (tk\<lparr>t_pc := RegisterOutgoing\<rparr>,
                s\<lparr>cn_client := cl\<lparr>cl_pending := AList.update (wire_id tk) t (cl_pending cl)\<rparr>\<rparr>)
      | RegisterOutgoing \<Rightarrow>
          Some (tk\<lparr>t_pc := SendHeader\<rparr>,
                s\<lparr>cn_client := cl\<lparr>cl_outgoing := (cl_outgoing cl)(wire_no tk \<mapsto> outgoing_default)\<rparr>\<rparr>)
      | SendHeader \<Rightarrow>
          task_send (header_packet (wire_no tk) (request_header tk)) (loop_pc tk 0)
            ClosedSendingHeader tk s
      | FlowCheck offset \<Rightarrow>
          Some (tk\<lparr>t_pc :=
                  (if cn_closed s then CleanPending ClosedInFlowControl
                   else if over_watermark (wire_no tk) cl then FlowNotified offset
                   else SendData offset)\<rparr>, s)
      | FlowNotified offset \<Rightarrow>
          (if cl_permit cl
           then Some (tk\<lparr>t_pc := FlowCheck offset\<rparr>, s\<lparr>cn_client := cl\<lparr>cl_permit := False\<rparr>\<rparr>)
           else Some (tk\<lparr>t_pc := FlowWait offset\<rparr>,
                      s\<lparr>cn_client := cl\<lparr>cl_waiting := cl_waiting cl @ [t]\<rparr>\<rparr>))
      | FlowWait offset \<Rightarrow>
          (if t \<in> set (cl_waiting cl) then None else Some (tk\<lparr>t_pc := FlowCheck offset\<rparr>, s))
      | SendData offset \<Rightarrow>
          task_send
            (data_packet (wire_no tk)
               (take (chunk_end tk offset - offset) (drop offset (rq_body (t_args tk)))))
            (CountSent offset (chunk_end tk offset)) ClosedSendingData tk s
      | CountSent offset end_pos \<Rightarrow>
          Some (tk\<lparr>t_pc := loop_pc tk end_pos\<rparr>,
                s\<lparr>cn_client := add_sent (wire_no tk) (end_pos - offset) cl\<rparr>)
      | SendEof \<Rightarrow>
          task_send (eof_packet (wire_no tk)) Await ClosedSendingEof tk s
      | Await \<Rightarrow>
          (case cl_answers cl t of
             Some r \<Rightarrow> Some (tk\<lparr>t_pc := DropOutgoing (Response r)\<rparr>, s)
           | None \<Rightarrow>
               if t \<in> snd ` set (cl_pending cl) then None
               else Some (tk\<lparr>t_pc :=
                 DropOutgoing (Failed LostWaiting)\<rparr>, s))
      | TimedOut \<Rightarrow>
          Some (tk\<lparr>t_pc := DropOutgoing (Failed RequestTimedOut)\<rparr>,
                s\<lparr>cn_client := remove_pending (wire_id tk) cl\<rparr>)
      | DropOutgoing r \<Rightarrow>
          Some (tk\<lparr>t_pc := Done r\<rparr>, s\<lparr>cn_client := remove_outgoing (wire_no tk) cl\<rparr>)
      | CleanPending e \<Rightarrow>
          Some (tk\<lparr>t_pc := CleanOutgoing e\<rparr>, s\<lparr>cn_client := remove_pending (wire_id tk) cl\<rparr>)
      | CleanOutgoing e \<Rightarrow>
          Some (tk\<lparr>t_pc := Done (Failed e)\<rparr>, s\<lparr>cn_client := remove_outgoing (wire_no tk) cl\<rparr>)
      | Done r \<Rightarrow> None)"

subsection \<open>The connection\<close>

text \<open>
  A packet read may need room in the writer's channel for its answer.  The reader ends at any time
  (end of stream, an error): it first answers what is pending and then sets \<open>closed\<close>.
\<close>

inductive client_step :: "connection \<Rightarrow> connection \<Rightarrow> bool" where
  start: "cn_tasks s t = None
    \<Longrightarrow> client_step s (s\<lparr>cn_tasks := (cn_tasks s)(t \<mapsto> new_task args)\<rparr>)"
| run: "cn_tasks s t = Some tk \<Longrightarrow> task_step t tk s = Some (tk', s')
    \<Longrightarrow> client_step s (s'\<lparr>cn_tasks := (cn_tasks s')(t \<mapsto> tk')\<rparr>)"
| time_out: "cn_tasks s t = Some tk \<Longrightarrow> t_pc tk = Await
    \<Longrightarrow> cl_answers (cn_client s) t = None
    \<Longrightarrow> client_step s (s\<lparr>cn_tasks := (cn_tasks s)(t \<mapsto> tk\<lparr>t_pc := TimedOut\<rparr>)\<rparr>)"
| receive: "cn_reader s = Reading \<Longrightarrow> writer_room s
    \<Longrightarrow> client_step s (s\<lparr>cn_client := client_route p (cn_client s)\<rparr>)"
| reader_end: "cn_reader s = Reading
    \<Longrightarrow> client_step s (s\<lparr>cn_reader := Notified, cn_client := notify_all_pending e (cn_client s)\<rparr>)"
| reader_exit: "cn_reader s = Notified \<Longrightarrow> client_step s (s\<lparr>cn_reader := Exited\<rparr>)"
| write_out: "cl_writer_alive (cn_client s) \<Longrightarrow> cn_written s < length (cl_sent (cn_client s))
    \<Longrightarrow> client_step s (s\<lparr>cn_written := Suc (cn_written s)\<rparr>)"
| writer_fail: "cl_writer_alive (cn_client s)
    \<Longrightarrow> client_step s (s\<lparr>cn_client := (cn_client s)\<lparr>cl_writer_alive := False\<rparr>\<rparr>)"

abbreviation client_steps :: "connection \<Rightarrow> connection \<Rightarrow> bool" where
  "client_steps \<equiv> client_step\<^sup>*\<^sup>*"

definition client_reachable :: "connection \<Rightarrow> bool" where
  "client_reachable s \<longleftrightarrow> client_steps connection_init s"

lemma client_reachable_init [simp]: "client_reachable connection_init"
  by (simp add: client_reachable_def)

lemma client_reachable_step: "client_reachable s \<Longrightarrow> client_step s s' \<Longrightarrow> client_reachable s'"
  unfolding client_reachable_def by (rule rtranclp.rtrancl_into_rtrancl)

lemma client_invariant:
  assumes "client_reachable s" and "I connection_init"
    and "\<And>s s'. client_reachable s \<Longrightarrow> I s \<Longrightarrow> client_step s s' \<Longrightarrow> I s'"
  shows "I s"
  using assms(1) unfolding client_reachable_def
proof (induction rule: rtranclp_induct)
  case (step s s')
  then show ?case
    using assms(3) by (simp add: client_reachable_def)
qed (rule assms(2))

subsection \<open>What a task has sent\<close>

definition request_packets :: "task \<Rightarrow> packet list" where
  "request_packets tk = message_packets (wire_no tk) (request_header tk) (rq_body (t_args tk))"

definition sent_upto :: "task \<Rightarrow> nat \<Rightarrow> packet list" where
  "sent_upto tk k =
     header_packet (wire_no tk) (request_header tk)
       # data_packets (wire_no tk) (take k (rq_body (t_args tk)))"

text \<open>An offset the loop can be at.\<close>

definition at_chunk :: "task \<Rightarrow> nat \<Rightarrow> bool" where
  "at_chunk tk offset \<longleftrightarrow>
     offset < length (rq_body (t_args tk)) \<and> DATA_CHUNK_SIZE dvd offset"

definition progress :: "task \<Rightarrow> packet list \<Rightarrow> bool" where
  "progress tk ps =
     (case t_pc tk of
        CheckClosed \<Rightarrow> True
      | TakeId \<Rightarrow> True
      | TakeNumber \<Rightarrow> True
      | RegisterPending \<Rightarrow> ps = []
      | RegisterOutgoing \<Rightarrow> ps = []
      | SendHeader \<Rightarrow> ps = []
      | FlowCheck offset \<Rightarrow> at_chunk tk offset \<and> ps = sent_upto tk offset
      | FlowNotified offset \<Rightarrow> at_chunk tk offset \<and> ps = sent_upto tk offset
      | FlowWait offset \<Rightarrow> at_chunk tk offset \<and> ps = sent_upto tk offset
      | SendData offset \<Rightarrow> at_chunk tk offset \<and> ps = sent_upto tk offset
      | CountSent offset end_pos \<Rightarrow>
          at_chunk tk offset \<and> end_pos = chunk_end tk offset \<and> ps = sent_upto tk end_pos
      | SendEof \<Rightarrow> ps = sent_upto tk (length (rq_body (t_args tk)))
      | Await \<Rightarrow> ps = request_packets tk
      | TimedOut \<Rightarrow> ps = request_packets tk
      | DropOutgoing r \<Rightarrow> ps = request_packets tk
      | CleanPending e \<Rightarrow> prefix ps (request_packets tk)
      | CleanOutgoing e \<Rightarrow> prefix ps (request_packets tk)
      | Done (Response r) \<Rightarrow> ps = request_packets tk
      | Done (Failed e) \<Rightarrow> prefix ps (request_packets tk))"

text \<open>A task that has its message number.\<close>

definition numbered :: "task \<Rightarrow> bool" where
  "numbered tk \<longleftrightarrow>
     t_pc tk \<notin> {CheckClosed, TakeId, TakeNumber, Done (Failed IsClosed)}"

lemma DATA_CHUNK_pos [simp]: "0 < DATA_CHUNK_SIZE"
  by (simp add: DATA_CHUNK_SIZE_def)

lemma sent_upto_prefix:
  assumes "DATA_CHUNK_SIZE dvd k" and "k \<le> length (rq_body (t_args tk))"
  shows "prefix (sent_upto tk k) (request_packets tk)"
  using data_packets_split [OF assms, of "wire_no tk"]
  by (simp add: sent_upto_def request_packets_def message_packets_def)

lemma sent_upto_all:
  "sent_upto tk (length (rq_body (t_args tk))) @ [eof_packet (wire_no tk)] = request_packets tk"
  by (simp add: sent_upto_def request_packets_def message_packets_def)

lemma sent_upto_chunk:
  assumes "at_chunk tk offset"
  shows "sent_upto tk (chunk_end tk offset) = sent_upto tk offset @
    [data_packet (wire_no tk)
       (take (chunk_end tk offset - offset) (drop offset (rq_body (t_args tk))))]"
proof -
  let ?body = "rq_body (t_args tk)" and ?e = "chunk_end tk offset"
  have e: "offset < ?e" "?e - offset \<le> DATA_CHUNK_SIZE" "?e \<le> length ?body"
    using assms by (auto simp: at_chunk_def chunk_end_def min_def DATA_CHUNK_SIZE_def)
  have "data_packets (wire_no tk) (take ?e ?body)
      = data_packets (wire_no tk) (take offset (take ?e ?body))
        @ data_packets (wire_no tk) (drop offset (take ?e ?body))"
    using assms e by (intro data_packets_split) (auto simp: at_chunk_def)
  also have "drop offset (take ?e ?body) = take (?e - offset) (drop offset ?body)"
    by (simp add: drop_take)
  also have "data_packets (wire_no tk) (take (?e - offset) (drop offset ?body))
      = [data_packet (wire_no tk) (take (?e - offset) (drop offset ?body))]"
    using assms e by (intro data_packets_short) (auto simp: at_chunk_def)
  finally show ?thesis
    using e by (simp add: sent_upto_def min_def)
qed

lemma chunk_end_props:
  assumes "at_chunk tk offset"
  shows "offset < chunk_end tk offset" "chunk_end tk offset - offset \<le> DATA_CHUNK_SIZE"
    "chunk_end tk offset \<le> length (rq_body (t_args tk))"
    "chunk_end tk offset < length (rq_body (t_args tk)) \<Longrightarrow> at_chunk tk (chunk_end tk offset)"
  using assms by (auto simp: at_chunk_def chunk_end_def min_def DATA_CHUNK_SIZE_def)

lemma progress_prefix:
  assumes "progress tk ps" and "numbered tk"
  shows "prefix ps (request_packets tk)"
proof -
  have "prefix (sent_upto tk offset) (request_packets tk)" if "at_chunk tk offset" for offset
    using that by (intro sent_upto_prefix) (auto simp: at_chunk_def)
  moreover have "prefix (sent_upto tk (chunk_end tk offset)) (request_packets tk)"
    if "at_chunk tk offset" for offset
  proof (cases "chunk_end tk offset < length (rq_body (t_args tk))")
    case True
    with chunk_end_props(4) [OF that] show ?thesis
      by (intro sent_upto_prefix) (auto simp: at_chunk_def)
  next
    case False
    with chunk_end_props(3) [OF that] have "chunk_end tk offset = length (rq_body (t_args tk))"
      by simp
    then show ?thesis
      using sent_upto_all [of tk] by (metis prefixI)
  qed
  moreover have "prefix (sent_upto tk (length (rq_body (t_args tk)))) (request_packets tk)"
    using sent_upto_all [of tk] by (metis prefixI)
  ultimately show ?thesis
    using assms
    by (cases "t_pc tk") (auto simp: progress_def numbered_def split: request_result.splits)
qed

text \<open>The parts of a task that a step keeps.\<close>

lemma same_task:
  "t_args (tk\<lparr>t_pc := x\<rparr>) = t_args tk" "t_no (tk\<lparr>t_pc := x\<rparr>) = t_no tk"
  "request_packets (tk\<lparr>t_pc := x\<rparr>) = request_packets tk"
  "sent_upto (tk\<lparr>t_pc := x\<rparr>) = sent_upto tk"
  "at_chunk (tk\<lparr>t_pc := x\<rparr>) = at_chunk tk" "chunk_end (tk\<lparr>t_pc := x\<rparr>) = chunk_end tk"
  by (simp_all add: request_packets_def sent_upto_def at_chunk_def chunk_end_def request_header_def
      fun_eq_iff)

lemma task_send_cases:
  assumes "task_send p ok err tk s = Some (tk', s')"
  obtains (sent) "tk' = tk\<lparr>t_pc := ok\<rparr>"
      "s' = s\<lparr>cn_client := (cn_client s)\<lparr>cl_sent := cl_sent (cn_client s) @ [p]\<rparr>\<rparr>"
  | (failed) "tk' = tk\<lparr>t_pc := CleanPending err\<rparr>" "s' = s" "\<not> cl_writer_alive (cn_client s)"
  using assms by (auto simp: task_send_def writer_send_def split: if_splits)

definition own_packet :: "task \<Rightarrow> packet \<Rightarrow> bool" where
  "own_packet tk p \<longleftrightarrow> p_msg_no p = wire_no tk \<and> is_message_packet p"

lemma task_step_frame:
  assumes "task_step t tk s = Some (tk', s')"
  shows "cn_tasks s' = cn_tasks s" "cn_reader s' = cn_reader s" "cn_written s' = cn_written s"
    "t_args tk' = t_args tk"
    "t_no tk' = (if t_pc tk = TakeNumber then cn_next_no s else t_no tk)"
    "cn_next_no s' = (if t_pc tk = TakeNumber then Suc (cn_next_no s) else cn_next_no s)"
    "t_id tk' = (if t_pc tk = TakeId then cn_next_id s else t_id tk)"
    "cn_next_id s' = (if t_pc tk = TakeId then Suc (cn_next_id s) else cn_next_id s)"
    "numbered tk' \<longrightarrow> t_pc tk = TakeNumber \<or> numbered tk"
  using assms unfolding task_step_def Let_def
  by (cases "t_pc tk"; auto simp: numbered_def split: if_splits option.splits elim!: task_send_cases)+

lemma loop_pc_cases:
  obtains "loop_pc tk k = FlowCheck k" and "k < length (rq_body (t_args tk))"
  | "loop_pc tk k = SendEof" and "length (rq_body (t_args tk)) \<le> k"
  by (cases "k < length (rq_body (t_args tk))") (auto simp: loop_pc_def)

lemma own_packets [simp]:
  "own_packet tk (header_packet (wire_no tk) h)"
  "own_packet tk (data_packet (wire_no tk) b)"
  "own_packet tk (eof_packet (wire_no tk))"
  by (simp_all add: own_packet_def is_message_packet_def)

lemma task_send_progress:
  assumes "task_send p ok err tk s = Some (tk', s')"
    and "own_packet tk p" and "prefix ps (request_packets tk)"
    and "progress (tk\<lparr>t_pc := ok\<rparr>) (ps @ [p])"
  shows "\<exists>q. cl_sent (cn_client s') = cl_sent (cn_client s) @ q
    \<and> (\<forall>p \<in> set q. own_packet tk p) \<and> progress tk' (ps @ q)"
  using assms(1)
proof (cases rule: task_send_cases)
  case sent
  with assms show ?thesis by simp
next
  case failed
  with assms show ?thesis by (simp add: progress_def same_task)
qed

lemma progress_loop:
  assumes "k < length (rq_body (t_args tk)) \<Longrightarrow> at_chunk tk k"
    and "k \<le> length (rq_body (t_args tk))"
  shows "progress (tk\<lparr>t_pc := loop_pc tk k\<rparr>) (sent_upto tk k)"
  using assms by (cases rule: loop_pc_cases [of tk k]) (auto simp: progress_def same_task)

lemma task_step_progress:
  assumes "task_step t tk s = Some (tk', s')" and "numbered tk" and "progress tk ps"
  shows "\<exists>q. cl_sent (cn_client s') = cl_sent (cn_client s) @ q
    \<and> (\<forall>p \<in> set q. own_packet tk p) \<and> progress tk' (ps @ q)"
proof -
  note pre = progress_prefix [OF assms(3,2)]
  note step = assms(1) [unfolded task_step_def Let_def]
  show ?thesis
  proof (cases "t_pc tk")
    case SendHeader
    have "progress (tk\<lparr>t_pc := loop_pc tk 0\<rparr>) (sent_upto tk 0)"
      by (rule progress_loop) (auto simp: at_chunk_def)
    moreover have "ps = []" using assms(3) SendHeader by (simp add: progress_def)
    ultimately show ?thesis
      using step SendHeader pre
      by (intro task_send_progress [of _ "loop_pc tk 0" ClosedSendingHeader tk])
        (auto simp: sent_upto_def)
  next
    case (SendData offset)
    have ps: "at_chunk tk offset" "ps = sent_upto tk offset"
      using assms(3) SendData by (simp_all add: progress_def)
    show ?thesis
      using step SendData pre ps sent_upto_chunk [OF ps(1)]
      by (intro task_send_progress [of _ "CountSent offset (chunk_end tk offset)" ClosedSendingData tk])
        (auto simp: progress_def same_task)
  next
    case SendEof
    have "ps = sent_upto tk (length (rq_body (t_args tk)))"
      using assms(3) SendEof by (simp add: progress_def)
    then show ?thesis
      using step SendEof pre sent_upto_all [of tk]
      by (intro task_send_progress [of _ Await ClosedSendingEof tk]) (auto simp: progress_def same_task)
  next
    case (CountSent offset end_pos)
    have ps: "at_chunk tk offset" "end_pos = chunk_end tk offset" "ps = sent_upto tk end_pos"
      using assms(3) CountSent by (simp_all add: progress_def)
    then have "progress (tk\<lparr>t_pc := loop_pc tk end_pos\<rparr>) (sent_upto tk end_pos)"
      using chunk_end_props [OF ps(1)] by (intro progress_loop) auto
    with step CountSent ps show ?thesis by (auto simp: add_sent_def)
  qed (use step assms(2,3) pre in
      \<open>auto simp: progress_def same_task numbered_def remove_pending_def remove_outgoing_def
         split: if_splits option.splits request_result.split\<close>)
qed

lemma task_step_unnumbered:
  assumes "task_step t tk s = Some (tk', s')" and "\<not> numbered tk"
  shows "cl_sent (cn_client s') = cl_sent (cn_client s)"
    "t_pc tk = TakeNumber \<Longrightarrow> progress tk' []"
  using assms by (auto simp: task_step_def numbered_def Let_def progress_def)

subsection \<open>Invariants of all requests\<close>

definition numbers_ok :: "connection \<Rightarrow> bool" where
  "numbers_ok s \<longleftrightarrow>
     (\<forall>t tk. cn_tasks s t = Some tk \<longrightarrow> numbered tk \<longrightarrow> t_no tk < cn_next_no s)
     \<and> (\<forall>t tk t' tk'. cn_tasks s t = Some tk \<longrightarrow> cn_tasks s t' = Some tk' \<longrightarrow> t \<noteq> t'
          \<longrightarrow> numbered tk \<longrightarrow> numbered tk' \<longrightarrow> t_no tk \<noteq> t_no tk')"

definition streams_ok :: "connection \<Rightarrow> bool" where
  "streams_ok s \<longleftrightarrow>
     (\<forall>p \<in> set (cl_sent (cn_client s)). is_message_packet p
        \<longrightarrow> (\<exists>n < cn_next_no s. p_msg_no p = of_nat n))
     \<and> (\<forall>t tk. cn_tasks s t = Some tk \<longrightarrow> numbered tk
        \<longrightarrow> progress tk (filter (own_packet tk) (cl_sent (cn_client s))))"

text \<open>Steps other than a task's own leave the tasks; the reader and the start add none of their packets.\<close>

lemma numbers_ok_run:
  assumes "numbers_ok s" and "cn_tasks s t = Some tk" and "task_step t tk s = Some (tk', s')"
  shows "numbers_ok (s'\<lparr>cn_tasks := (cn_tasks s')(t \<mapsto> tk')\<rparr>)"
  using assms(1,2) task_step_frame [OF assms(3)] unfolding numbers_ok_def
  by (auto split: if_splits) (fastforce dest: less_imp_neq)+

lemma client_step_numbers:
  assumes "client_step s s'" and "numbers_ok s"
  shows "numbers_ok s'"
  using assms
proof (cases rule: client_step.cases)
  case (run t tk tk' s1)
  with assms show ?thesis by (simp add: numbers_ok_run)
qed (auto simp: numbers_ok_def numbered_def new_task_def)

lemma reachable_numbers: "client_reachable s \<Longrightarrow> numbers_ok s"
  by (erule client_invariant) (simp_all add: numbers_ok_def connection_init_def client_step_numbers [unfolded numbers_ok_def])

lemma client_step_next_no: "client_step s s' \<Longrightarrow> cn_next_no s \<le> cn_next_no s'"
  by (cases rule: client_step.cases) (auto simp: task_step_frame)

lemma client_route_sent:
  "\<exists>q. cl_sent (client_route p s) = cl_sent s @ q \<and> (\<forall>x \<in> set q. \<not> is_message_packet x)"
  by (cases "p_type p")
    (auto simp: client_route_def Let_def writer_send_def is_message_packet_def split: option.split)

lemma own_is_message: "own_packet tk p \<Longrightarrow> is_message_packet p"
  by (simp add: own_packet_def)

lemma filter_own_none:
  "\<forall>p \<in> set ps. \<not> own_packet tk p \<Longrightarrow> filter (own_packet tk) ps = []"
  by simp

lemma own_packet_same:
  "t_no tk' = t_no tk \<Longrightarrow> own_packet tk' = own_packet tk"
  by (simp add: own_packet_def fun_eq_iff)

lemma streams_ok_run:
  assumes "streams_ok s" and "numbers_ok s" and "cn_next_no s' \<le> 2 ^ 64"
    and "cn_tasks s t = Some tk" and step: "task_step t tk s = Some (tk', s')"
  shows "streams_ok (s'\<lparr>cn_tasks := (cn_tasks s')(t \<mapsto> tk')\<rparr>)"
proof (cases "numbered tk")
  case True
  let ?own = "filter (own_packet tk) (cl_sent (cn_client s))"
  have "progress tk ?own" using assms True by (simp add: streams_ok_def)
  from task_step_progress [OF step True this] obtain q where
    q: "cl_sent (cn_client s') = cl_sent (cn_client s) @ q" "\<forall>p \<in> set q. own_packet tk p"
    and prog: "progress tk' (?own @ q)"
    by blast
  have no: "t_pc tk \<noteq> TakeNumber" using True by (auto simp: numbered_def)
  then have same: "t_no tk' = t_no tk" "cn_next_no s' = cn_next_no s"
    using task_step_frame [OF step] by simp_all
  have lt: "t_no tk < cn_next_no s" using assms True by (auto simp: numbers_ok_def)
  have "filter (own_packet tk') (cl_sent (cn_client s')) = ?own @ q"
    using q own_packet_same [OF same(1)] by (simp add: filter_id_conv)
  moreover have "filter (own_packet tk2) (cl_sent (cn_client s'))
      = filter (own_packet tk2) (cl_sent (cn_client s))"
    if "cn_tasks s t2 = Some tk2" "numbered tk2" "t2 \<noteq> t" for t2 tk2
  proof -
    have "t_no tk2 < cn_next_no s" "t_no tk2 \<noteq> t_no tk"
      using assms(2,4) that True unfolding numbers_ok_def by metis+
    then have "wire_no tk2 \<noteq> wire_no tk"
      using lt same assms(3) of_nat_u64_inj [of "t_no tk2" "t_no tk"] by auto
    then have "\<forall>p \<in> set q. \<not> own_packet tk2 p"
      using q(2) by (auto simp: own_packet_def)
    with q show ?thesis by simp
  qed
  moreover have "\<forall>p \<in> set (cl_sent (cn_client s')). is_message_packet p
      \<longrightarrow> (\<exists>n < cn_next_no s'. p_msg_no p = of_nat n)"
    using assms(1) q lt same by (auto simp: streams_ok_def own_packet_def)
  ultimately show ?thesis
    using assms(1) prog task_step_frame(1) [OF step] by (auto simp: streams_ok_def)
next
  case False
  note sent = task_step_unnumbered [OF step False] and frame = task_step_frame [OF step]
  have "progress tk' (filter (own_packet tk') (cl_sent (cn_client s')))" if "numbered tk'"
  proof -
    have num: "t_pc tk = TakeNumber" using frame(9) False that by simp
    then have no: "t_no tk' = cn_next_no s" "cn_next_no s' = Suc (cn_next_no s)" using frame by simp_all
    have "\<not> own_packet tk' p" if p: "p \<in> set (cl_sent (cn_client s))" for p
    proof
      assume own: "own_packet tk' p"
      then obtain n where "n < cn_next_no s" "p_msg_no p = of_nat n"
        using assms(1) p by (auto simp: streams_ok_def own_packet_def)
      with own no assms(3) of_nat_u64_inj [of n "cn_next_no s"] show False
        by (auto simp: own_packet_def)
    qed
    with sent(2) [OF num] show ?thesis by (simp add: sent(1))
  qed
  moreover have "cn_next_no s \<le> cn_next_no s'" using frame(6) by simp
  then have "\<forall>p \<in> set (cl_sent (cn_client s')). is_message_packet p
      \<longrightarrow> (\<exists>n < cn_next_no s'. p_msg_no p = of_nat n)"
    using assms(1) less_le_trans unfolding streams_ok_def sent(1) by metis
  ultimately show ?thesis
    using assms(1) frame(1) by (auto simp: streams_ok_def sent(1))
qed

lemma streams_ok_cong:
  assumes "streams_ok s" and "cn_tasks s' = cn_tasks s" and "cn_next_no s' = cn_next_no s"
    and "cl_sent (cn_client s') = cl_sent (cn_client s) @ q" and "\<forall>x \<in> set q. \<not> is_message_packet x"
  shows "streams_ok s'"
proof -
  have "filter (own_packet tk) q = []" for tk
    using assms(5) by (auto simp: own_packet_def)
  with assms show ?thesis by (auto simp: streams_ok_def)
qed

lemma client_step_streams:
  assumes "client_step s s'" and "streams_ok s" and "numbers_ok s" and "cn_next_no s' \<le> 2 ^ 64"
  shows "streams_ok s'"
  using assms(1)
proof (cases rule: client_step.cases)
  case (run t tk tk' s1)
  with assms show ?thesis by (simp add: streams_ok_run)
next
  case (receive p)
  with client_route_sent [of p "cn_client s"] assms(2) show ?thesis
    by (auto intro: streams_ok_cong)
next
  case (time_out t tk)
  then have "progress tk ps \<longrightarrow> progress (tk\<lparr>t_pc := TimedOut\<rparr>) ps" for ps
    by (simp add: progress_def same_task)
  moreover have "own_packet (tk\<lparr>t_pc := TimedOut\<rparr>) = own_packet tk"
    by (simp add: own_packet_def fun_eq_iff)
  ultimately show ?thesis
    using time_out assms(2) by (auto simp: streams_ok_def numbered_def)
next
  case (start t args)
  with assms(2) show ?thesis
    by (auto simp: streams_ok_def numbered_def new_task_def)
qed (use assms(2) in \<open>auto intro: streams_ok_cong [where q = "[]"] simp: notify_all_pending_def\<close>)

lemma reachable_streams: "client_reachable s \<Longrightarrow> cn_next_no s \<le> 2 ^ 64 \<longrightarrow> streams_ok s"
proof (erule client_invariant)
  show "cn_next_no connection_init \<le> 2 ^ 64 \<longrightarrow> streams_ok connection_init"
    by (simp add: streams_ok_def connection_init_def client_init_def)
next
  fix s s'
  assume "client_reachable s" and "cn_next_no s \<le> 2 ^ 64 \<longrightarrow> streams_ok s" and step: "client_step s s'"
  then show "cn_next_no s' \<le> 2 ^ 64 \<longrightarrow> streams_ok s'"
    using client_step_next_no [OF step] client_step_streams [OF step] reachable_numbers by auto
qed

text \<open>
  C12: Under every interleaving, what a request has put on the connection under its message number is
  a prefix of exactly its message (HEADER, the body in chunks of 2048 bytes, EOF), and the whole
  message once it waits for the answer or has it.  (Up to \<open>2^64\<close> requests per connection, where
  the numbers start to repeat.)
\<close>

theorem request_stream_shape:
  assumes "client_reachable s" and "cn_next_no s \<le> 2 ^ 64"
    and "cn_tasks s t = Some tk" and "numbered tk"
  shows "prefix (filter (own_packet tk) (cl_sent (cn_client s))) (request_packets tk)
    \<and> (t_pc tk = Await \<or> (\<exists>r. t_pc tk = Done (Response r))
       \<longrightarrow> filter (own_packet tk) (cl_sent (cn_client s)) = request_packets tk)"
proof -
  have prog: "progress tk (filter (own_packet tk) (cl_sent (cn_client s)))"
    using reachable_streams [OF assms(1)] assms(2-4) by (simp add: streams_ok_def)
  with progress_prefix [OF prog assms(4)] show ?thesis
    by (auto simp: progress_def)
qed

subsection \<open>Flow control\<close>

text \<open>A state of flow control after \<open>k\<close> counted bytes.\<close>

definition flow :: "nat \<Rightarrow> outgoing_state \<Rightarrow> bool" where
  "flow k st \<longleftrightarrow>
     os_sent st = k \<and> os_acknowledged st \<le> os_sent st
     \<and> os_sent st - os_acknowledged st < FLOW_CONTROL_WATERMARK + DATA_CHUNK_SIZE"

definition below_watermark :: "outgoing_state \<Rightarrow> bool" where
  "below_watermark st \<longleftrightarrow> os_sent st - os_acknowledged st < FLOW_CONTROL_WATERMARK"

definition window :: "task \<Rightarrow> outgoing_state \<Rightarrow> bool" where
  "window tk st =
     (let len = length (rq_body (t_args tk)) in
      case t_pc tk of
        CheckClosed \<Rightarrow> False
      | TakeId \<Rightarrow> False
      | TakeNumber \<Rightarrow> False
      | RegisterPending \<Rightarrow> False
      | RegisterOutgoing \<Rightarrow> False
      | SendHeader \<Rightarrow> flow 0 st
      | FlowCheck offset \<Rightarrow> flow offset st \<and> at_chunk tk offset
      | FlowNotified offset \<Rightarrow> flow offset st \<and> at_chunk tk offset
      | FlowWait offset \<Rightarrow> flow offset st \<and> at_chunk tk offset
      | SendData offset \<Rightarrow> flow offset st \<and> at_chunk tk offset \<and> below_watermark st
      | CountSent offset end_pos \<Rightarrow>
          flow offset st \<and> at_chunk tk offset \<and> below_watermark st \<and> end_pos = chunk_end tk offset
      | SendEof \<Rightarrow> flow len st
      | Await \<Rightarrow> flow len st
      | TimedOut \<Rightarrow> flow len st
      | DropOutgoing r \<Rightarrow> flow len st
      | CleanPending e \<Rightarrow> (\<exists>k \<le> len. flow k st)
      | CleanOutgoing e \<Rightarrow> (\<exists>k \<le> len. flow k st)
      | Done r \<Rightarrow> False)"

definition window_opt :: "task \<Rightarrow> outgoing_state option \<Rightarrow> bool" where
  "window_opt tk x = (case x of None \<Rightarrow> True | Some st \<Rightarrow> window tk st)"

lemma flow_default [simp]: "flow 0 outgoing_default"
  by (simp add: flow_def outgoing_default_def FLOW_CONTROL_WATERMARK_def)

lemma flow_add:
  assumes "flow offset st" and "below_watermark st" and "at_chunk tk offset"
  shows "flow (chunk_end tk offset) (st\<lparr>os_sent := os_sent st + (chunk_end tk offset - offset)\<rparr>)"
  using assms chunk_end_props [OF assms(3)] by (simp add: flow_def below_watermark_def)

lemma window_bounds:
  assumes "window tk st"
  shows "\<exists>k \<le> length (rq_body (t_args tk)). flow k st"
proof -
  have "\<exists>k \<le> length (rq_body (t_args tk)). flow k st" if "flow k st" "at_chunk tk k" for k
    using that by (auto simp: at_chunk_def intro!: exI [of _ k])
  with assms show ?thesis
    by (cases "t_pc tk") (auto simp: window_def Let_def)
qed

lemma window_loop:
  assumes "flow k st" and "k < length (rq_body (t_args tk)) \<Longrightarrow> at_chunk tk k"
    and "k \<le> length (rq_body (t_args tk))"
  shows "window (tk\<lparr>t_pc := loop_pc tk k\<rparr>) st"
  using assms by (cases rule: loop_pc_cases [of tk k]) (auto simp: window_def Let_def same_task)

lemma task_send_outgoing:
  assumes "task_send p ok err tk s = Some (tk', s')"
  shows "cl_outgoing (cn_client s') = cl_outgoing (cn_client s)"
    "tk' = tk\<lparr>t_pc := ok\<rparr> \<or> tk' = tk\<lparr>t_pc := CleanPending err\<rparr>"
  using assms by (auto elim!: task_send_cases)

lemma window_clean: "window tk st \<Longrightarrow> window (tk\<lparr>t_pc := CleanPending e\<rparr>) st"
  using window_bounds by (simp add: window_def Let_def)

lemma task_send_window:
  assumes "task_send p ok err tk s = Some (tk', s')"
    and "window_opt tk (cl_outgoing (cn_client s) no)"
    and "\<And>st. window tk st \<Longrightarrow> window (tk\<lparr>t_pc := ok\<rparr>) st"
  shows "window_opt tk' (cl_outgoing (cn_client s') no)"
  using assms task_send_outgoing [OF assms(1)] window_clean
  by (auto simp: window_opt_def split: option.splits)

lemma task_step_window:
  assumes "task_step t tk s = Some (tk', s')" and "numbered tk"
    and w: "window_opt tk (cl_outgoing (cn_client s) (wire_no tk))"
  shows "window_opt tk' (cl_outgoing (cn_client s') (wire_no tk))"
proof -
  note step = assms(1) [unfolded task_step_def Let_def]
  show ?thesis
  proof (cases "t_pc tk")
    case SendHeader
    with step have "task_send (header_packet (wire_no tk) (request_header tk)) (loop_pc tk 0)
        ClosedSendingHeader tk s = Some (tk', s')" by simp
    then show ?thesis
      using w
      by (rule task_send_window, intro window_loop)
        (use SendHeader in \<open>auto simp: window_def at_chunk_def\<close>)
  next
    case (SendData offset)
    with step obtain p where "task_send p (CountSent offset (chunk_end tk offset)) ClosedSendingData tk s
        = Some (tk', s')" by simp
    then show ?thesis
      using w by (rule task_send_window) (use SendData in \<open>simp add: window_def Let_def same_task\<close>)
  next
    case SendEof
    with step have "task_send (eof_packet (wire_no tk)) Await ClosedSendingEof tk s = Some (tk', s')"
      by simp
    then show ?thesis
      using w by (rule task_send_window) (use SendEof in \<open>simp add: window_def Let_def\<close>)
  next
    case (CountSent offset end_pos)
    show ?thesis
    proof (cases "cl_outgoing (cn_client s) (wire_no tk)")
      case (Some st)
      with w CountSent have st: "flow offset st" "at_chunk tk offset" "below_watermark st"
        and e: "end_pos = chunk_end tk offset"
        by (simp_all add: window_opt_def window_def)
      have "window (tk\<lparr>t_pc := loop_pc tk end_pos\<rparr>) (st\<lparr>os_sent := os_sent st + (end_pos - offset)\<rparr>)"
        using flow_add [OF st(1,3,2)] chunk_end_props [OF st(2)] unfolding e
        by (intro window_loop) auto
      with step CountSent Some show ?thesis by (auto simp: add_sent_def window_opt_def)
    next
      case None
      with step CountSent show ?thesis by (auto simp: add_sent_def window_opt_def)
    qed
  next
    case (FlowCheck offset)
    show ?thesis
    proof (cases "cl_outgoing (cn_client s) (wire_no tk)")
      case (Some st)
      with w FlowCheck have "flow offset st" "at_chunk tk offset"
        by (simp_all add: window_opt_def window_def)
      moreover have "offset \<le> length (rq_body (t_args tk))"
        using calculation by (simp add: at_chunk_def)
      ultimately show ?thesis
        using step FlowCheck Some
        by (auto simp: window_opt_def window_def Let_def same_task over_watermark_def below_watermark_def
            split: if_splits)
    qed (use step FlowCheck in \<open>auto simp: window_opt_def\<close>)
  qed (use step assms(2) w in
      \<open>auto simp: window_opt_def window_def Let_def same_task numbered_def
         remove_pending_def remove_outgoing_def split: if_splits option.splits\<close>)
qed

lemma task_step_outgoing_other:
  assumes "task_step t tk s = Some (tk', s')"
  shows "no \<noteq> wire_no tk \<or> \<not> numbered tk
    \<Longrightarrow> cl_outgoing (cn_client s') no = cl_outgoing (cn_client s) no"
  using assms unfolding task_step_def Let_def
  by (cases "t_pc tk")
    (auto simp: numbered_def add_sent_def remove_pending_def remove_outgoing_def
      split: if_splits option.splits elim!: task_send_cases)

text \<open>Acknowledging narrows a window.\<close>

lemma window_ack:
  assumes "window tk st" and "os_sent st' = os_sent st"
    and "os_acknowledged st \<le> os_acknowledged st'" and "os_acknowledged st' \<le> os_sent st'"
  shows "window tk st'"
proof -
  have "flow k st \<Longrightarrow> flow k st'" for k using assms by (auto simp: flow_def)
  moreover have "below_watermark st \<Longrightarrow> below_watermark st'"
    using assms by (auto simp: below_watermark_def)
  ultimately show ?thesis
    using assms(1) by (cases "t_pc tk") (auto simp: window_def Let_def)
qed

lemma client_route_window:
  assumes "window_opt tk (cl_outgoing s no)"
  shows "window_opt tk (cl_outgoing (client_route p s) no)"
proof (cases "p_type p = Ack")
  case True
  with assms show ?thesis
    by (auto simp: client_route_def client_ack_def window_opt_def
        split: option.splits elim: window_ack)
next
  case False
  then have "cl_outgoing (client_route p s) = cl_outgoing s"
    by (cases "p_type p") (auto simp: client_route_def Let_def split: option.split)
  with assms show ?thesis by simp
qed

lemma client_route_outgoing_dom: "dom (cl_outgoing (client_route p s)) = dom (cl_outgoing s)"
  by (cases "p_type p")
    (auto simp: client_route_def Let_def client_ack_def split: option.splits)

definition windows_ok :: "connection \<Rightarrow> bool" where
  "windows_ok s \<longleftrightarrow>
     (\<forall>no \<in> dom (cl_outgoing (cn_client s)). \<exists>n < cn_next_no s. no = of_nat n)
     \<and> (\<forall>t tk. cn_tasks s t = Some tk \<longrightarrow> numbered tk
        \<longrightarrow> window_opt tk (cl_outgoing (cn_client s) (wire_no tk)))"

lemma windows_ok_run:
  assumes "windows_ok s" and "numbers_ok s" and "cn_next_no s' \<le> 2 ^ 64"
    and "cn_tasks s t = Some tk" and step: "task_step t tk s = Some (tk', s')"
  shows "windows_ok (s'\<lparr>cn_tasks := (cn_tasks s')(t \<mapsto> tk')\<rparr>)"
proof -
  note frame = task_step_frame [OF step] and other = task_step_outgoing_other [OF step]
  have le: "cn_next_no s \<le> cn_next_no s'" using frame(6) by simp
  have lt: "t_no tk2 < cn_next_no s" if "cn_tasks s t2 = Some tk2" "numbered tk2" for t2 tk2
    using assms(2) that by (auto simp: numbers_ok_def)
  have "window_opt tk2 (cl_outgoing (cn_client s') (wire_no tk2))"
    if tk2: "cn_tasks s t2 = Some tk2" "numbered tk2" "t2 \<noteq> t" for t2 tk2
  proof -
    have "wire_no tk2 \<noteq> wire_no tk" if "numbered tk"
    proof -
      have "t_no tk2 \<noteq> t_no tk" using assms(2,4) tk2 that unfolding numbers_ok_def by metis
      then show ?thesis
        using lt [OF tk2(1,2)] lt [OF assms(4) that] le assms(3) of_nat_u64_inj [of "t_no tk2" "t_no tk"]
        by auto
    qed
    then have "cl_outgoing (cn_client s') (wire_no tk2) = cl_outgoing (cn_client s) (wire_no tk2)"
      by (intro other) auto
    with assms(1) tk2 show ?thesis by (simp add: windows_ok_def)
  qed
  moreover have "window_opt tk' (cl_outgoing (cn_client s') (wire_no tk'))" if "numbered tk'"
  proof (cases "numbered tk")
    case True
    then have "t_no tk' = t_no tk" using frame(5) by (auto simp: numbered_def)
    with task_step_window [OF step True] assms(1,4) True show ?thesis by (simp add: windows_ok_def)
  next
    case False
    then have "t_no tk' = cn_next_no s" "cn_next_no s' = Suc (cn_next_no s)" using frame that by auto
    moreover have "of_nat (cn_next_no s) \<notin> dom (cl_outgoing (cn_client s))"
    proof
      assume "of_nat (cn_next_no s) \<in> dom (cl_outgoing (cn_client s))"
      then obtain n where "n < cn_next_no s" "(of_nat (cn_next_no s) :: u64) = of_nat n"
        using assms(1) unfolding windows_ok_def by blast
      then show False
        using of_nat_u64_inj [of n "cn_next_no s"] assms(3) calculation(2) by auto
    qed
    ultimately show ?thesis using other [of "wire_no tk'"] False by (simp add: window_opt_def domIff)
  qed
  moreover have "\<exists>n < cn_next_no s'. no = of_nat n" if "no \<in> dom (cl_outgoing (cn_client s'))" for no
  proof (cases "no = wire_no tk \<and> numbered tk")
    case True
    with lt [OF assms(4)] le show ?thesis using less_le_trans by blast
  next
    case False
    with other [of no] that have "no \<in> dom (cl_outgoing (cn_client s))" by (auto simp: domIff)
    with assms(1) le show ?thesis unfolding windows_ok_def using less_le_trans by blast
  qed
  ultimately show ?thesis
    using frame(1) by (simp add: windows_ok_def)
qed

lemma windows_ok_cong:
  assumes "windows_ok s" and "cn_tasks s' = cn_tasks s" and "cn_next_no s' = cn_next_no s"
    and "cl_outgoing (cn_client s') = cl_outgoing (cn_client s)"
  shows "windows_ok s'"
  using assms by (simp add: windows_ok_def)

lemma client_step_windows:
  assumes "client_step s s'" and "windows_ok s" and "numbers_ok s" and "cn_next_no s' \<le> 2 ^ 64"
  shows "windows_ok s'"
  using assms(1)
proof (cases rule: client_step.cases)
  case (run t tk tk' s1)
  with assms show ?thesis by (simp add: windows_ok_run)
next
  case (receive p)
  with assms(2) show ?thesis
    by (simp add: windows_ok_def client_route_outgoing_dom client_route_window)
next
  case (time_out t tk)
  with assms(2) have "window_opt tk x \<longrightarrow> window_opt (tk\<lparr>t_pc := TimedOut\<rparr>) x" for x
    by (auto simp: window_opt_def window_def Let_def split: option.split)
  with time_out assms(2) show ?thesis
    by (auto simp: windows_ok_def numbered_def)
next
  case (start t args)
  with assms(2) show ?thesis
    by (auto simp: windows_ok_def numbered_def new_task_def)
qed (use assms(2) in \<open>auto intro: windows_ok_cong simp: notify_all_pending_def\<close>)

lemma reachable_windows: "client_reachable s \<Longrightarrow> cn_next_no s \<le> 2 ^ 64 \<longrightarrow> windows_ok s"
proof (erule client_invariant)
  show "cn_next_no connection_init \<le> 2 ^ 64 \<longrightarrow> windows_ok connection_init"
    by (simp add: windows_ok_def connection_init_def client_init_def)
next
  fix s s'
  assume "client_reachable s" and "cn_next_no s \<le> 2 ^ 64 \<longrightarrow> windows_ok s" and step: "client_step s s'"
  then show "cn_next_no s' \<le> 2 ^ 64 \<longrightarrow> windows_ok s'"
    using client_step_next_no [OF step] client_step_windows [OF step] reachable_numbers by auto
qed

text \<open>
  C13: Flow control under every interleaving of requests, acknowledgements and failures: of a request
  in progress never more than the watermark plus one chunk less a byte (67,583 bytes) is counted as
  sent and unacknowledged, acknowledged never passes sent, sent never passes the body; and a
  finished request leaves no flow-control entry behind.
\<close>

theorem flow_control_bounds:
  assumes "client_reachable s" and "cn_next_no s \<le> 2 ^ 64"
    and "cn_tasks s t = Some tk" and "numbered tk"
  shows "case cl_outgoing (cn_client s) (wire_no tk) of
      None \<Rightarrow> True
    | Some st \<Rightarrow> os_acknowledged st \<le> os_sent st \<and> os_sent st \<le> length (rq_body (t_args tk))
        \<and> os_sent st - os_acknowledged st \<le> 67583 \<and> (\<forall>r. t_pc tk \<noteq> Done r)"
proof (cases "cl_outgoing (cn_client s) (wire_no tk)")
  case (Some st)
  have w: "window tk st"
    using reachable_windows [OF assms(1)] assms(2-4) Some by (force simp: windows_ok_def window_opt_def)
  from window_bounds [OF w] w Some show ?thesis
    by (auto simp: flow_def FLOW_CONTROL_WATERMARK_def DATA_CHUNK_SIZE_def window_def Let_def)
qed simp

subsection \<open>Answers belong to their requests\<close>

definition has_id :: "task \<Rightarrow> bool" where
  "has_id tk \<longleftrightarrow> t_pc tk \<noteq> CheckClosed \<and> t_pc tk \<noteq> TakeId"

definition answers_request :: "scamp_response \<Rightarrow> task \<Rightarrow> bool" where
  "answers_request r tk \<longleftrightarrow>
     h_request_id (rs_header r) = wire_id tk \<or> (\<exists>e. r = lost_response e)"

definition owners_ok :: "connection \<Rightarrow> bool" where
  "owners_ok s \<longleftrightarrow>
     (\<forall>(rid, t) \<in> set (cl_pending (cn_client s)).
        \<exists>tk. cn_tasks s t = Some tk \<and> has_id tk \<and> rid = wire_id tk)
     \<and> (\<forall>t r. cl_answers (cn_client s) t = Some r
        \<longrightarrow> (\<exists>tk. cn_tasks s t = Some tk \<and> has_id tk \<and> answers_request r tk))
     \<and> (\<forall>t tk r. cn_tasks s t = Some tk \<longrightarrow> t_pc tk \<in> {DropOutgoing (Response r), Done (Response r)}
        \<longrightarrow> answers_request r tk)"

lemma task_step_owner:
  assumes "task_step t tk s = Some (tk', s')"
  shows "cl_answers (cn_client s') = cl_answers (cn_client s)"
    "set (cl_pending (cn_client s')) \<subseteq> set (cl_pending (cn_client s)) \<union> {(wire_id tk, t)}"
    "\<not> has_id tk \<Longrightarrow> cl_pending (cn_client s') = cl_pending (cn_client s)"
    "has_id tk \<Longrightarrow> has_id tk' \<and> t_id tk' = t_id tk"
    "t_pc tk' \<in> {DropOutgoing (Response r), Done (Response r)}
       \<Longrightarrow> cl_answers (cn_client s) t = Some r \<or> t_pc tk = DropOutgoing (Response r)"
proof -
  note step = assms [unfolded task_step_def Let_def]
  have "set (AList.update k v m) \<subseteq> set m \<union> {(k, v)}" for k :: i64 and v :: nat and m
    by (induction m) auto
  then have update: "set (AList.update (wire_id tk) t (cl_pending (cn_client s)))
      \<subseteq> set (cl_pending (cn_client s)) \<union> {(wire_id tk, t)}" .
  show "cl_answers (cn_client s') = cl_answers (cn_client s)"
    using step by (cases "t_pc tk")
      (auto simp: remove_pending_def remove_outgoing_def add_sent_def
        split: if_splits option.splits elim!: task_send_cases)
  show "set (cl_pending (cn_client s')) \<subseteq> set (cl_pending (cn_client s)) \<union> {(wire_id tk, t)}"
    using step update by (cases "t_pc tk")
      (auto simp: remove_pending_def remove_outgoing_def add_sent_def AList.delete_eq
        split: if_splits option.splits elim!: task_send_cases)
  show "\<not> has_id tk \<Longrightarrow> cl_pending (cn_client s') = cl_pending (cn_client s)"
    using step by (cases "t_pc tk") (auto simp: has_id_def)
  show "has_id tk \<Longrightarrow> has_id tk' \<and> t_id tk' = t_id tk"
    using step by (cases "t_pc tk")
      (auto simp: has_id_def loop_pc_def split: if_splits option.splits elim!: task_send_cases)
  show "t_pc tk' \<in> {DropOutgoing (Response r), Done (Response r)}
       \<Longrightarrow> cl_answers (cn_client s) t = Some r \<or> t_pc tk = DropOutgoing (Response r)"
    using step by (cases "t_pc tk")
      (auto simp: loop_pc_def split: if_splits option.splits elim!: task_send_cases)
qed

lemma answers_request_same: "t_id tk' = t_id tk \<Longrightarrow> answers_request r tk' = answers_request r tk"
  by (simp add: answers_request_def)

lemma owners_ok_run:
  assumes "owners_ok s" and tk: "cn_tasks s t = Some tk" and step: "task_step t tk s = Some (tk', s')"
  shows "owners_ok (s'\<lparr>cn_tasks := (cn_tasks s')(t \<mapsto> tk')\<rparr>)"
proof -
  note own = task_step_owner [OF step] and tasks = task_step_frame(1) [OF step]
  have pend: "\<exists>tk2. ((cn_tasks s)(t \<mapsto> tk')) t2 = Some tk2 \<and> has_id tk2 \<and> rid = wire_id tk2"
    if "(rid, t2) \<in> set (cl_pending (cn_client s'))" for rid t2
  proof (cases "(rid, t2) \<in> set (cl_pending (cn_client s))")
    case True
    with assms(1) obtain tk2 where "cn_tasks s t2 = Some tk2" "has_id tk2" "rid = wire_id tk2"
      unfolding owners_ok_def by blast
    with own(4) tk show ?thesis by (cases "t2 = t") auto
  next
    case False
    with own(2) that have "rid = wire_id tk" "t2 = t" by auto
    moreover have "has_id tk" using own(3) False that by metis
    ultimately show ?thesis using own(4) by auto
  qed
  have ans: "\<exists>tk2. ((cn_tasks s)(t \<mapsto> tk')) t2 = Some tk2 \<and> has_id tk2 \<and> answers_request r tk2"
    if a: "cl_answers (cn_client s) t2 = Some r" for t2 r
  proof -
    obtain tk2 where tk2: "cn_tasks s t2 = Some tk2" "has_id tk2" "answers_request r tk2"
      using assms(1) a unfolding owners_ok_def by blast
    show ?thesis
    proof (cases "t2 = t")
      case True
      with tk2 tk have "has_id tk" "answers_request r tk" by simp_all
      with own(4) have "has_id tk'" "answers_request r tk'"
        using answers_request_same [of tk' tk r] by simp_all
      with True show ?thesis by simp
    qed (use tk2 in simp)
  qed
  have "answers_request r tk'" if fin: "t_pc tk' \<in> {DropOutgoing (Response r), Done (Response r)}" for r
  proof -
    from own(5) [OF fin] show ?thesis
    proof
      assume "cl_answers (cn_client s) t = Some r"
      from ans [OF this] show ?thesis by auto
    next
      assume pc: "t_pc tk = DropOutgoing (Response r)"
      then have "answers_request r tk" using assms(1) tk unfolding owners_ok_def by blast
      moreover have "has_id tk" using pc by (simp add: has_id_def)
      ultimately show ?thesis using own(4) answers_request_same by blast
    qed
  qed
  then have "answers_request r tku"
    if "((cn_tasks s)(t \<mapsto> tk')) u = Some tku" "t_pc tku \<in> {DropOutgoing (Response r), Done (Response r)}"
    for u tku r
    using that assms(1) unfolding owners_ok_def by (cases "u = t") auto
  with pend ans show ?thesis
    unfolding owners_ok_def by (auto simp: own(1) tasks simp del: fun_upd_apply)
qed

lemma owners_ok_client:
  assumes "owners_ok s"
    and "set (cl_pending cl) \<subseteq> set (cl_pending (cn_client s))"
    and "\<And>t r. cl_answers cl t = Some r \<Longrightarrow> cl_answers (cn_client s) t = Some r
      \<or> (\<exists>rid. (rid, t) \<in> set (cl_pending (cn_client s))
          \<and> (h_request_id (rs_header r) = rid \<or> (\<exists>e. r = lost_response e)))"
  shows "owners_ok (s\<lparr>cn_client := cl\<rparr>)"
proof -
  have "\<exists>tk. cn_tasks s t = Some tk \<and> has_id tk \<and> answers_request r tk"
    if "cl_answers cl t = Some r" for t r
    using assms(3) [OF that] assms(1) unfolding owners_ok_def answers_request_def by blast
  moreover have "\<forall>(rid, t) \<in> set (cl_pending cl).
      \<exists>tk. cn_tasks s t = Some tk \<and> has_id tk \<and> rid = wire_id tk"
    using assms(1,2) unfolding owners_ok_def by blast
  ultimately show ?thesis
    using assms(1) unfolding owners_ok_def by simp
qed

lemma client_step_owners:
  assumes "client_step s s'" and "owners_ok s"
  shows "owners_ok s'"
  using assms(1)
proof (cases rule: client_step.cases)
  case (run t tk tk' s1)
  with assms show ?thesis by (simp add: owners_ok_run)
next
  case (receive p)
  let ?cl = "cn_client s"
  have "owners_ok (s\<lparr>cn_client := client_route p ?cl\<rparr>)"
  proof (cases "cl_answers (client_route p ?cl) \<noteq> cl_answers ?cl \<or> cl_pending (client_route p ?cl) \<noteq> cl_pending ?cl")
    case True
    then obtain msg t where d: "delivers p ?cl msg t" using client_route_delivery by blast
    then have "(h_request_id (im_header msg), t) \<in> set (cl_pending ?cl)"
      by (auto simp: delivers_def dest: map_of_SomeD)
    with d assms(2) show ?thesis
      by (intro owners_ok_client) (auto simp: delivers_def AList.delete_eq split: if_splits)
  next
    case False
    with assms(2) show ?thesis by (intro owners_ok_client) auto
  qed
  with receive show ?thesis by simp
next
  case (reader_end e)
  have "owners_ok (s\<lparr>cn_client := notify_all_pending e (cn_client s)\<rparr>)"
    using assms(2) by (intro owners_ok_client) (force simp: notify_all_pending_def split: if_splits)+
  with reader_end show ?thesis by (simp add: owners_ok_def)
next
  case (time_out t tk)
  with assms(2) show ?thesis
    by (auto simp: owners_ok_def has_id_def answers_request_def)
next
  case (start t args)
  with assms(2) show ?thesis
    by (force simp: owners_ok_def new_task_def)
qed (use assms(2) in \<open>simp_all add: owners_ok_def\<close>)

lemma reachable_owners: "client_reachable s \<Longrightarrow> owners_ok s"
proof (erule client_invariant)
  show "owners_ok connection_init"
    by (simp add: owners_ok_def connection_init_def client_init_def)
qed (rule client_step_owners)

text \<open>
  A request returns no other request's answer: under every interleaving, a call that returns a
  response returns one whose header carries the id the call took, or the notice that the
  connection was lost.
\<close>

theorem response_belongs_to_request:
  assumes "client_reachable s" and "cn_tasks s t = Some tk" and "t_pc tk = Done (Response r)"
  shows "h_request_id (rs_header r) = wire_id tk \<or> (\<exists>e. r = lost_response e)"
  using reachable_owners [OF assms(1)] assms(2,3)
  by (auto simp: owners_ok_def answers_request_def)

subsection \<open>Two runs that go wrong\<close>

definition run_task :: "nat \<Rightarrow> connection \<Rightarrow> connection" where
  "run_task t s =
     (case cn_tasks s t of
        None \<Rightarrow> s
      | Some tk \<Rightarrow>
          (case task_step t tk s of
             None \<Rightarrow> s
           | Some (tk', s') \<Rightarrow> s'\<lparr>cn_tasks := (cn_tasks s')(t \<mapsto> tk')\<rparr>))"

lemma run_task_reachable: "client_reachable s \<Longrightarrow> client_reachable (run_task t s)"
  by (auto simp: run_task_def split: option.split intro: client_reachable_step client_step.run)

lemma run_tasks_reachable: "client_reachable s \<Longrightarrow> client_reachable (fold run_task ts s)"
  by (induction ts arbitrary: s) (auto intro: run_task_reachable)

definition call :: "nat \<Rightarrow> request_args \<Rightarrow> connection \<Rightarrow> connection" where
  "call t args s = s\<lparr>cn_tasks := (cn_tasks s)(t \<mapsto> new_task args)\<rparr>"

lemma call_reachable: "client_reachable s \<Longrightarrow> cn_tasks s t = None \<Longrightarrow> client_reachable (call t args s)"
  unfolding call_def by (rule client_reachable_step [OF _ client_step.start])

text \<open>Two calls; the second overtakes the first between taking its number and sending.\<close>

definition overtaking :: "request_args \<Rightarrow> request_args \<Rightarrow> connection" where
  "overtaking a b =
     fold run_task [0, 0, 0, 1, 1, 1, 1, 1, 1, 0, 0, 0] (call 1 b (call 0 a connection_init))"

lemma overtaking_reachable: "client_reachable (overtaking a b)"
  unfolding overtaking_def
  by (intro run_tasks_reachable call_reachable client_reachable_init)
    (simp_all add: call_def connection_init_def)

lemmas run_simps = run_task_def task_step_def task_send_def writer_send_def writer_room_def
  WRITER_CAPACITY_def cn_closed_def

lemma overtaking_sent:
  "\<exists>h h'. cl_sent (cn_client (overtaking a b)) = [header_packet 1 h, header_packet 0 h']"
  by (simp add: overtaking_def call_def connection_init_def client_init_def new_task_def run_simps) blast

text \<open>A lone request that has sent \<open>k\<close> chunks without any acknowledgement.\<close>

definition sending :: "request_args \<Rightarrow> nat \<Rightarrow> packet list \<Rightarrow> connection" where
  "sending a k ps =
     \<lparr>cn_client = client_init\<lparr>cl_pending := [(1, 0)],
        cl_outgoing := [0 \<mapsto> \<lparr>os_sent = 2048 * k, os_acknowledged = 0\<rparr>], cl_sent := ps\<rparr>,
      cn_tasks = [0 \<mapsto> \<lparr>t_args = a, t_pc = FlowCheck (2048 * k), t_id = 1, t_no = 0\<rparr>],
      cn_next_id = 2, cn_next_no = 1, cn_reader = Reading, cn_written = 0\<rparr>"

lemma sending_start:
  assumes "rq_body a \<noteq> []"
  shows "\<exists>p. fold run_task [0, 0, 0, 0, 0, 0] (call 0 a connection_init) = sending a 0 [p]"
  using assms
  by (simp add: call_def connection_init_def client_init_def new_task_def run_simps sending_def
      loop_pc_def outgoing_default_def numeral_2_eq_2)

lemma sending_step:
  assumes "2048 * k + 2048 < length (rq_body a)" and "k < 32" and "length ps < 256"
  shows "\<exists>p. fold run_task [0, 0, 0] (sending a k ps) = sending a (Suc k) (ps @ [p])"
  using assms
  by (simp add: sending_def client_init_def run_simps over_watermark_def FLOW_CONTROL_WATERMARK_def
      chunk_end_def loop_pc_def add_sent_def DATA_CHUNK_SIZE_def min_def add.commute)

lemma sending_reachable:
  assumes "65536 < length (rq_body a)" and "k \<le> 32"
  shows "\<exists>ps. client_reachable (sending a k ps) \<and> length ps = Suc k"
  using assms(2)
proof (induction k)
  case 0
  have "rq_body a \<noteq> []" using assms(1) by auto
  from sending_start [OF this] obtain p
    where p: "fold run_task [0, 0, 0, 0, 0, 0] (call 0 a connection_init) = sending a 0 [p]" by blast
  have "client_reachable (call 0 a connection_init)"
    by (rule call_reachable) (simp_all add: connection_init_def [THEN arg_cong, of cn_tasks])
  from run_tasks_reachable [OF this, of "[0, 0, 0, 0, 0, 0]"] show ?case
    unfolding p by (intro exI [of _ "[p]"]) simp
next
  case (Suc k)
  then obtain ps where ps: "client_reachable (sending a k ps)" "length ps = Suc k" by auto
  have "2048 * k + 2048 < length (rq_body a)" using Suc.prems assms(1) by simp
  then obtain p where p: "fold run_task [0, 0, 0] (sending a k ps) = sending a (Suc k) (ps @ [p])"
    using sending_step [of k a ps] Suc.prems ps(2) by auto
  from run_tasks_reachable [OF ps(1), of "[0, 0, 0]"] show ?case
    unfolding p using ps(2) by (intro exI [of _ "ps @ [p]"]) simp
qed

text \<open>The reader has ended while request \<open>t\<close> waits for an acknowledgement.\<close>

definition stuck :: "nat \<Rightarrow> task \<Rightarrow> connection \<Rightarrow> bool" where
  "stuck t tk s \<longleftrightarrow>
     cn_tasks s t = Some tk \<and> (\<exists>offset. t_pc tk = FlowWait offset)
     \<and> t \<in> set (cl_waiting (cn_client s)) \<and> cn_reader s \<noteq> Reading"

lemma task_step_waiting:
  assumes "task_step t tk s = Some (tk', s')"
  shows "set (cl_waiting (cn_client s)) \<subseteq> set (cl_waiting (cn_client s'))"
  using assms unfolding task_step_def Let_def
  by (cases "t_pc tk")
    (auto simp: remove_pending_def remove_outgoing_def add_sent_def
      split: if_splits option.splits elim!: task_send_cases)

lemma stuck_step:
  assumes "client_step s s'" and "stuck t tk s"
  shows "stuck t tk s'"
  using assms(1)
proof (cases rule: client_step.cases)
  case (run u tku tk' s1)
  have "u \<noteq> t"
  proof
    assume "u = t"
    with run(2,3) assms(2) show False by (auto simp: stuck_def task_step_def)
  qed
  with run assms(2) task_step_frame(1,2) [OF run(3)] task_step_waiting [OF run(3)] show ?thesis
    by (auto simp: stuck_def)
next
  case (time_out u tku)
  with assms(2) show ?thesis by (auto simp: stuck_def)
next
  case (start u args)
  with assms(2) show ?thesis by (auto simp: stuck_def)
qed (use assms(2) in \<open>auto simp: stuck_def\<close>)

lemma stuck_steps: "client_steps s s' \<Longrightarrow> stuck t tk s \<Longrightarrow> stuck t tk s'"
  by (induction rule: rtranclp_induct) (auto intro: stuck_step)

text \<open>
  C9: A request whose body is longer than the watermark can hang for ever: after 65536
  unacknowledged bytes it waits for a wake-up that only an acknowledgement gives.  If the connection
  ends then, the request is marked as answered and the connection as closed, but the call never
  takes another step, in no continuation: its timeout only covers the wait for the response.
\<close>

theorem closed_connection_leaves_sender_waiting:
  assumes "65536 < length (rq_body a)"
  shows "\<exists>s tk. client_reachable s \<and> cn_closed s \<and> cn_tasks s 0 = Some tk \<and> t_args tk = a
    \<and> cl_answers (cn_client s) 0 = Some (lost_response ''Connection lost'')
    \<and> (\<forall>s'. client_steps s s' \<longrightarrow> cn_tasks s' 0 = Some tk)
    \<and> (\<forall>r. t_pc tk \<noteq> Done r)"
proof -
  obtain ps where ps: "client_reachable (sending a 32 ps)"
    using sending_reachable [OF assms, of 32] by blast
  define tk where "tk = \<lparr>t_args = a, t_pc = FlowWait 65536, t_id = 1, t_no = 0\<rparr>"
  define s1 where "s1 = fold run_task [0, 0] (sending a 32 ps)"
  have s1: "cn_tasks s1 = [0 \<mapsto> tk]" "cl_waiting (cn_client s1) = [0]" "cn_reader s1 = Reading"
    "cl_pending (cn_client s1) = [(1, 0)]"
    by (simp_all add: s1_def tk_def sending_def client_init_def run_simps over_watermark_def
        FLOW_CONTROL_WATERMARK_def)
  have "client_reachable s1" unfolding s1_def by (rule run_tasks_reachable [OF ps])
  define s2 where "s2 = s1\<lparr>cn_reader := Notified,
      cn_client := notify_all_pending ''Connection lost'' (cn_client s1)\<rparr>"
  define s3 where "s3 = s2\<lparr>cn_reader := Exited\<rparr>"
  have "client_reachable s2"
    unfolding s2_def by (rule client_reachable_step [OF \<open>client_reachable s1\<close>]) (rule reader_end [OF s1(3)])
  then have s3: "client_reachable s3"
    unfolding s3_def by (rule client_reachable_step) (rule reader_exit, simp add: s2_def)
  have "stuck 0 tk s3"
    using s1 by (simp add: stuck_def s3_def s2_def tk_def notify_all_pending_def)
  then have "\<forall>s'. client_steps s3 s' \<longrightarrow> cn_tasks s' 0 = Some tk"
    using stuck_steps unfolding stuck_def by blast
  moreover have "cn_closed s3" by (simp add: cn_closed_def s3_def)
  moreover have "cl_answers (cn_client s3) 0 = Some (lost_response ''Connection lost'')"
    using s1(4) by (simp add: s3_def s2_def notify_all_pending_def)
  ultimately show ?thesis
    using s3 by (intro exI [of _ s3] exI [of _ tk]) (auto simp: tk_def)
qed

subsection \<open>Waking a lone request\<close>

text \<open>
  When only request \<open>t\<close> uses the connection, it waits for a wake-up only while its window is full.
\<close>

definition wakeable :: "nat \<Rightarrow> connection \<Rightarrow> bool" where
  "wakeable t s \<longleftrightarrow>
     dom (cn_tasks s) \<subseteq> {t} \<longrightarrow>
       (cl_waiting (cn_client s) = []
         \<or> cl_waiting (cn_client s) = [t]
           \<and> (\<exists>tk offset. cn_tasks s t = Some tk \<and> t_pc tk = FlowWait offset
               \<and> over_watermark (wire_no tk) (cn_client s)))
       \<and> (\<forall>tk offset. cn_tasks s t = Some tk \<longrightarrow> t_pc tk = FlowNotified offset
           \<longrightarrow> cl_permit (cn_client s) \<or> over_watermark (wire_no tk) (cn_client s))"

lemma over_watermark_wake [simp]:
  "over_watermark no (cl\<lparr>cl_waiting := ts\<rparr>) = over_watermark no cl"
  "over_watermark no (cl\<lparr>cl_permit := b\<rparr>) = over_watermark no cl"
  by (simp_all add: over_watermark_def)

lemma client_route_wakes:
  "cl_outgoing (client_route p cl) = cl_outgoing cl \<and> cl_permit (client_route p cl) = cl_permit cl
     \<and> cl_waiting (client_route p cl) = cl_waiting cl
   \<or> cl_waiting cl = [] \<and> cl_waiting (client_route p cl) = [] \<and> cl_permit (client_route p cl)
   \<or> (\<exists>t ts. cl_waiting cl = t # ts \<and> cl_waiting (client_route p cl) = ts)"
  by (cases "p_type p")
    (auto simp: client_route_def Let_def client_ack_def notify_one_def split: option.split list.split)

lemma task_step_flow:
  assumes "task_step t tk s = Some (tk', s')"
  shows "cl_waiting (cn_client s') = cl_waiting (cn_client s)
      \<or> (\<exists>offset. t_pc tk = FlowNotified offset \<and> \<not> cl_permit (cn_client s)
          \<and> tk' = tk\<lparr>t_pc := FlowWait offset\<rparr>
          \<and> cn_client s' = (cn_client s)\<lparr>cl_waiting := cl_waiting (cn_client s) @ [t]\<rparr>)"
    "t_pc tk' = FlowNotified offset \<Longrightarrow> over_watermark (wire_no tk') (cn_client s')"
    "t_pc tk = FlowWait offset \<Longrightarrow> t \<notin> set (cl_waiting (cn_client s))"
proof -
  note step = assms [unfolded task_step_def Let_def]
  show "cl_waiting (cn_client s') = cl_waiting (cn_client s)
      \<or> (\<exists>offset. t_pc tk = FlowNotified offset \<and> \<not> cl_permit (cn_client s)
          \<and> tk' = tk\<lparr>t_pc := FlowWait offset\<rparr>
          \<and> cn_client s' = (cn_client s)\<lparr>cl_waiting := cl_waiting (cn_client s) @ [t]\<rparr>)"
    using step by (cases "t_pc tk")
      (auto simp: remove_pending_def remove_outgoing_def add_sent_def
        split: if_splits option.splits elim!: task_send_cases)
  show "t_pc tk' = FlowNotified offset \<Longrightarrow> over_watermark (wire_no tk') (cn_client s')"
    using step by (cases "t_pc tk")
      (auto simp: loop_pc_def split: if_splits option.splits elim!: task_send_cases)
  show "t_pc tk = FlowWait offset \<Longrightarrow> t \<notin> set (cl_waiting (cn_client s))"
    using step by (auto split: if_splits)
qed

lemma wakeable_run:
  assumes "wakeable t s" and tk: "cn_tasks s u = Some tk" and step: "task_step u tk s = Some (tk', s')"
  shows "wakeable t (s'\<lparr>cn_tasks := (cn_tasks s')(u \<mapsto> tk')\<rparr>)"
proof (cases "dom (cn_tasks s) \<subseteq> {t}")
  case True
  with tk have u: "u = t" by auto
  note w = assms(1) [unfolded wakeable_def, rule_format, OF True]
  note flow = task_step_flow [OF step, unfolded u]
  have empty: "cl_waiting (cn_client s) = []"
    using w tk u flow(3) by auto
  from flow(1) show ?thesis
  proof (elim disjE exE conjE)
    assume "cl_waiting (cn_client s') = cl_waiting (cn_client s)"
    with empty flow(2) show ?thesis unfolding wakeable_def by (auto simp: u)
  next
    fix offset
    assume pc: "t_pc tk = FlowNotified offset" "\<not> cl_permit (cn_client s)"
      and tk': "tk' = tk\<lparr>t_pc := FlowWait offset\<rparr>"
      and cl: "cn_client s' = (cn_client s)\<lparr>cl_waiting := cl_waiting (cn_client s) @ [t]\<rparr>"
    have "over_watermark (wire_no tk) (cn_client s)" using w tk u pc by blast
    then show ?thesis unfolding wakeable_def by (simp add: u tk' cl empty)
  qed
next
  case False
  with task_step_frame(1) [OF step] tk show ?thesis
    unfolding wakeable_def by auto
qed

lemma wakeable_receive:
  assumes "wakeable t s"
  shows "wakeable t (s\<lparr>cn_client := client_route p (cn_client s)\<rparr>)"
proof (cases "dom (cn_tasks s) \<subseteq> {t}")
  case True
  note w = assms [unfolded wakeable_def, rule_format, OF True]
  from client_route_wakes [of p "cn_client s"] show ?thesis
  proof (elim disjE)
    assume "cl_outgoing (client_route p (cn_client s)) = cl_outgoing (cn_client s)
      \<and> cl_permit (client_route p (cn_client s)) = cl_permit (cn_client s)
      \<and> cl_waiting (client_route p (cn_client s)) = cl_waiting (cn_client s)"
    with w show ?thesis unfolding wakeable_def by (simp add: over_watermark_def)
  next
    assume "cl_waiting (cn_client s) = [] \<and> cl_waiting (client_route p (cn_client s)) = []
      \<and> cl_permit (client_route p (cn_client s))"
    then show ?thesis unfolding wakeable_def by simp
  next
    assume "\<exists>u ts. cl_waiting (cn_client s) = u # ts \<and> cl_waiting (client_route p (cn_client s)) = ts"
    with w show ?thesis unfolding wakeable_def by auto
  qed
qed (simp add: wakeable_def)

lemma client_step_wakeable:
  assumes "client_step s s'" and "wakeable t s"
  shows "wakeable t s'"
  using assms(1)
proof (cases rule: client_step.cases)
  case (run u tk tk' s1)
  with assms(2) show ?thesis by (simp add: wakeable_run)
next
  case (receive p)
  with assms(2) show ?thesis by (simp add: wakeable_receive)
next
  case (start u args)
  with assms(2) show ?thesis by (auto simp: wakeable_def new_task_def)
next
  case (time_out u tk)
  with assms(2) show ?thesis by (auto simp: wakeable_def)
qed (use assms(2) in \<open>auto simp: wakeable_def over_watermark_def notify_all_pending_def\<close>)

lemma reachable_wakeable: "client_reachable s \<Longrightarrow> wakeable t s"
proof (erule client_invariant)
  show "wakeable t connection_init"
    by (simp add: wakeable_def connection_init_def client_init_def)
qed (rule client_step_wakeable)

text \<open>
  No wake-up is lost for a request that is alone on its connection: it is blocked in flow control
  only while its unacknowledged bytes reach the watermark; below it, its next step is enabled.
\<close>

theorem lone_request_not_blocked:
  assumes "client_reachable s" and "dom (cn_tasks s) \<subseteq> {t}" and "cn_tasks s t = Some tk"
    and "t_pc tk = FlowWait offset" and "\<not> over_watermark (wire_no tk) (cn_client s)"
  shows "task_step t tk s \<noteq> None"
  using reachable_wakeable [OF assms(1), of t] assms(2-5)
  by (auto simp: wakeable_def task_step_def)

subsection \<open>Witnesses\<close>

definition small_request :: request_args where
  "small_request =
     \<lparr>rq_action = ''echo'', rq_version = 1, rq_envelope = Json, rq_ticket = [], rq_client_id = 0,
      rq_body = []\<rparr>"

definition awaiting :: connection where
  "awaiting = fold run_task [0, 0, 0, 0, 0, 0, 0] (call 0 small_request connection_init)"

lemma awaiting_reachable: "client_reachable awaiting"
  unfolding awaiting_def
  by (intro run_tasks_reachable call_reachable client_reachable_init) (simp add: connection_init_def)

lemma awaiting_eq:
  "awaiting =
     \<lparr>cn_client = client_init\<lparr>cl_pending := [(1, 0)], cl_outgoing := [0 \<mapsto> outgoing_default],
        cl_sent := message_packets 0
          (request_header \<lparr>t_args = small_request, t_pc = Await, t_id = 1, t_no = 0\<rparr>) []\<rparr>,
      cn_tasks = [0 \<mapsto> \<lparr>t_args = small_request, t_pc = Await, t_id = 1, t_no = 0\<rparr>],
      cn_next_id = 2, cn_next_no = 1, cn_reader = Reading, cn_written = 0\<rparr>"
  by (simp add: awaiting_def call_def connection_init_def client_init_def new_task_def run_simps
      loop_pc_def small_request_def message_packets_def request_header_def numeral_2_eq_2)

lemma request_stream_shape_witness:
  "filter (own_packet \<lparr>t_args = small_request, t_pc = Await, t_id = 1, t_no = 0\<rparr>)
       (cl_sent (cn_client awaiting))
     = request_packets \<lparr>t_args = small_request, t_pc = Await, t_id = 1, t_no = 0\<rparr>"
  using request_stream_shape [OF awaiting_reachable,
      of 0 "\<lparr>t_args = small_request, t_pc = Await, t_id = 1, t_no = 0\<rparr>"]
  by (simp add: awaiting_eq numbered_def)

lemma flow_control_bounds_witness:
  "cl_outgoing (cn_client awaiting) 0 = Some outgoing_default
    \<and> os_acknowledged outgoing_default \<le> os_sent outgoing_default"
  using flow_control_bounds [OF awaiting_reachable,
      of 0 "\<lparr>t_args = small_request, t_pc = Await, t_id = 1, t_no = 0\<rparr>"]
  by (simp add: awaiting_eq numbered_def)

definition answered :: connection where
  "answered = fold run_task [0, 0] (awaiting\<lparr>cn_client :=
     client_route (eof_packet 0)
       (client_route (header_packet 0 (default_header\<lparr>h_request_id := 1\<rparr>)) (cn_client awaiting))\<rparr>)"

lemma answered_reachable: "client_reachable answered"
proof -
  let ?h = "header_packet 0 (default_header\<lparr>h_request_id := 1\<rparr>)"
  have r: "cn_reader awaiting = Reading" "writer_room awaiting" "cl_sent (cn_client awaiting) \<noteq> []"
    by (simp_all add: awaiting_eq writer_room_def WRITER_CAPACITY_def message_packets_def)
  have "client_reachable (awaiting\<lparr>cn_client := client_route ?h (cn_client awaiting)\<rparr>)"
    using r(1,2) by (intro client_reachable_step [OF awaiting_reachable] client_step.receive)
  from client_reachable_step [OF this client_step.receive, of "eof_packet 0"] r
  have "client_reachable (awaiting\<lparr>cn_client :=
      client_route (eof_packet 0) (client_route ?h (cn_client awaiting))\<rparr>)"
    by (simp add: writer_room_def client_route_def Let_def)
  then show ?thesis unfolding answered_def by (rule run_tasks_reachable)
qed

lemma answered_task:
  "cn_tasks answered 0 = Some \<lparr>t_args = small_request,
     t_pc = Done (Response \<lparr>rs_header = default_header\<lparr>h_request_id := 1\<rparr>, rs_body = [], rs_error = None\<rparr>),
     t_id = 1, t_no = 0\<rparr>"
  by (simp add: answered_def awaiting_eq client_init_def client_route_def deliver_def run_simps)

lemma response_belongs_to_request_witness:
  "h_request_id (default_header\<lparr>h_request_id := 1\<rparr>) = 1 \<or>
     (\<exists>e. \<lparr>rs_header = default_header\<lparr>h_request_id := 1\<rparr>, rs_body = [], rs_error = None\<rparr> = lost_response e)"
  using response_belongs_to_request [OF answered_reachable answered_task] by simp

definition large_request :: request_args where
  "large_request = small_request\<lparr>rq_body := replicate (Suc FLOW_CONTROL_WATERMARK) CHR ''x''\<rparr>"

lemma large_request_length: "65536 < length (rq_body large_request)"
proof -
  have "length (replicate (Suc FLOW_CONTROL_WATERMARK) CHR ''x'') = Suc FLOW_CONTROL_WATERMARK"
    by (rule length_replicate)
  then show ?thesis
    by (simp add: large_request_def FLOW_CONTROL_WATERMARK_def del: replicate_Suc)
qed

lemma closed_connection_leaves_sender_waiting_witness:
  "\<exists>s tk. client_reachable s \<and> cn_closed s \<and> cn_tasks s 0 = Some tk
    \<and> (\<forall>s'. client_steps s s' \<longrightarrow> cn_tasks s' 0 = Some tk) \<and> (\<forall>r. t_pc tk \<noteq> Done r)"
proof -
  from closed_connection_leaves_sender_waiting [OF large_request_length] show ?thesis by blast
qed
lemma lone_request_not_blocked_witness:
  "\<exists>s tk. client_reachable s \<and> cn_tasks s 0 = Some tk \<and> (\<exists>offset. t_pc tk = FlowWait offset)
    \<and> task_step 0 tk s \<noteq> None"
proof -
  obtain ps where ps: "client_reachable (sending large_request 32 ps)" "length ps = Suc 32"
    using sending_reachable [OF large_request_length, of 32] by blast
  define tk where "tk = \<lparr>t_args = large_request, t_pc = FlowWait 65536, t_id = 1, t_no = 0\<rparr>"
  define s1 where "s1 = fold run_task [0, 0] (sending large_request 32 ps)"
  define s where "s = s1\<lparr>cn_client := client_route (ack_packet 0 2048) (cn_client s1)\<rparr>"
  have s1: "cn_tasks s1 = [0 \<mapsto> tk]" "cn_reader s1 = Reading" "writer_room s1"
    "cl_outgoing (cn_client s1) = [0 \<mapsto> \<lparr>os_sent = 65536, os_acknowledged = 0\<rparr>]"
    using ps(2)
    by (simp_all add: s1_def tk_def sending_def client_init_def run_simps over_watermark_def
        FLOW_CONTROL_WATERMARK_def)
  have "client_reachable s1" unfolding s1_def by (rule run_tasks_reachable [OF ps(1)])
  then have s: "client_reachable s"
    unfolding s_def by (rule client_reachable_step) (rule client_step.receive [OF s1(2,3)])
  have "client_ack_value (dec_of_nat 2048) = Some 2048"
    by (simp add: client_ack_value_def u64_max_def)
  then have "\<not> over_watermark 0 (cn_client s)"
    using s1(4) by (simp add: s_def client_route_def client_ack_def over_watermark_def
        FLOW_CONTROL_WATERMARK_def)
  then have "task_step 0 tk s \<noteq> None"
    using s1(1) by (intro lone_request_not_blocked [OF s]) (simp_all add: s_def tk_def)
  with s s1(1) show ?thesis by (intro exI [of _ s] exI [of _ tk]) (simp add: s_def tk_def)
qed

end
