(* ===== verification/Client_Calls.thy ===== *)
theory Client_Calls
  imports Message_Trace Client_Connection
begin

text \<open>
  The calls of a connection (\<open>scamp/src/transport/beepish/client/connection.rs\<close>) as senders: request ids
  and message numbers belong to one call each, every packet of a message on the connection was sent by
  a call, and so a request that completes at the other end is the whole request of exactly one call.
\<close>

subsection \<open>What the steps of the client add to the invariants of its tasks\<close>

definition took_id :: "task \<Rightarrow> bool" where
  "took_id tk \<longleftrightarrow> t_pc tk \<notin> {CheckClosed, TakeId, Done (Failed IsClosed)}"

definition ids_ok :: "connection \<Rightarrow> bool" where
  "ids_ok s \<longleftrightarrow>
     (\<forall>t tk. cn_tasks s t = Some tk \<longrightarrow> took_id tk \<longrightarrow> t_id tk < cn_next_id s)
     \<and> (\<forall>t tk t' tk'. cn_tasks s t = Some tk \<longrightarrow> cn_tasks s t' = Some tk' \<longrightarrow> t \<noteq> t'
          \<longrightarrow> took_id tk \<longrightarrow> took_id tk' \<longrightarrow> t_id tk \<noteq> t_id tk')"

text \<open>A call that has taken a number never fails for a closed connection.\<close>

definition pc_ok :: "pc \<Rightarrow> bool" where
  "pc_ok x \<longleftrightarrow> x \<notin> {CleanPending IsClosed, CleanOutgoing IsClosed, DropOutgoing (Failed IsClosed)}"

lemma task_step_ids:
  assumes "task_step t tk s = Some (tk', s')"
  shows "took_id tk' \<longrightarrow> t_pc tk = TakeId \<or> took_id tk"
    "pc_ok (t_pc tk) \<Longrightarrow> pc_ok (t_pc tk')"
    "pc_ok (t_pc tk) \<Longrightarrow> numbered tk \<Longrightarrow> numbered tk'"
  using assms unfolding task_step_def Let_def
  by (cases "t_pc tk"; auto simp: took_id_def numbered_def pc_ok_def loop_pc_def
      split: if_splits option.splits elim!: task_send_cases)+

lemma ids_ok_run:
  assumes "ids_ok s" and "cn_tasks s t = Some tk" and "task_step t tk s = Some (tk', s')"
  shows "ids_ok (s'\<lparr>cn_tasks := (cn_tasks s')(t \<mapsto> tk')\<rparr>)"
  using assms(1,2) task_step_frame [OF assms(3)] task_step_ids(1) [OF assms(3)] unfolding ids_ok_def
  by (auto split: if_splits) (fastforce dest: less_imp_neq)+

lemma reachable_ids: "client_reachable s \<Longrightarrow> ids_ok s"
proof (erule client_invariant)
  fix s s'
  assume "ids_ok s" and "client_step s s'"
  from this(2,1) show "ids_ok s'"
  proof (cases rule: client_step.cases)
    case (run t tk tk' s1)
    with \<open>ids_ok s\<close> show ?thesis by (simp add: ids_ok_run)
  qed (auto simp: ids_ok_def took_id_def new_task_def)
qed (simp add: ids_ok_def connection_init_def)

definition pcs_ok :: "connection \<Rightarrow> bool" where
  "pcs_ok s \<longleftrightarrow> (\<forall>t tk. cn_tasks s t = Some tk \<longrightarrow> pc_ok (t_pc tk))"

lemma reachable_pcs: "client_reachable s \<Longrightarrow> pcs_ok s"
proof (erule client_invariant)
  fix s s'
  assume "pcs_ok s" and "client_step s s'"
  from this(2,1) show "pcs_ok s'"
  proof (cases rule: client_step.cases)
    case (run t tk tk' s1)
    with \<open>pcs_ok s\<close> task_step_ids(2) task_step_frame(1) show ?thesis by (auto simp: pcs_ok_def)
  qed (auto simp: pcs_ok_def pc_ok_def new_task_def)
qed (simp add: pcs_ok_def connection_init_def)

text \<open>Every packet of a message sent is one of a call.\<close>

definition owned :: "connection \<Rightarrow> packet \<Rightarrow> bool" where
  "owned s p \<longleftrightarrow> (\<exists>t tk. cn_tasks s t = Some tk \<and> numbered tk \<and> own_packet tk p)"

lemma owned_update:
  assumes "owned s p" and "cn_tasks s t = Some tk" and "cn_tasks s' = (cn_tasks s)(t \<mapsto> tk')"
    and "numbered tk \<Longrightarrow> numbered tk' \<and> t_no tk' = t_no tk"
  shows "owned s' p"
proof -
  obtain u tku where u: "cn_tasks s u = Some tku" "numbered tku" "own_packet tku p"
    using assms(1) by (auto simp: owned_def)
  show ?thesis
  proof (cases "u = t")
    case True
    with u assms(2,4) own_packet_same [of tk' tk] have "numbered tk'" "own_packet tk' p" by simp_all
    with assms(3) show ?thesis unfolding owned_def by (intro exI [of _ t] exI [of _ tk']) simp
  next
    case False
    with u assms(3) show ?thesis unfolding owned_def by (intro exI [of _ u] exI [of _ tku]) simp
  qed
qed

lemma owned_step:
  assumes "client_reachable s" and step: "client_step s s'" and "owned s p"
  shows "owned s' p"
  using step
proof (cases rule: client_step.cases)
  case (run t tk tk' s1)
  have "pc_ok (t_pc tk)" using reachable_pcs [OF assms(1)] run(2) by (auto simp: pcs_ok_def)
  then have "numbered tk' \<and> t_no tk' = t_no tk" if "numbered tk"
    using that task_step_ids(3) [OF run(3)] task_step_frame(5) [OF run(3)] by (auto simp: numbered_def)
  with run task_step_frame(1) [OF run(3)] show ?thesis by (intro owned_update [OF assms(3) run(2), of _ tk']) auto
next
  case (time_out t tk)
  then show ?thesis by (intro owned_update [OF assms(3)]) (auto simp: numbered_def)
next
  case (start t args)
  obtain u tku where u: "cn_tasks s u = Some tku" "numbered tku" "own_packet tku p"
    using assms(3) by (auto simp: owned_def)
  moreover from u start have "u \<noteq> t" by auto
  ultimately show ?thesis using start unfolding owned_def by (intro exI [of _ u] exI [of _ tku]) simp
qed (use assms(3) in \<open>auto simp: owned_def\<close>)

text \<open>What a step of the client sends.\<close>

lemma client_step_sent:
  assumes "client_reachable s" and "cn_next_no s' \<le> 2 ^ 64" and step: "client_step s s'"
  shows "\<exists>q. cl_sent (cn_client s') = cl_sent (cn_client s) @ q \<and> (\<forall>p \<in> set q. is_message_packet p \<longrightarrow> owned s' p)"
  using step
proof (cases rule: client_step.cases)
  case (run t tk tk' s1)
  show ?thesis
  proof (cases "numbered tk")
    case True
    have "cn_next_no s \<le> 2 ^ 64" using client_step_next_no [OF step] assms(2) by simp
    then have "progress tk (filter (own_packet tk) (cl_sent (cn_client s)))"
      using reachable_streams [OF assms(1)] run True by (simp add: streams_ok_def)
    from task_step_progress [OF run(3) True this] obtain q where
      q: "cl_sent (cn_client s1) = cl_sent (cn_client s) @ q" "\<forall>p \<in> set q. own_packet tk p" by blast
    have "owned s' p" if "p \<in> set q" for p
    proof -
      have "owned s p" using that q run(2) True by (auto simp: owned_def)
      then show ?thesis by (rule owned_step [OF assms(1) step])
    qed
    with q show ?thesis by (auto simp: run)
  next
    case False
    from task_step_unnumbered(1) [OF run(3) this] show ?thesis by (simp add: run)
  qed
next
  case (receive p)
  with client_route_sent [of p "cn_client s"] show ?thesis by auto
qed (auto simp: notify_all_pending_def)

lemma reachable_owned:
  "client_reachable s \<Longrightarrow> cn_next_no s \<le> 2 ^ 64 \<longrightarrow> (\<forall>p \<in> set (cl_sent (cn_client s)). is_message_packet p \<longrightarrow> owned s p)"
proof (erule client_invariant)
  fix s s'
  assume s: "client_reachable s" "client_step s s'"
    and inv: "cn_next_no s \<le> 2 ^ 64 \<longrightarrow> (\<forall>p \<in> set (cl_sent (cn_client s)). is_message_packet p \<longrightarrow> owned s p)"
  show "cn_next_no s' \<le> 2 ^ 64 \<longrightarrow> (\<forall>p \<in> set (cl_sent (cn_client s')). is_message_packet p \<longrightarrow> owned s' p)"
  proof
    assume le: "cn_next_no s' \<le> 2 ^ 64"
    with client_step_next_no [OF s(2)] inv have "\<forall>p \<in> set (cl_sent (cn_client s)). is_message_packet p \<longrightarrow> owned s p"
      by simp
    with client_step_sent [OF s(1) le s(2)] owned_step [OF s] show
      "\<forall>p \<in> set (cl_sent (cn_client s')). is_message_packet p \<longrightarrow> owned s' p" by auto
  qed
qed (simp add: connection_init_def client_init_def)

text \<open>The packets under a call's number are those of its request.\<close>

lemma call_single_message:
  assumes "client_reachable s" and "cn_next_no s \<le> 2 ^ 64" and "cn_tasks s t = Some tk" and "numbered tk"
  shows "single_message (wire_no tk) (request_header tk) (rq_body (t_args tk)) (take k (cl_sent (cn_client s)))"
proof -
  have "progress tk (filter (own_packet tk) (cl_sent (cn_client s)))"
    using reachable_streams [OF assms(1)] assms(2-4) by (simp add: streams_ok_def)
  then have "prefix (filter (own_packet tk) (cl_sent (cn_client s))) (request_packets tk)"
    by (rule progress_prefix [OF _ assms(4)])
  moreover have "filter is_message_packet (of_message (wire_no tk) (cl_sent (cn_client s)))
      = filter (own_packet tk) (cl_sent (cn_client s))"
    unfolding of_message_def filter_filter by (rule filter_cong) (auto simp: own_packet_def)
  ultimately have "single_message (wire_no tk) (request_header tk) (rq_body (t_args tk)) (cl_sent (cn_client s))"
    by (simp add: single_message_def request_packets_def)
  then show ?thesis
    using single_message_prefix [of _ _ _ "take k (cl_sent (cn_client s))" "drop k (cl_sent (cn_client s))"] by simp
qed

lemma completed_eof: "(n, h, b) \<in> set (completed a ps) \<Longrightarrow> \<exists>p \<in> set ps. p_type p = Eof \<and> p_msg_no p = n"
proof (induction ps arbitrary: a)
  case (Cons p ps)
  then show ?case
    by (cases rule: completes_cases [of a p]) auto
qed simp

text \<open>A request that is complete on the service's side is the request of one call.\<close>

lemma completed_call:
  assumes "client_reachable s" and "cn_next_no s \<le> 2 ^ 64"
    and "(n, h, b) \<in> set (completed asm_init (take k (cl_sent (cn_client s))))"
  obtains t tk where "cn_tasks s t = Some tk" "numbered tk" "n = wire_no tk"
    "h = request_header tk" "b = rq_body (t_args tk)"
    "filter (\<lambda>m. fst m = n) (completed asm_init (take k (cl_sent (cn_client s)))) = [(n, h, b)]"
proof -
  let ?ps = "take k (cl_sent (cn_client s))"
  obtain p where p: "p \<in> set ?ps" "p_type p = Eof" "p_msg_no p = n" using completed_eof [OF assms(3)] by blast
  then have "p \<in> set (cl_sent (cn_client s))" "is_message_packet p"
    using set_take_subset [of k "cl_sent (cn_client s)"] by (auto simp: is_message_packet_def)
  then obtain t tk where t: "cn_tasks s t = Some tk" "numbered tk" "own_packet tk p"
    using reachable_owned [OF assms(1)] assms(2) by (auto simp: owned_def)
  then have n: "n = wire_no tk" using p by (simp add: own_packet_def)
  have "filter (\<lambda>m. fst m = n) (completed asm_init ?ps) \<in> {[], [(n, request_header tk, rq_body (t_args tk))]}"
    using single_message_completed [OF call_single_message [OF assms(1,2) t(1,2), of k]] n by simp
  moreover have "(n, h, b) \<in> set (filter (\<lambda>m. fst m = n) (completed asm_init ?ps))" using assms(3) by simp
  ultimately have "filter (\<lambda>m. fst m = n) (completed asm_init ?ps) = [(n, request_header tk, rq_body (t_args tk))]"
    and eq: "(n, h, b) = (n, request_header tk, rq_body (t_args tk))"
    by (metis insertE empty_iff empty_set, metis insertE empty_iff empty_set list.simps(15))
  with t n that show thesis by auto
qed

end
