(* ===== verification/Concurrent_System.thy ===== *)
theory Concurrent_System
  imports Client_Calls Server_Replies
begin

text \<open>
  Both ends of a connection at once: the concurrent client of
  \<open>scamp/src/transport/beepish/client/connection.rs\<close> and \<open>reader.rs\<close>, the task that serves the connection in
  \<open>scamp/src/service/server_connection.rs\<close>, and the stream between them.

  The stream delivers the packets one end has written to the other in order and whole, which is what the
  read loop of both ends gets from its bytes (\<open>Wire_Stream\<close>, whatever the segmentation).  Either end can stop
  reading at any time.  A step is a step of the client that reads nothing, a packet routed by the service,
  a packet routed by the client, or the end of the service's task.

  The lemmas show that each end holds what comes of the packets it has taken, and from that which
  replies the calls of the client get.
\<close>

subsection \<open>The two ends and the bytes between them\<close>

text \<open>
  \<open>sy_taken\<close> counts the packets the service has taken from what the client's writer has written,
  \<open>sy_seen\<close> the packets of the service that the client's reader has taken.
\<close>

record system =
  sy_client :: connection
  sy_taken :: nat
  sy_server :: conn
  sy_open :: bool
  sy_seen :: nat

definition system_init :: system where
  "system_init =
     \<lparr>sy_client = connection_init, sy_taken = 0, sy_server = conn_init, sy_open = True, sy_seen = 0\<rparr>"

text \<open>The steps of the client that read no packet.\<close>

inductive client_own_step :: "connection \<Rightarrow> connection \<Rightarrow> bool" where
  own_start: "cn_tasks s t = None
    \<Longrightarrow> client_own_step s (s\<lparr>cn_tasks := (cn_tasks s)(t \<mapsto> new_task args)\<rparr>)"
| own_run: "cn_tasks s t = Some tk \<Longrightarrow> task_step t tk s = Some (tk', s')
    \<Longrightarrow> client_own_step s (s'\<lparr>cn_tasks := (cn_tasks s')(t \<mapsto> tk')\<rparr>)"
| own_time_out: "cn_tasks s t = Some tk \<Longrightarrow> t_pc tk = Await
    \<Longrightarrow> cl_answers (cn_client s) t = None
    \<Longrightarrow> client_own_step s (s\<lparr>cn_tasks := (cn_tasks s)(t \<mapsto> tk\<lparr>t_pc := TimedOut\<rparr>)\<rparr>)"
| own_reader_end: "cn_reader s = Reading
    \<Longrightarrow> client_own_step s (s\<lparr>cn_reader := Notified, cn_client := notify_all_pending e (cn_client s)\<rparr>)"
| own_reader_exit: "cn_reader s = Notified \<Longrightarrow> client_own_step s (s\<lparr>cn_reader := Exited\<rparr>)"
| own_write_out: "cl_writer_alive (cn_client s) \<Longrightarrow> cn_written s < length (cl_sent (cn_client s))
    \<Longrightarrow> client_own_step s (s\<lparr>cn_written := Suc (cn_written s)\<rparr>)"
| own_writer_fail: "cl_writer_alive (cn_client s)
    \<Longrightarrow> client_own_step s (s\<lparr>cn_client := (cn_client s)\<lparr>cl_writer_alive := False\<rparr>\<rparr>)"

lemma client_own_step_is_step: "client_own_step s s' \<Longrightarrow> client_step s s'"
  by (induction rule: client_own_step.induct) (blast intro: client_step.intros)+

inductive system_step :: "server_env \<Rightarrow> system \<Rightarrow> system \<Rightarrow> bool" for env where
  client_moves: "client_own_step (sy_client s) cn \<Longrightarrow> system_step env s (s\<lparr>sy_client := cn\<rparr>)"
| service_routes: "sy_open s \<Longrightarrow> sy_taken s < cn_written (sy_client s)
    \<Longrightarrow> server_route env (cl_sent (cn_client (sy_client s)) ! sy_taken s) (sy_server s) = (ok, c)
    \<Longrightarrow> system_step env s (s\<lparr>sy_taken := Suc (sy_taken s), sy_server := c, sy_open := ok\<rparr>)"
| service_ends: "system_step env s (s\<lparr>sy_open := False\<rparr>)"
| client_routes: "cn_reader (sy_client s) = Reading \<Longrightarrow> writer_room (sy_client s)
    \<Longrightarrow> sy_seen s < length (c_written (sy_server s))
    \<Longrightarrow> system_step env s (s\<lparr>sy_seen := Suc (sy_seen s),
          sy_client := (sy_client s)\<lparr>cn_client :=
            client_route (c_written (sy_server s) ! sy_seen s) (cn_client (sy_client s))\<rparr>\<rparr>)"

definition system_reachable :: "server_env \<Rightarrow> system \<Rightarrow> bool" where
  "system_reachable env s \<longleftrightarrow> (system_step env)\<^sup>*\<^sup>* system_init s"

lemma system_reachable_init [simp]: "system_reachable env system_init"
  by (simp add: system_reachable_def)

lemma system_reachable_step: "system_reachable env s \<Longrightarrow> system_step env s s' \<Longrightarrow> system_reachable env s'"
  unfolding system_reachable_def by (rule rtranclp.rtrancl_into_rtrancl)

lemma system_invariant:
  assumes "system_reachable env s" and "I system_init"
    and "\<And>s s'. system_reachable env s \<Longrightarrow> I s \<Longrightarrow> system_step env s s' \<Longrightarrow> I s'"
  shows "I s"
  using assms(1) unfolding system_reachable_def
proof (induction rule: rtranclp_induct)
  case (step s s')
  then show ?case using assms(3) by (simp add: system_reachable_def)
qed (rule assms(2))

subsection \<open>Each end sees a run of its own\<close>

lemma system_client: "system_reachable env s \<Longrightarrow> client_reachable (sy_client s)"
proof (erule system_invariant)
  fix s s'
  assume "client_reachable (sy_client s)" and "system_step env s s'"
  from this(2,1) show "client_reachable (sy_client s')"
    by (cases rule: system_step.cases)
      (auto intro: client_reachable_step client_own_step_is_step client_step.receive)
qed (simp add: system_init_def)

lemma own_step_sent:
  assumes "client_own_step s s'" and "cn_written s \<le> length (cl_sent (cn_client s))"
  shows "prefix (cl_sent (cn_client s)) (cl_sent (cn_client s')) \<and> cn_written s \<le> cn_written s'
    \<and> cn_written s' \<le> length (cl_sent (cn_client s')) \<and> client_assembly (cn_client s') = client_assembly (cn_client s)"
  using assms
proof (cases rule: client_own_step.cases)
  case (own_run t tk tk' s1)
  have "prefix (cl_sent (cn_client s)) (cl_sent (cn_client s1)) \<and> client_assembly (cn_client s1) = client_assembly (cn_client s)"
    using own_run(3) unfolding task_step_def Let_def
    by (cases "t_pc tk") (auto simp: remove_pending_def remove_outgoing_def add_sent_def client_assembly_def
        split: if_splits option.splits elim!: task_send_cases)
  with assms(2) own_run task_step_frame(3) [OF own_run(3)] show ?thesis
    by (auto dest: prefix_length_le)
qed (auto simp: notify_all_pending_def client_assembly_def)

lemma server_route_written:
  assumes "reliable env"
  shows "prefix (c_written c) (c_written (snd (server_route env p c)))"
proof (cases "p_type p = Eof \<and> p_body p = [] \<and> asm_open (conn_assembly c) (p_msg_no p) \<noteq> None")
  case True
  with server_route_message [OF assms, of p c] show ?thesis by auto
next
  case False
  then show ?thesis
    using assms by (cases "p_type p")
      (auto simp: server_route_def server_ack_def Let_def split: option.splits)
qed

text \<open>Each end holds what comes of the packets it has taken, and the service has replied to them.\<close>

definition ends_ok :: "server_env \<Rightarrow> system \<Rightarrow> bool" where
  "ends_ok env s \<longleftrightarrow>
     (let taken = take (sy_taken s) (cl_sent (cn_client (sy_client s)));
          seen = take (sy_seen s) (c_written (sy_server s)) in
      sy_taken s \<le> cn_written (sy_client s)
      \<and> cn_written (sy_client s) \<le> length (cl_sent (cn_client (sy_client s)))
      \<and> sy_seen s \<le> length (c_written (sy_server s))
      \<and> conn_assembly (sy_server s) = asm_run taken asm_init
      \<and> replies_answer env taken (sy_server s)
      \<and> client_assembly (cn_client (sy_client s)) = asm_run seen asm_init)"

lemma take_prefix: "prefix xs ys \<Longrightarrow> n \<le> length xs \<Longrightarrow> take n ys = take n xs"
  by (auto simp: prefix_def)

lemma system_step_ends:
  assumes "reliable env" and "ends_ok env s" and "system_step env s s'"
  shows "ends_ok env s'"
  using assms(3)
proof (cases rule: system_step.cases)
  case (client_moves cn)
  let ?cn = "sy_client s"
  have "cn_written ?cn \<le> length (cl_sent (cn_client ?cn))" using assms(2) by (simp add: ends_ok_def Let_def)
  from own_step_sent [OF client_moves(2) this] assms(2) client_moves(1) show ?thesis
    by (auto simp: ends_ok_def Let_def take_prefix)
next
  case (service_routes ok c)
  let ?sent = "cl_sent (cn_client (sy_client s))" and ?p = "cl_sent (cn_client (sy_client s)) ! sy_taken s"
  have inv: "conn_assembly (sy_server s) = asm_run (take (sy_taken s) ?sent) asm_init"
    "replies_answer env (take (sy_taken s) ?sent) (sy_server s)" "sy_taken s < length ?sent"
    using assms(2) service_routes(3) by (auto simp: ends_ok_def Let_def)
  have c: "c = snd (server_route env ?p (sy_server s))" by (simp add: service_routes(4))
  have "conn_assembly c = asm_run (take (sy_taken s) ?sent @ [?p]) asm_init"
    unfolding c server_route_abs inv(1) by (simp add: asm_run_append)
  moreover have "replies_answer env (take (sy_taken s) ?sent @ [?p]) c"
    unfolding c by (rule replies_answer_step [OF assms(1) inv(1,2)])
  moreover have "prefix (c_written (sy_server s)) (c_written c)"
    unfolding c by (rule server_route_written [OF assms(1)])
  ultimately show ?thesis
    using assms(2) service_routes(1,3) inv(3)
    by (auto simp: ends_ok_def Let_def take_prefix take_Suc_conv_app_nth dest: prefix_length_le)
next
  case service_ends
  with assms(2) show ?thesis by (simp add: ends_ok_def Let_def)
next
  case client_routes
  let ?cl = "cn_client (sy_client s)" and ?p = "c_written (sy_server s) ! sy_seen s"
  obtain q where q: "cl_sent (client_route ?p ?cl) = cl_sent ?cl @ q" using client_route_sent by blast
  have "client_assembly (client_route ?p ?cl) = asm_step ?p (client_assembly ?cl)"
    using client_route_abs [of ?p ?cl] by (simp add: client_route_step_def)
  with q assms(2) client_routes(1,4) show ?thesis
    by (auto simp: ends_ok_def Let_def take_Suc_conv_app_nth asm_run_append)
qed

lemma system_ends: "reliable env \<Longrightarrow> system_reachable env s \<Longrightarrow> ends_ok env s"
proof (erule system_invariant)
  show "ends_ok env system_init"
    by (simp add: ends_ok_def system_init_def connection_init_def client_init_def conn_init_def
        conn_assembly_def client_assembly_def asm_init_def replies_answer_init [unfolded conn_init_def])
qed (rule system_step_ends)

subsection \<open>Answers come from the service\<close>

definition from_service :: "system \<Rightarrow> scamp_response \<Rightarrow> bool" where
  "from_service s r \<longleftrightarrow>
     (\<exists>e. r = lost_response e)
     \<or> (\<exists>m \<in> set (completed asm_init (take (sy_seen s) (c_written (sy_server s)))).
          r = \<lparr>rs_header = fst (snd m), rs_body = snd (snd m), rs_error = None\<rparr>)"

definition given :: "connection \<Rightarrow> scamp_response \<Rightarrow> bool" where
  "given s r \<longleftrightarrow>
     (\<exists>t. cl_answers (cn_client s) t = Some r)
     \<or> (\<exists>t tk. cn_tasks s t = Some tk \<and> t_pc tk \<in> {DropOutgoing (Response r), Done (Response r)})"

lemma from_service_mono:
  assumes "from_service s r" and "prefix (take (sy_seen s) (c_written (sy_server s))) (take (sy_seen s') (c_written (sy_server s')))"
  shows "from_service s' r"
  using assms by (auto simp: from_service_def prefix_def completed_append)

lemma own_step_given:
  assumes "client_own_step s s'" and "given s' r"
  shows "given s r \<or> (\<exists>e. r = lost_response e)"
  using assms(1)
proof (cases rule: client_own_step.cases)
  case (own_run t tk tk' s1)
  note own = task_step_owner(1,5) [OF own_run(3)] and frame = task_step_frame(1) [OF own_run(3)]
  from assms(2) show ?thesis
    unfolding given_def own_run(1) using own own_run(2) frame
    by (auto split: if_splits)
next
  case (own_start t args)
  with assms(2) show ?thesis by (auto simp: given_def new_task_def split: if_splits)
next
  case (own_time_out t tk)
  with assms(2) show ?thesis by (auto simp: given_def split: if_splits)
next
  case (own_reader_end e)
  with assms(2) show ?thesis by (auto simp: given_def notify_all_pending_def split: if_splits)
qed (use assms(2) in \<open>auto simp: given_def\<close>)

text \<open>The service never sends TXERR.\<close>

lemma numbered_messages_types: "p \<in> set (numbered_messages n ms) \<Longrightarrow> p_type p \<in> {Header, Data, Eof}"
  by (induction n ms rule: numbered_messages.induct)
    (auto simp: message_packets_def data_packets_def)

lemma replies_answer_types:
  assumes "replies_answer env ps c" and "p \<in> set (c_written c)"
  shows "p_type p \<noteq> Txerr"
proof
  assume "p_type p = Txerr"
  with assms(2) have "p \<in> set (filter is_message_packet (c_written c))" by (simp add: is_message_packet_def)
  then obtain ms where "p \<in> set (numbered_messages 0 ms)" using assms(1) by (metis replies_answer_def)
  from numbered_messages_types [OF this] \<open>p_type p = Txerr\<close> show False by simp
qed

lemma client_routes_given:
  assumes "given (sn\<lparr>cn_client := client_route p (cn_client sn)\<rparr>) r" and "p_type p \<noteq> Txerr"
  shows "given sn r \<or> (\<exists>h b. completes (client_assembly (cn_client sn)) p = [(p_msg_no p, h, b)]
    \<and> r = \<lparr>rs_header = h, rs_body = b, rs_error = None\<rparr>)"
proof (cases "cl_answers (client_route p (cn_client sn)) = cl_answers (cn_client sn)")
  case True
  with assms(1) show ?thesis by (auto simp: given_def)
next
  case False
  then obtain msg t where d: "delivers p (cn_client sn) msg t" using client_route_delivery by blast
  with assms(2) have "completes (client_assembly (cn_client sn)) p = [(p_msg_no p, im_header msg, im_body msg)]"
    by (auto simp: delivers_def completes.simps)
  moreover have "given sn r \<or> r = \<lparr>rs_header = im_header msg, rs_body = im_body msg, rs_error = None\<rparr>"
    using assms d unfolding given_def delivers_def by (auto split: if_splits)
  ultimately show ?thesis by auto
qed

lemma system_given:
  assumes "reliable env" and "system_reachable env s"
  shows "\<forall>r. given (sy_client s) r \<longrightarrow> from_service s r"
  using assms(2)
proof (rule system_invariant)
  show "\<forall>r. given (sy_client system_init) r \<longrightarrow> from_service system_init r"
    by (simp add: given_def system_init_def connection_init_def client_init_def)
next
  fix s s'
  assume s: "system_reachable env s" and inv: "\<forall>r. given (sy_client s) r \<longrightarrow> from_service s r"
    and step: "system_step env s s'"
  note ends = system_ends [OF assms(1) s]
  from step show "\<forall>r. given (sy_client s') r \<longrightarrow> from_service s' r"
  proof (cases rule: system_step.cases)
    case (client_moves cn)
    with inv own_step_given [OF client_moves(2)] show ?thesis by (auto simp: from_service_def)
  next
    case (service_routes ok c)
    have "prefix (c_written (sy_server s)) (c_written c)"
      using server_route_written [OF assms(1), of "sy_server s"] service_routes(4) by (metis snd_conv)
    moreover have "sy_seen s \<le> length (c_written (sy_server s))" using ends by (simp add: ends_ok_def Let_def)
    ultimately show ?thesis
      using inv service_routes(1) by (auto simp: take_prefix intro: from_service_mono [of s])
  next
    case service_ends
    with inv show ?thesis by (simp add: from_service_def)
  next
    case client_routes
    let ?p = "c_written (sy_server s) ! sy_seen s"
    have e: "replies_answer env (take (sy_taken s) (cl_sent (cn_client (sy_client s)))) (sy_server s)"
      "client_assembly (cn_client (sy_client s)) = asm_run (take (sy_seen s) (c_written (sy_server s))) asm_init"
      using ends by (simp_all add: ends_ok_def Let_def)
    have "p_type ?p \<noteq> Txerr" by (rule replies_answer_types [OF e(1)]) (simp add: client_routes(4))
    note new = client_routes_given [OF _ this]
    show ?thesis
    proof (intro allI impI)
      fix r
      assume "given (sy_client s') r"
      with client_routes(1) have "given ((sy_client s)\<lparr>cn_client := client_route ?p (cn_client (sy_client s))\<rparr>) r" by simp
      from new [OF this] show "from_service s' r"
      proof (elim disjE exE conjE)
        assume "given (sy_client s) r"
        then have "from_service s r" using inv by blast
        moreover have "prefix (take (sy_seen s) (c_written (sy_server s))) (take (sy_seen s') (c_written (sy_server s')))"
          using client_routes(4) by (simp add: client_routes(1) take_Suc_conv_app_nth)
        ultimately show ?thesis by (rule from_service_mono)
      next
        fix h b
        assume m: "completes (client_assembly (cn_client (sy_client s))) ?p = [(p_msg_no ?p, h, b)]"
          and r: "r = \<lparr>rs_header = h, rs_body = b, rs_error = None\<rparr>"
        have "completed asm_init (take (sy_seen s') (c_written (sy_server s')))
            = completed asm_init (take (sy_seen s) (c_written (sy_server s))) @ [(p_msg_no ?p, h, b)]"
          using client_routes(1,4) m e(2) by (simp add: take_Suc_conv_app_nth completed_snoc)
        then show ?thesis unfolding from_service_def r by simp
      qed
    qed
  qed
qed

subsection \<open>Calls and their replies\<close>

lemma map2_set: "x \<in> set (map2 f xs ys) \<Longrightarrow> \<exists>i < length xs. i < length ys \<and> x = f (xs ! i) (ys ! i)"
  unfolding in_set_conv_nth by fastforce

text \<open>A message the client has completed is the reply to a request the service has completed.\<close>

lemma seen_message:
  assumes "replies_answer env taken c" and "m \<in> set (completed asm_init (take k (c_written c)))"
  obtains n h b rep where "(n, h, b) \<in> set (completed asm_init taken)" "rep \<in> possible_replies env h b"
    "snd m = reply_message rep (h_request_id h)"
proof -
  let ?D = "completed asm_init taken"
  obtain reps where reps: "list_all2 (\<lambda>rep (n, h, b). rep \<in> possible_replies env h b) reps ?D"
    "filter is_message_packet (c_written c)
      = numbered_messages 0 (map2 (\<lambda>rep (n, h, b). reply_message rep (h_request_id h)) reps ?D)"
    using assms(1) by (auto simp: replies_answer_def)
  have "filter is_message_packet (c_written c)
      = filter is_message_packet (take k (c_written c)) @ filter is_message_packet (drop k (c_written c))"
    by (metis append_take_drop_id filter_append)
  then have "prefix (filter is_message_packet (take k (c_written c))) (filter is_message_packet (c_written c))"
    by simp
  then have "\<forall>m \<in> set (completed asm_init (filter is_message_packet (take k (c_written c)))).
      snd m \<in> set (map2 (\<lambda>rep (n, h, b). reply_message rep (h_request_id h)) reps ?D)"
    unfolding reps(2) by (rule completed_numbered [rotated]) (simp add: asm_init_def)
  with assms(2) have "snd m \<in> set (map2 (\<lambda>rep (n, h, b). reply_message rep (h_request_id h)) reps ?D)"
    by (simp add: completed_messages(1))
  from map2_set [OF this] obtain i where i: "i < length reps" "i < length ?D"
    "snd m = (\<lambda>rep (n, h, b). reply_message rep (h_request_id h)) (reps ! i) (?D ! i)"
    by blast
  obtain n h b where D: "?D ! i = (n, h, b)" by (cases "?D ! i") auto
  moreover have "reps ! i \<in> possible_replies env h b"
    using list_all2_nthD [OF reps(1) i(1)] D by simp
  moreover have "(n, h, b) \<in> set ?D" using i(2) D by (metis nth_mem)
  ultimately show thesis using i(3) that by auto
qed

lemma call_of_id:
  assumes "client_reachable s" and "cn_next_id s \<le> 2 ^ 64"
    and "cn_tasks s t = Some tk" "numbered tk" "cn_tasks s u = Some tku" "numbered tku"
    and "wire_id tk = wire_id tku"
  shows "t = u"
proof (rule ccontr)
  assume "t \<noteq> u"
  have ids: "took_id tk" "took_id tku" using assms(4,6) by (auto simp: numbered_def took_id_def)
  with reachable_ids [OF assms(1)] assms(3,5) \<open>t \<noteq> u\<close>
  have "t_id tk < cn_next_id s" "t_id tku < cn_next_id s" "t_id tk \<noteq> t_id tku" unfolding ids_ok_def by blast+
  with assms(2,7) of_nat_u64_inj [of "t_id tk" "t_id tku"] show False by simp
qed

lemma call_answered:
  assumes "reliable env" and "system_reachable env s"
    and "cn_next_no (sy_client s) \<le> 2 ^ 64" and "cn_next_id (sy_client s) \<le> 2 ^ 64"
    and "cn_tasks (sy_client s) t = Some tk" and "t_pc tk = Done (Response r)"
  shows "(\<exists>e. r = lost_response e)
    \<or> (\<exists>rep \<in> possible_replies env (request_header tk) (rq_body (t_args tk)).
        r = \<lparr>rs_header = reply_header rep (wire_id tk), rs_body = rep_body rep, rs_error = None\<rparr>)"
proof -
  let ?taken = "take (sy_taken s) (cl_sent (cn_client (sy_client s)))"
  note cl = system_client [OF assms(2)]
  have num: "numbered tk" using assms(6) by (simp add: numbered_def)
  have "given (sy_client s) r" using assms(5,6) by (auto simp: given_def)
  then have "from_service s r" using system_given [OF assms(1,2)] by blast
  then consider (lost) "\<exists>e. r = lost_response e"
    | (reply) m where "m \<in> set (completed asm_init (take (sy_seen s) (c_written (sy_server s))))"
        "r = \<lparr>rs_header = fst (snd m), rs_body = snd (snd m), rs_error = None\<rparr>"
    by (auto simp: from_service_def)
  then show ?thesis
  proof cases
    case reply
    have "replies_answer env ?taken (sy_server s)"
      using system_ends [OF assms(1,2)] by (simp add: ends_ok_def Let_def)
    from seen_message [OF this reply(1)] obtain n h b rep where
      m: "(n, h, b) \<in> set (completed asm_init ?taken)" "rep \<in> possible_replies env h b"
        "snd m = reply_message rep (h_request_id h)" .
    from completed_call [OF cl assms(3) m(1)] obtain u tku where
      u: "cn_tasks (sy_client s) u = Some tku" "numbered tku" "h = request_header tku" "b = rq_body (t_args tku)" .
    have r: "r = \<lparr>rs_header = reply_header rep (wire_id tku), rs_body = rep_body rep, rs_error = None\<rparr>"
      using reply(2) m(3) u(3) by (simp add: reply_message_def request_header_def Let_def)
    have "rs_error r = None" by (simp add: r)
    then have "\<nexists>e. r = lost_response e" by (auto simp: lost_response_def)
    then have "h_request_id (rs_header r) = wire_id tk"
      using reachable_owners [OF cl] assms(5,6) unfolding owners_ok_def answers_request_def by blast
    then have "wire_id tk = wire_id tku" by (simp add: r reply_header_def)
    from call_of_id [OF cl assms(4,5) num u(1,2) this] have "tku = tk" using assms(5) u(1) by simp
    with m(2) u r show ?thesis by blast
  qed blast
qed

lemma distinct_by_filter: "\<forall>m \<in> set xs. filter (\<lambda>x. f x = f m) xs = [m] \<Longrightarrow> distinct (map f xs)"
proof (induction xs)
  case (Cons x xs)
  then have x: "filter (\<lambda>y. f y = f x) xs = []" by simp
  have "filter (\<lambda>y. f y = f m) xs = [m]" if "m \<in> set xs" for m
  proof -
    have "f m \<noteq> f x" using x that by (auto simp: filter_empty_conv)
    then show ?thesis using Cons.prems that by (auto split: if_splits)
  qed
  with Cons.IH x show ?case by (auto simp: filter_empty_conv)
qed simp

lemma list_all2_choice: "\<forall>x \<in> set xs. \<exists>y. P x y \<Longrightarrow> \<exists>ys. list_all2 P xs ys"
  by (induction xs) (auto simp: list_all2_Cons1)

text \<open>The call \<open>t\<close> whose request is the completed message \<open>m\<close>.\<close>

definition request_origin :: "connection \<Rightarrow> u64 \<times> packet_header \<times> bytes \<Rightarrow> nat \<Rightarrow> bool" where
  "request_origin s m t \<longleftrightarrow>
     (\<exists>tk. cn_tasks s t = Some tk \<and> m = (wire_no tk, request_header tk, rq_body (t_args tk)))"

lemma calls_of_completed:
  assumes "client_reachable s" and "cn_next_no s \<le> 2 ^ 64"
  obtains ts where "distinct ts" "list_all2 (request_origin s) (completed asm_init (take k (cl_sent (cn_client s)))) ts"
proof -
  let ?D = "completed asm_init (take k (cl_sent (cn_client s)))"
  have "\<forall>m \<in> set ?D. filter (\<lambda>x. fst x = fst m) ?D = [m] \<and> (\<exists>t. request_origin s m t)"
  proof
    fix m assume m: "m \<in> set ?D"
    obtain n h b where nhb: "m = (n, h, b)" by (cases m) auto
    with completed_call [OF assms, of n h b k] m show "filter (\<lambda>x. fst x = fst m) ?D = [m] \<and> (\<exists>t. request_origin s m t)"
      unfolding request_origin_def by (metis fst_conv)
  qed
  then have D: "distinct (map fst ?D)" "\<forall>m \<in> set ?D. \<exists>t. request_origin s m t" by (auto intro: distinct_by_filter)
  from list_all2_choice [OF D(2)] obtain ts where ts: "list_all2 (request_origin s) ?D ts" by blast
  have "distinct ts"
  proof (unfold distinct_conv_nth, intro allI impI notI)
    fix i j assume ij: "i < length ts" "j < length ts" "i \<noteq> j" "ts ! i = ts ! j"
    have len: "length ?D = length ts" using ts by (rule list_all2_lengthD)
    have "request_origin s (?D ! i) (ts ! i)" "request_origin s (?D ! j) (ts ! j)"
      using list_all2_nthD [OF ts, of i] list_all2_nthD [OF ts, of j] ij(1,2) len by simp_all
    then have "?D ! i = ?D ! j" using ij(4) by (auto simp: request_origin_def)
    then show False using D(1) ij len by (metis distinct_conv_nth length_map nth_map)
  qed
  with ts that show thesis by blast
qed

lemma calls_replied_once:
  assumes "reliable env" and "system_reachable env s" and "cn_next_no (sy_client s) \<le> 2 ^ 64"
  shows "\<exists>ts tks reps. distinct ts \<and> map (cn_tasks (sy_client s)) ts = map Some tks
    \<and> list_all2 (\<lambda>rep tk. rep \<in> possible_replies env (request_header tk) (rq_body (t_args tk))) reps tks
    \<and> filter is_message_packet (c_written (sy_server s))
        = numbered_messages 0 (map2 (\<lambda>rep tk. reply_message rep (wire_id tk)) reps tks)"
proof -
  let ?D = "completed asm_init (take (sy_taken s) (cl_sent (cn_client (sy_client s))))"
    and ?message = "\<lambda>rep (n, h, b). reply_message rep (h_request_id h)"
  obtain reps where reps: "list_all2 (\<lambda>rep (n, h, b). rep \<in> possible_replies env h b) reps ?D"
    "filter is_message_packet (c_written (sy_server s)) = numbered_messages 0 (map2 ?message reps ?D)"
    using system_ends [OF assms(1,2)] by (auto simp: ends_ok_def Let_def replies_answer_def)
  obtain ts where ts: "distinct ts" "list_all2 (request_origin (sy_client s)) ?D ts"
    using calls_of_completed [OF system_client [OF assms(2)] assms(3)] .
  define tks where "tks = map (\<lambda>t. the (cn_tasks (sy_client s) t)) ts"
  have len: "length reps = length ts" "length ?D = length ts" "length tks = length ts"
    using list_all2_lengthD [OF reps(1)] list_all2_lengthD [OF ts(2)] by (simp_all add: tks_def)
  have each: "cn_tasks (sy_client s) (ts ! i) = Some (tks ! i)"
    "?D ! i = (wire_no (tks ! i), request_header (tks ! i), rq_body (t_args (tks ! i)))"
    "reps ! i \<in> possible_replies env (request_header (tks ! i)) (rq_body (t_args (tks ! i)))" if "i < length ts" for i
    using list_all2_nthD [OF reps(1), of i] list_all2_nthD [OF ts(2), of i] len that
    by (auto simp: request_origin_def tks_def)
  have "map2 ?message reps ?D = map2 (\<lambda>rep tk. reply_message rep (wire_id tk)) reps tks"
    using each(2) len by (intro nth_equalityI) (simp_all add: request_header_def Let_def)
  moreover have "map (cn_tasks (sy_client s)) ts = map Some tks"
    using each(1) len by (intro nth_equalityI) simp_all
  moreover have "list_all2 (\<lambda>rep tk. rep \<in> possible_replies env (request_header tk) (rq_body (t_args tk))) reps tks"
    using each(3) len by (simp add: list_all2_conv_all_nth)
  ultimately show ?thesis
    using ts(1) reps(2) by (intro exI [of _ ts] exI [of _ tks] exI [of _ reps]) simp
qed



subsection \<open>A run\<close>

lemma own_run_task:
  "client_own_step s (run_task t s) \<or> run_task t s = s"
  by (auto simp: run_task_def split: option.split intro: own_run)

lemma system_run_tasks:
  assumes "system_reachable env s"
  shows "system_reachable env (s\<lparr>sy_client := fold run_task ts (sy_client s)\<rparr>)"
proof (induction ts rule: rev_induct)
  case (snoc t ts)
  let ?s = "s\<lparr>sy_client := fold run_task ts (sy_client s)\<rparr>"
  from own_run_task [of "sy_client ?s" t] show ?case
  proof
    assume "client_own_step (sy_client ?s) (run_task t (sy_client ?s))"
    from system_reachable_step [OF snoc client_moves [OF this]] show ?thesis by simp
  qed (use snoc in simp)
qed (use assms in simp)

text \<open>A service whose only action greets.\<close>

definition greeting_env :: server_env where
  "greeting_env = echo_env\<lparr>env_actions := [''echo.v1'' \<mapsto> echo_action\<lparr>ra_handler := (\<lambda>k r. reply_ok ''hello'')\<rparr>]\<rparr>"

definition hello_task :: task where
  "hello_task = \<lparr>t_args = small_request, t_pc = Await, t_id = 1, t_no = 0\<rparr>"

definition greeted :: conn where
  "greeted = snd (server_route greeting_env (eof_packet 0)
     (snd (server_route greeting_env (header_packet 0 (request_header hello_task)) conn_init)))"

lemma reliable_greeting [simp]: "reliable greeting_env"
  by (simp add: greeting_env_def reliable_def echo_env_def)

lemma greeted_written: "c_written greeted = message_packets 0 (reply_header (reply_ok ''hello'') 1) ''hello''"
proof -
  have key: "action_key (request_header hello_task) = ''echo.v1''" by code_simp
  have rid: "h_request_id (request_header hello_task) = 1" by (simp add: request_header_def hello_task_def)
  have env: "env_check greeting_env = None"
    "env_actions greeting_env ''echo.v1'' = Some (echo_action\<lparr>ra_handler := (\<lambda>k r. reply_ok ''hello'')\<rparr>)"
    by (simp_all add: greeting_env_def echo_env_def)
  show ?thesis
    by (simp add: greeted_def server_route_def Let_def conn_init_def dispatch_and_reply_def run_action_def
        env key rid send_reply_reliable) (simp add: reply_ok_def count_call_def)
qed

definition hello_sent :: system where
  "hello_sent = system_init\<lparr>sy_client := awaiting\<rparr>"

lemma hello_sent_reachable: "system_reachable env hello_sent"
proof -
  have "client_own_step (sy_client system_init) (call 0 small_request connection_init)"
    using own_start [of connection_init 0 small_request] by (simp add: call_def system_init_def connection_init_def)
  then have "system_reachable env (system_init\<lparr>sy_client := call 0 small_request connection_init\<rparr>)"
    by (rule system_reachable_step [OF system_reachable_init client_moves])
  from system_run_tasks [OF this, of "[0, 0, 0, 0, 0, 0, 0]"] show ?thesis
    by (simp add: hello_sent_def awaiting_def)
qed

definition hello_greeted :: system where
  "hello_greeted = \<lparr>sy_client = awaiting\<lparr>cn_written := 2\<rparr>, sy_taken = 2, sy_server = greeted, sy_open = True, sy_seen = 0\<rparr>"

lemma hello_greeted_reachable: "system_reachable greeting_env hello_greeted"
proof -
  let ?s = "\<lambda>w k c. \<lparr>sy_client = awaiting\<lparr>cn_written := w\<rparr>, sy_taken = k, sy_server = c, sy_open = True, sy_seen = 0\<rparr>"
  have sent: "cl_sent (cn_client awaiting) = [header_packet 0 (request_header hello_task), eof_packet 0]"
    "cl_writer_alive (cn_client awaiting)" "awaiting\<lparr>cn_written := 0\<rparr> = awaiting"
    by (simp_all add: awaiting_eq client_init_def message_packets_def hello_task_def)
  let ?c = "snd (server_route greeting_env (header_packet 0 (request_header hello_task)) conn_init)"
  have "system_reachable greeting_env (?s 0 0 conn_init)"
    using hello_sent_reachable [of greeting_env] sent(3) by (simp add: hello_sent_def system_init_def)
  moreover have "system_step greeting_env (?s w k c) (?s (Suc w) k c)" if "w < 2" for w k c
    using system_step.client_moves [OF own_write_out, of "?s w k c"] that sent by simp
  moreover have "system_step greeting_env (?s 2 0 conn_init) (?s 2 1 ?c)"
    using system_step.service_routes [of "?s 2 0 conn_init" greeting_env True ?c] sent
    by (simp add: server_route_def conn_init_def)
  moreover have "system_step greeting_env (?s 2 1 ?c) (?s 2 2 greeted)"
    using system_step.service_routes [of "?s 2 1 ?c" greeting_env True greeted] sent
    by (simp add: greeted_def numeral_2_eq_2) (simp add: server_route_def split: option.split)
  ultimately show ?thesis
    unfolding hello_greeted_def
    by (metis system_reachable_step Suc_1 One_nat_def lessI less_2_cases_iff numeral_2_eq_2 zero_less_Suc)
qed

lemma hello_greeted_written:
  "c_written (sy_server hello_greeted)
    = [header_packet 0 (reply_header (reply_ok ''hello'') 1), data_packet 0 ''hello'', eof_packet 0]"
  by (simp add: hello_greeted_def greeted_written message_packets_def data_packets_step DATA_CHUNK_SIZE_def)

text \<open>The client reads the three packets, and the call returns.\<close>

definition hello_read :: "nat \<Rightarrow> system" where
  "hello_read k = hello_greeted\<lparr>sy_seen := k, sy_client := (sy_client hello_greeted)\<lparr>cn_client :=
     fold client_route (take k (c_written (sy_server hello_greeted))) (cn_client (sy_client hello_greeted))\<rparr>\<rparr>"

lemma client_route_sent_length: "length (cl_sent (client_route p s)) \<le> Suc (length (cl_sent s))"
  by (cases "p_type p") (auto simp: client_route_def Let_def writer_send_def split: option.split)

lemma hello_read_reachable: "k \<le> 3 \<Longrightarrow> system_reachable greeting_env (hello_read k)"
proof (induction k)
  case 0
  with hello_greeted_reachable show ?case by (simp add: hello_read_def hello_greeted_def)
next
  case (Suc k)
  let ?ws = "c_written (sy_server hello_greeted)" and ?cl = "cn_client (sy_client hello_greeted)"
  have k: "k < length ?ws" using Suc.prems by (simp add: hello_greeted_written)
  have "length (cl_sent (fold client_route ps cl)) \<le> length ps + length (cl_sent cl)" for ps cl
  proof (induction ps arbitrary: cl)
    case (Cons p ps)
    have "length (cl_sent (fold client_route ps (client_route p cl))) \<le> length ps + length (cl_sent (client_route p cl))"
      by (rule Cons.IH)
    with client_route_sent_length [of p cl] show ?case by simp
  qed simp
  from this [of "take k ?ws" ?cl] have "length (cl_sent (fold client_route (take k ?ws) ?cl)) \<le> k + length (cl_sent ?cl)"
    by simp
  moreover have "length (cl_sent ?cl) = 2" by (simp add: hello_greeted_def awaiting_eq message_packets_def)
  ultimately have "length (cl_sent (cn_client (sy_client (hello_read k)))) < WRITER_CAPACITY"
    using Suc.prems by (simp add: hello_read_def WRITER_CAPACITY_def)
  then have "writer_room (sy_client (hello_read k))" by (simp add: writer_room_def less_imp_diff_less)
  then have "system_step greeting_env (hello_read k) (hello_read (Suc k))"
    using system_step.client_routes [of "hello_read k" greeting_env] k
    by (simp add: hello_read_def take_Suc_conv_app_nth hello_greeted_def awaiting_eq)
  with Suc show ?case by (auto intro: system_reachable_step)
qed

definition hello_done :: system where
  "hello_done = (hello_read 3)\<lparr>sy_client := fold run_task [0, 0] (sy_client (hello_read 3))\<rparr>"

lemma hello_done_reachable: "system_reachable greeting_env hello_done"
  unfolding hello_done_def by (rule system_run_tasks) (simp add: hello_read_reachable)

definition greeting :: scamp_response where
  "greeting = \<lparr>rs_header = reply_header (reply_ok ''hello'') 1, rs_body = ''hello'', rs_error = None\<rparr>"

lemma hello_done_client:
  "cn_tasks (sy_client hello_done) 0 = Some (hello_task\<lparr>t_pc := Done (Response greeting)\<rparr>)"
  "cn_next_no (sy_client hello_done) = 1" "cn_next_id (sy_client hello_done) = 2"
  "c_written (sy_server hello_done) = message_packets 0 (reply_header (reply_ok ''hello'') 1) ''hello''"
proof -
  have three: "take 3 (c_written (sy_server hello_greeted)) = c_written (sy_server hello_greeted)"
    by (rule take_all) (simp add: hello_greeted_written)
  have rid: "h_request_id (reply_header (reply_ok ''hello'') 1) = 1" by (simp add: reply_header_def)
  note simps = hello_done_def hello_read_def three hello_greeted_written
  show "cn_tasks (sy_client hello_done) 0 = Some (hello_task\<lparr>t_pc := Done (Response greeting)\<rparr>)"
    "cn_next_no (sy_client hello_done) = 1" "cn_next_id (sy_client hello_done) = 2"
    unfolding simps
    by (simp_all add: hello_greeted_def awaiting_eq client_init_def client_route_def Let_def deliver_def rid
        writer_send_def run_simps greeting_def hello_task_def)
  show "c_written (sy_server hello_done) = message_packets 0 (reply_header (reply_ok ''hello'') 1) ''hello''"
    unfolding simps by (simp add: hello_greeted_def greeted_written)
qed



end
