(* ===== verification/Call_Completion.thy ===== *)
theory Call_Completion
  imports Concurrent_System
begin

text \<open>
  Calls that complete on the system of both ends (\<open>Concurrent_System\<close>): the execution in which the
  client, the stream and the service each do their part of a call in turn.

  A run is stated over the part of the state it depends on (\<open>view\<close>), for states in which the service has
  taken all the client has sent (\<open>idle\<close>): the request goes out chunk by chunk, each chunk acknowledged
  before the next, and the reply comes back.  A call leaves a connection at rest as it found it, so
  that calls follow one another without end.
\<close>

subsection \<open>What a run depends on\<close>

abbreviation system_steps :: "server_env \<Rightarrow> system \<Rightarrow> system \<Rightarrow> bool" where
  "system_steps env \<equiv> (system_step env)\<^sup>*\<^sup>*"

text \<open>The parts of the state that decide how an undisturbed call goes on.\<close>

record view =
  vw_tasks :: "nat \<rightharpoonup> task"
  vw_next_id :: nat
  vw_next_no :: nat
  vw_pending :: "(i64 \<times> nat) list"
  vw_answers :: "nat \<rightharpoonup> scamp_response"
  vw_outgoing :: "u64 \<rightharpoonup> outgoing_state"
  vw_incoming :: "u64 \<rightharpoonup> incoming_message"
  vw_next_in :: u64
  vw_requests :: "u64 \<rightharpoonup> incoming_request"
  vw_expected :: u64
  vw_next_out :: u64
  vw_unread :: "packet list"

definition view_of :: "system \<Rightarrow> view" where
  "view_of s =
     (let cn = sy_client s; cl = cn_client cn; c = sy_server s in
      \<lparr>vw_tasks = cn_tasks cn, vw_next_id = cn_next_id cn, vw_next_no = cn_next_no cn, vw_pending = cl_pending cl,
       vw_answers = cl_answers cl, vw_outgoing = cl_outgoing cl, vw_incoming = cl_incoming cl,
       vw_next_in = cl_next_in cl, vw_requests = c_incoming c, vw_expected = c_next_in c, vw_next_out = c_next_out c,
       vw_unread = drop (sy_seen s) (c_written c)\<rparr>)"

text \<open>Both ends run, and the service has taken everything the client has sent.\<close>

definition idle :: "system \<Rightarrow> bool" where
  "idle s \<longleftrightarrow>
     sy_open s \<and> cn_reader (sy_client s) = Reading \<and> cl_writer_alive (cn_client (sy_client s))
     \<and> cn_written (sy_client s) = length (cl_sent (cn_client (sy_client s)))
     \<and> sy_taken s = length (cl_sent (cn_client (sy_client s)))
     \<and> sy_seen s \<le> length (c_written (sy_server s))"

definition runs_to :: "server_env \<Rightarrow> view \<Rightarrow> view \<Rightarrow> bool" where
  "runs_to env v v' \<longleftrightarrow>
     (\<forall>s. idle s \<longrightarrow> view_of s = v \<longrightarrow> (\<exists>s'. system_steps env s s' \<and> idle s' \<and> view_of s' = v'))"

lemma runs_to_refl [simp]: "runs_to env v v"
  by (auto simp: runs_to_def)

lemma runs_to_trans [trans]: "runs_to env u v \<Longrightarrow> runs_to env v w \<Longrightarrow> runs_to env u w"
  unfolding runs_to_def using rtranclp_trans [of "system_step env"] by fast

lemma view_of_fields [simp]:
  "vw_tasks (view_of s) = cn_tasks (sy_client s)" "vw_next_id (view_of s) = cn_next_id (sy_client s)"
  "vw_next_no (view_of s) = cn_next_no (sy_client s)" "vw_pending (view_of s) = cl_pending (cn_client (sy_client s))"
  "vw_answers (view_of s) = cl_answers (cn_client (sy_client s))" "vw_outgoing (view_of s) = cl_outgoing (cn_client (sy_client s))"
  "vw_incoming (view_of s) = cl_incoming (cn_client (sy_client s))" "vw_next_in (view_of s) = cl_next_in (cn_client (sy_client s))"
  "vw_requests (view_of s) = c_incoming (sy_server s)" "vw_expected (view_of s) = c_next_in (sy_server s)"
  "vw_next_out (view_of s) = c_next_out (sy_server s)" "vw_unread (view_of s) = drop (sy_seen s) (c_written (sy_server s))"
  by (simp_all add: view_of_def Let_def)

lemma view_of_eq:
  "view_of s = v \<longleftrightarrow>
     cn_tasks (sy_client s) = vw_tasks v \<and> cn_next_id (sy_client s) = vw_next_id v
     \<and> cn_next_no (sy_client s) = vw_next_no v \<and> cl_pending (cn_client (sy_client s)) = vw_pending v
     \<and> cl_answers (cn_client (sy_client s)) = vw_answers v \<and> cl_outgoing (cn_client (sy_client s)) = vw_outgoing v
     \<and> cl_incoming (cn_client (sy_client s)) = vw_incoming v \<and> cl_next_in (cn_client (sy_client s)) = vw_next_in v
     \<and> c_incoming (sy_server s) = vw_requests v \<and> c_next_in (sy_server s) = vw_expected v
     \<and> c_next_out (sy_server s) = vw_next_out v \<and> drop (sy_seen s) (c_written (sy_server s)) = vw_unread v"
  by (cases v) (auto simp: view_of_def Let_def)

subsection \<open>Steps of a call\<close>

text \<open>A step of the task that sends nothing.\<close>

lemma runs_local:
  assumes "vw_tasks v t = Some tk"
    and "\<And>s. idle s \<Longrightarrow> view_of s = v \<Longrightarrow> \<exists>cn. task_step t tk (sy_client s) = Some (tk', cn)
      \<and> cl_sent (cn_client cn) = cl_sent (cn_client (sy_client s)) \<and> cl_writer_alive (cn_client cn)
      \<and> view_of (s\<lparr>sy_client := cn\<lparr>cn_tasks := (vw_tasks v)(t \<mapsto> tk')\<rparr>\<rparr>) = v'"
  shows "runs_to env v v'"
  unfolding runs_to_def
proof (intro allI impI)
  fix s assume s: "idle s" "view_of s = v"
  from assms(2) [OF s] obtain cn where cn: "task_step t tk (sy_client s) = Some (tk', cn)"
    "cl_sent (cn_client cn) = cl_sent (cn_client (sy_client s))" "cl_writer_alive (cn_client cn)"
    "view_of (s\<lparr>sy_client := cn\<lparr>cn_tasks := (vw_tasks v)(t \<mapsto> tk')\<rparr>\<rparr>) = v'" by blast
  let ?s = "s\<lparr>sy_client := cn\<lparr>cn_tasks := (cn_tasks cn)(t \<mapsto> tk')\<rparr>\<rparr>"
  have "cn_tasks (sy_client s) t = Some tk" using assms(1) s(2) by auto
  from client_moves [OF own_run [OF this cn(1)]] have "system_step env s ?s" .
  moreover have "idle ?s" using s(1) cn(2,3) task_step_frame(2,3) [OF cn(1)] by (simp add: idle_def)
  moreover have "view_of ?s = v'"
    using cn(4) s(2) task_step_frame(1) [OF cn(1)] by auto
  ultimately show "\<exists>s'. system_steps env s s' \<and> idle s' \<and> view_of s' = v'" by blast
qed

lemma runs_start:
  assumes "vw_tasks v t = None"
  shows "runs_to env v (v\<lparr>vw_tasks := (vw_tasks v)(t \<mapsto> new_task a)\<rparr>)"
  unfolding runs_to_def
proof (intro allI impI)
  fix s assume s: "idle s" "view_of s = v"
  let ?s = "s\<lparr>sy_client := (sy_client s)\<lparr>cn_tasks := (cn_tasks (sy_client s))(t \<mapsto> new_task a)\<rparr>\<rparr>"
  have "cn_tasks (sy_client s) t = None" using assms s(2) by auto
  from client_moves [OF own_start [OF this]] have "system_step env s ?s" .
  moreover have "idle ?s" using s(1) by (simp add: idle_def)
  moreover have "view_of ?s = v\<lparr>vw_tasks := (vw_tasks v)(t \<mapsto> new_task a)\<rparr>"
    using s(2) by (simp add: view_of_eq)
  ultimately show "\<exists>s'. system_steps env s s' \<and> idle s' \<and> view_of s' = v\<lparr>vw_tasks := (vw_tasks v)(t \<mapsto> new_task a)\<rparr>"
    by blast
qed

abbreviation task_at :: "request_args \<Rightarrow> nat \<Rightarrow> nat \<Rightarrow> pc \<Rightarrow> task" where
  "task_at a i n x \<equiv> \<lparr>t_args = a, t_pc = x, t_id = i, t_no = n\<rparr>"

lemma runs_registered:
  assumes "vw_tasks v t = None" and "vw_pending v = []" and "vw_outgoing v = Map.empty"
  shows "runs_to env v (v\<lparr>vw_tasks := (vw_tasks v)(t \<mapsto> task_at a (vw_next_id v) (vw_next_no v) SendHeader),
    vw_next_id := Suc (vw_next_id v), vw_next_no := Suc (vw_next_no v),
    vw_pending := [(of_nat (vw_next_id v), t)], vw_outgoing := [of_nat (vw_next_no v) \<mapsto> outgoing_default]\<rparr>)"
proof -
  let ?i = "vw_next_id v" and ?n = "vw_next_no v"
  let ?v1 = "v\<lparr>vw_tasks := (vw_tasks v)(t \<mapsto> new_task a)\<rparr>"
  let ?v2 = "v\<lparr>vw_tasks := (vw_tasks v)(t \<mapsto> task_at a 0 0 TakeId)\<rparr>"
  let ?v3 = "v\<lparr>vw_tasks := (vw_tasks v)(t \<mapsto> task_at a ?i 0 TakeNumber), vw_next_id := Suc ?i\<rparr>"
  let ?v4 = "v\<lparr>vw_tasks := (vw_tasks v)(t \<mapsto> task_at a ?i ?n RegisterPending), vw_next_id := Suc ?i,
      vw_next_no := Suc ?n\<rparr>"
  let ?v5 = "v\<lparr>vw_tasks := (vw_tasks v)(t \<mapsto> task_at a ?i ?n RegisterOutgoing), vw_next_id := Suc ?i,
      vw_next_no := Suc ?n, vw_pending := [(of_nat ?i, t)]\<rparr>"
  have "runs_to env v ?v1" by (rule runs_start [OF assms(1)])
  also have "runs_to env ?v1 ?v2"
    by (rule runs_local [of _ t "new_task a" "task_at a 0 0 TakeId"])
      (simp_all add: new_task_def task_step_def cn_closed_def idle_def view_of_eq Let_def)
  also have "runs_to env ?v2 ?v3"
    by (rule runs_local [of _ t "task_at a 0 0 TakeId" "task_at a ?i 0 TakeNumber"])
      (simp_all add: task_step_def idle_def view_of_eq Let_def)
  also have "runs_to env ?v3 ?v4"
    by (rule runs_local [of _ t "task_at a ?i 0 TakeNumber" "task_at a ?i ?n RegisterPending"])
      (simp_all add: task_step_def idle_def view_of_eq Let_def)
  also have "runs_to env ?v4 ?v5"
    using assms(2) by (intro runs_local [of _ t "task_at a ?i ?n RegisterPending" "task_at a ?i ?n RegisterOutgoing"])
      (simp_all add: task_step_def idle_def view_of_eq Let_def)
  also have "runs_to env ?v5 (v\<lparr>vw_tasks := (vw_tasks v)(t \<mapsto> task_at a ?i ?n SendHeader),
    vw_next_id := Suc ?i, vw_next_no := Suc ?n,
    vw_pending := [(of_nat ?i, t)], vw_outgoing := [of_nat ?n \<mapsto> outgoing_default]\<rparr>)"
    using assms(3) by (intro runs_local [of _ t "task_at a ?i ?n RegisterOutgoing" "task_at a ?i ?n SendHeader"])
      (simp_all add: task_step_def idle_def view_of_eq Let_def)
  finally show ?thesis .
qed

definition leads_to :: "server_env \<Rightarrow> view \<Rightarrow> (view \<Rightarrow> bool) \<Rightarrow> bool" where
  "leads_to env v Q \<longleftrightarrow>
     (\<forall>s. idle s \<longrightarrow> view_of s = v \<longrightarrow> (\<exists>s'. system_steps env s s' \<and> idle s' \<and> Q (view_of s')))"

lemma runs_leads: "runs_to env v w \<Longrightarrow> leads_to env w Q \<Longrightarrow> leads_to env v Q"
  unfolding leads_to_def runs_to_def using rtranclp_trans [of "system_step env"] by fast

lemma leads_to_bind: "leads_to env v P \<Longrightarrow> (\<And>w. P w \<Longrightarrow> leads_to env w Q) \<Longrightarrow> leads_to env v Q"
  unfolding leads_to_def using rtranclp_trans [of "system_step env"] by fast

lemma leads_to_weaken: "leads_to env v P \<Longrightarrow> (\<And>w. P w \<Longrightarrow> Q w) \<Longrightarrow> leads_to env v Q"
  unfolding leads_to_def by fast

lemma leads_to_here: "Q v \<Longrightarrow> leads_to env v Q"
  unfolding leads_to_def by fast

lemma runs_to_leads: "runs_to env v w \<longleftrightarrow> leads_to env v (\<lambda>u. u = w)"
  by (simp add: runs_to_def leads_to_def)

text \<open>A packet of the client goes over to the service at once.\<close>

lemma handed_over:
  assumes "idle s" and "cl = (cn_client (sy_client s))\<lparr>cl_sent := cl_sent (cn_client (sy_client s)) @ [p]\<rparr>"
    and step: "system_step env s (s\<lparr>sy_client := cn\<rparr>)"
    and cn: "cn_client cn = cl" "cn_reader cn = Reading" "cn_written cn = cn_written (sy_client s)"
    and route: "server_route env p (sy_server s) = (True, c)" and "prefix (c_written (sy_server s)) (c_written c)"
  shows "\<exists>s'. system_steps env s s' \<and> idle s' \<and> view_of s' = view_of (s\<lparr>sy_client := cn, sy_server := c\<rparr>)"
proof -
  let ?s1 = "s\<lparr>sy_client := cn\<rparr>" and ?cn2 = "cn\<lparr>cn_written := Suc (cn_written cn)\<rparr>"
  let ?s2 = "?s1\<lparr>sy_client := ?cn2\<rparr>"
  let ?s3 = "?s2\<lparr>sy_taken := Suc (sy_taken ?s2), sy_server := c, sy_open := True\<rparr>"
  have ends: "sy_open s" "cl_writer_alive cl" "cn_written (sy_client s) = length (cl_sent (cn_client (sy_client s)))"
    "sy_taken s = length (cl_sent (cn_client (sy_client s)))" "sy_seen s \<le> length (c_written (sy_server s))"
    using assms(1,2) by (simp_all add: idle_def)
  have "system_step env ?s1 ?s2"
    using client_moves [OF own_write_out, of ?s1] ends cn assms(2) by simp
  moreover have "system_step env ?s2 ?s3"
    by (rule service_routes) (use ends cn assms(2) route in simp_all)
  ultimately have "system_steps env s ?s3" using step by (meson converse_rtranclp_into_rtranclp r_into_rtranclp)
  moreover have "idle ?s3"
    using ends cn assms(2) prefix_length_le [OF assms(8)] by (simp add: idle_def)
  moreover have "view_of ?s3 = view_of (s\<lparr>sy_client := cn, sy_server := c\<rparr>)" by (simp add: view_of_eq)
  ultimately show ?thesis by blast
qed

lemma send_leads:
  assumes tk: "vw_tasks v t = Some tk"
    and send: "\<And>s. view_of s = v \<Longrightarrow> task_step t tk (sy_client s) = task_send p x err tk (sy_client s)"
    and route: "\<And>c. c_incoming c = vw_requests v \<Longrightarrow> c_next_in c = vw_expected v \<Longrightarrow> c_next_out c = vw_next_out v
      \<Longrightarrow> \<exists>c' out. server_route env p c = (True, c') \<and> c_written c' = c_written c @ out
        \<and> Q (v\<lparr>vw_tasks := (vw_tasks v)(t \<mapsto> tk\<lparr>t_pc := x\<rparr>), vw_requests := c_incoming c', vw_expected := c_next_in c',
              vw_next_out := c_next_out c', vw_unread := vw_unread v @ out\<rparr>)"
  shows "leads_to env v Q"
  unfolding leads_to_def
proof (intro allI impI)
  fix s assume s: "idle s" "view_of s = v"
  let ?cl = "(cn_client (sy_client s))\<lparr>cl_sent := cl_sent (cn_client (sy_client s)) @ [p]\<rparr>"
  let ?cn = "(sy_client s)\<lparr>cn_client := ?cl, cn_tasks := (cn_tasks (sy_client s))(t \<mapsto> tk\<lparr>t_pc := x\<rparr>)\<rparr>"
  obtain c' out where c': "server_route env p (sy_server s) = (True, c')" "c_written c' = c_written (sy_server s) @ out"
    "Q (v\<lparr>vw_tasks := (vw_tasks v)(t \<mapsto> tk\<lparr>t_pc := x\<rparr>), vw_requests := c_incoming c', vw_expected := c_next_in c',
              vw_next_out := c_next_out c', vw_unread := vw_unread v @ out\<rparr>)"
    using route [of "sy_server s"] s(2) by (auto simp: view_of_eq)
  have "cn_tasks (sy_client s) t = Some tk" using tk s(2) by auto
  moreover have "task_step t tk (sy_client s) = Some (tk\<lparr>t_pc := x\<rparr>, (sy_client s)\<lparr>cn_client := ?cl\<rparr>)"
    using s(1) unfolding send [OF s(2)]
    by (simp add: task_send_def writer_send_def writer_room_def WRITER_CAPACITY_def idle_def)
  ultimately have "client_own_step (sy_client s) ?cn" using own_run by fastforce
  from client_moves [of s ?cn, OF this] have step: "system_step env s (s\<lparr>sy_client := ?cn\<rparr>)" .
  obtain s' where "system_steps env s s'" "idle s'" "view_of s' = view_of (s\<lparr>sy_client := ?cn, sy_server := c'\<rparr>)"
    using handed_over [OF s(1) refl step _ _ _ c'(1)] s(1) c'(2) by (auto simp: idle_def)
  moreover have "view_of (s\<lparr>sy_client := ?cn, sy_server := c'\<rparr>) = v\<lparr>vw_tasks := (vw_tasks v)(t \<mapsto> tk\<lparr>t_pc := x\<rparr>),
      vw_requests := c_incoming c', vw_expected := c_next_in c', vw_next_out := c_next_out c', vw_unread := vw_unread v @ out\<rparr>"
    using s c'(2) by (simp add: view_of_eq idle_def)
  ultimately show "\<exists>s'. system_steps env s s' \<and> idle s' \<and> Q (view_of s')" using c'(3) by metis
qed

text \<open>The client reads a packet; an acknowledgement it answers with goes over at once.\<close>

definition read_view :: "view \<Rightarrow> packet list \<Rightarrow> client \<Rightarrow> view" where
  "read_view v rest cl = v\<lparr>vw_pending := cl_pending cl, vw_answers := cl_answers cl, vw_outgoing := cl_outgoing cl,
     vw_incoming := cl_incoming cl, vw_next_in := cl_next_in cl, vw_unread := rest\<rparr>"

lemma read_leads:
  assumes unread: "vw_unread v = p # rest"
    and route: "\<And>s. view_of s = v \<Longrightarrow> cl_writer_alive (cn_client (sy_client s)) \<Longrightarrow> \<exists>q.
      read_view v rest (client_route p (cn_client (sy_client s))) = w
      \<and> cl_writer_alive (client_route p (cn_client (sy_client s)))
      \<and> cl_sent (client_route p (cn_client (sy_client s))) = cl_sent (cn_client (sy_client s)) @ q
      \<and> (q = [] \<or> (\<exists>no n. q = [ack_packet no n]))"
  shows "runs_to env v w"
  unfolding runs_to_def
proof (intro allI impI)
  fix s assume s: "idle s" "view_of s = v"
  let ?cl = "cn_client (sy_client s)"
  let ?cn = "(sy_client s)\<lparr>cn_client := client_route p ?cl\<rparr>"
  let ?s1 = "s\<lparr>sy_seen := Suc (sy_seen s), sy_client := ?cn\<rparr>"
  have alive: "cl_writer_alive ?cl" using s(1) by (simp add: idle_def)
  obtain q where q: "read_view v rest (client_route p ?cl) = w" "cl_writer_alive (client_route p ?cl)"
    "cl_sent (client_route p ?cl) = cl_sent ?cl @ q" "q = [] \<or> (\<exists>no n. q = [ack_packet no n])"
    using route [OF s(2) alive] by blast
  have unread': "drop (sy_seen s) (c_written (sy_server s)) = p # rest" using unread s(2) by auto
  then have lt: "sy_seen s < length (c_written (sy_server s))" by (metis drop_all list.distinct(1) not_le)
  have p: "c_written (sy_server s) ! sy_seen s = p" "drop (Suc (sy_seen s)) (c_written (sy_server s)) = rest"
    using unread' lt by (simp_all add: Cons_nth_drop_Suc [symmetric])
  have room: "writer_room (sy_client s)" using s(1) by (simp add: idle_def writer_room_def WRITER_CAPACITY_def)
  have step: "system_step env s ?s1"
    using client_routes [OF _ room lt, of env] s(1) p(1) by (simp add: idle_def)
  have view: "view_of ?s1 = w" using s(2) p(2) q(1) by (auto simp: view_of_eq read_view_def)
  from q(4) show "\<exists>s'. system_steps env s s' \<and> idle s' \<and> view_of s' = w"
  proof (elim disjE exE)
    assume "q = []"
    then have "idle ?s1" using s(1) q(2,3) lt by (simp add: idle_def)
    with step view show ?thesis by blast
  next
    fix no n assume ack: "q = [ack_packet no n]"
    let ?cn2 = "?cn\<lparr>cn_written := Suc (cn_written ?cn)\<rparr>"
    let ?s2 = "?s1\<lparr>sy_client := ?cn2\<rparr>" and ?c = "server_ack (ack_packet no n) (sy_server s)"
    let ?s3 = "?s2\<lparr>sy_taken := Suc (sy_taken ?s2), sy_server := ?c, sy_open := True\<rparr>"
    have "system_step env ?s1 ?s2"
      using client_moves [OF own_write_out, of ?s1] s(1) q(2,3) ack by (simp add: idle_def)
    moreover have "system_step env ?s2 ?s3"
      by (rule service_routes) (use s(1) q(3) ack in \<open>simp_all add: idle_def server_route_def\<close>)
    ultimately have "system_steps env s ?s3" using step by (meson converse_rtranclp_into_rtranclp r_into_rtranclp)
    moreover have same: "c_incoming ?c = c_incoming (sy_server s)" "c_next_in ?c = c_next_in (sy_server s)"
      "c_next_out ?c = c_next_out (sy_server s)" "c_written ?c = c_written (sy_server s)"
      by (simp_all add: server_ack_def split: option.split)
    have "idle ?s3" using s(1) q(2,3) lt ack same by (simp add: idle_def)
    moreover have "view_of ?s3 = w" using view same by (simp add: view_of_eq)
    ultimately show ?thesis by blast
  qed
qed

subsection \<open>The request goes out\<close>

text \<open>The view while call \<open>t\<close> is at program counter \<open>x\<close> with \<open>k\<close> bytes sent and acknowledged.\<close>

definition sending_view :: "view \<Rightarrow> nat \<Rightarrow> request_args \<Rightarrow> pc \<Rightarrow> nat \<Rightarrow> view" where
  "sending_view v t a x k =
     (let i = vw_next_id v; n = vw_next_no v; tk = task_at a i n x in
      v\<lparr>vw_tasks := (vw_tasks v)(t \<mapsto> tk), vw_next_id := Suc i, vw_next_no := Suc n,
        vw_pending := [(of_nat i, t)], vw_outgoing := [of_nat n \<mapsto> \<lparr>os_sent = k, os_acknowledged = k\<rparr>],
        vw_requests := [of_nat n \<mapsto> \<lparr>in_header = request_header (task_at a i n Await), in_body = take k (rq_body a), in_received = k\<rparr>],
        vw_expected := of_nat n + 1\<rparr>)"

lemma request_header_pc: "request_header (task_at a i n x) = request_header (task_at a i n y)"
  by (simp add: request_header_def)

text \<open>Nothing is under way, and the service expects the number the next call will take.\<close>

definition quiet :: "view \<Rightarrow> bool" where
  "quiet v \<longleftrightarrow>
     vw_pending v = [] \<and> vw_outgoing v = Map.empty \<and> vw_incoming v = Map.empty \<and> vw_requests v = Map.empty
     \<and> vw_unread v = [] \<and> vw_expected v = of_nat (vw_next_no v) \<and> vw_next_in v = vw_next_out v"

lemma header_sent:
  assumes "quiet v" and "vw_tasks v t = None"
  shows "runs_to env v (sending_view v t a (loop_pc (task_at a (vw_next_id v) (vw_next_no v) SendHeader) 0) 0)"
proof -
  let ?i = "vw_next_id v" and ?n = "vw_next_no v"
  let ?tk = "task_at a ?i ?n SendHeader"
  let ?v = "v\<lparr>vw_tasks := (vw_tasks v)(t \<mapsto> ?tk), vw_next_id := Suc ?i, vw_next_no := Suc ?n,
    vw_pending := [(of_nat ?i, t)], vw_outgoing := [of_nat ?n \<mapsto> outgoing_default]\<rparr>"
  have "runs_to env v ?v" using assms by (intro runs_registered) (simp_all add: quiet_def)
  moreover have "leads_to env ?v (\<lambda>w. w = sending_view v t a (loop_pc ?tk 0) 0)"
  proof (rule send_leads [of _ t ?tk "header_packet (wire_no ?tk) (request_header ?tk)" "loop_pc ?tk 0" ClosedSendingHeader])
    fix c :: conn
    assume "c_incoming c = vw_requests ?v" "c_next_in c = vw_expected ?v" "c_next_out c = vw_next_out ?v"
    with assms(1) show "\<exists>c' out. server_route env (header_packet (wire_no ?tk) (request_header ?tk)) c = (True, c')
        \<and> c_written c' = c_written c @ out
        \<and> ?v\<lparr>vw_tasks := (vw_tasks ?v)(t \<mapsto> ?tk\<lparr>t_pc := loop_pc ?tk 0\<rparr>), vw_requests := c_incoming c',
              vw_expected := c_next_in c', vw_next_out := c_next_out c', vw_unread := vw_unread ?v @ out\<rparr>
          = sending_view v t a (loop_pc ?tk 0) 0"
      by (simp add: server_route_def quiet_def sending_view_def Let_def outgoing_default_def request_header_pc [of a SendHeader _ _ Await])
  qed (simp_all add: task_step_def Let_def)
  ultimately show ?thesis unfolding runs_to_leads [symmetric] by (rule runs_to_trans)
qed

text \<open>One chunk: sent, acknowledged by the service, the acknowledgement read.\<close>

lemma client_ack_value_dec: "0 < n \<Longrightarrow> n \<le> u64_max \<Longrightarrow> client_ack_value (dec_of_nat n) = Some n"
  by (simp add: client_ack_value_def)

lemma chunk_sent:
  assumes env: "reliable env" and v: "vw_unread v = []" and max: "length (rq_body a) \<le> u64_max"
    and at: "at_chunk (task_at a i n x) k" and i: "i = vw_next_id v" "n = vw_next_no v"
    and e: "e = chunk_end (task_at a i n x) k"
  shows "runs_to env (sending_view v t a (FlowCheck k) k) (sending_view v t a (loop_pc (task_at a i n x) e) e)"
proof -
  let ?no = "of_nat n :: u64"
  define b where "b = take (e - k) (drop k (rq_body a))"
  let ?at = "task_at a i n"
  have ke: "k < e" "e \<le> length (rq_body a)" "k + length b = e" "0 < e" "e \<le> u64_max"
    using chunk_end_props(1,3) [OF at] max e by (auto simp: b_def)
  have joined: "take k (rq_body a) @ b = take e (rq_body a)"
    unfolding b_def using ke(1,2) by (metis le_add_diff_inverse less_imp_le take_add)
  have ck: "chunk_end (?at y) k = e" for y by (simp add: e chunk_end_def)
  have lp: "loop_pc (?at y) e = loop_pc (?at x) e" for y by (simp add: loop_pc_def)
  let ?v1 = "sending_view v t a (SendData k) k"
  let ?v2 = "(sending_view v t a (CountSent k e) e)
    \<lparr>vw_outgoing := [?no \<mapsto> \<lparr>os_sent = k, os_acknowledged = k\<rparr>], vw_unread := [ack_packet ?no e]\<rparr>"
  let ?v3 = "(sending_view v t a (loop_pc (?at x) e) e)
    \<lparr>vw_outgoing := [?no \<mapsto> \<lparr>os_sent = e, os_acknowledged = k\<rparr>], vw_unread := [ack_packet ?no e]\<rparr>"
  have "runs_to env (sending_view v t a (FlowCheck k) k) ?v1"
    by (rule runs_local [of _ t "?at (FlowCheck k)" "?at (SendData k)"])
      (simp_all add: sending_view_def Let_def i task_step_def view_of_eq idle_def cn_closed_def over_watermark_def
        FLOW_CONTROL_WATERMARK_def)
  also have "runs_to env ?v1 ?v2"
    unfolding runs_to_leads
  proof (rule send_leads [of _ t "?at (SendData k)" "data_packet ?no b" "CountSent k e" ClosedSendingData])
    fix c :: conn
    assume "c_incoming c = vw_requests ?v1" "c_next_in c = vw_expected ?v1" "c_next_out c = vw_next_out ?v1"
    then show "\<exists>c' out. server_route env (data_packet ?no b) c = (True, c') \<and> c_written c' = c_written c @ out
        \<and> ?v1\<lparr>vw_tasks := (vw_tasks ?v1)(t \<mapsto> ?at (SendData k)\<lparr>t_pc := CountSent k e\<rparr>), vw_requests := c_incoming c',
              vw_expected := c_next_in c', vw_next_out := c_next_out c', vw_unread := vw_unread ?v1 @ out\<rparr> = ?v2"
      using env joined ke(3) by (simp add: server_route_def sending_view_def Let_def i v)
  qed (simp_all add: sending_view_def Let_def i task_step_def ck [unfolded i] b_def)
  also have "runs_to env ?v2 ?v3"
    using ke by (intro runs_local [of _ t "?at (CountSent k e)" "?at (loop_pc (?at x) e)"])
      (simp_all add: sending_view_def Let_def i task_step_def view_of_eq idle_def add_sent_def lp [of "CountSent k e", unfolded i])
  also have "runs_to env ?v3 (sending_view v t a (loop_pc (?at x) e) e)"
  proof (rule read_leads [of _ "ack_packet ?no e" "[]"])
    fix s
    assume s: "view_of s = ?v3" and alive: "cl_writer_alive (cn_client (sy_client s))"
    let ?cl = "cn_client (sy_client s)"
    have out: "cl_outgoing ?cl = [?no \<mapsto> \<lparr>os_sent = e, os_acknowledged = k\<rparr>]" using s by (simp add: view_of_eq)
    have "client_route (ack_packet ?no e) ?cl
        = notify_one (?cl\<lparr>cl_outgoing := [?no \<mapsto> \<lparr>os_sent = e, os_acknowledged = e\<rparr>]\<rparr>)"
      using ke client_ack_value_dec [of e] by (simp add: client_route_def client_ack_def out)
    then show "\<exists>q. read_view ?v3 [] (client_route (ack_packet ?no e) ?cl) = sending_view v t a (loop_pc (?at x) e) e
        \<and> cl_writer_alive (client_route (ack_packet ?no e) ?cl)
        \<and> cl_sent (client_route (ack_packet ?no e) ?cl) = cl_sent ?cl @ q
        \<and> (q = [] \<or> (\<exists>no n. q = [ack_packet no n]))"
      using s alive by (intro exI [of _ "[]"]) (simp add: read_view_def view_of_eq sending_view_def Let_def i v)
  qed simp
  finally show ?thesis .
qed

lemma body_sent:
  assumes env: "reliable env" and v: "vw_unread v = []" and max: "length (rq_body a) \<le> u64_max"
    and k: "k \<le> length (rq_body a)" "k < length (rq_body a) \<Longrightarrow> DATA_CHUNK_SIZE dvd k"
    and i: "i = vw_next_id v" "n = vw_next_no v"
  shows "runs_to env (sending_view v t a (loop_pc (task_at a i n x) k) k) (sending_view v t a SendEof (length (rq_body a)))"
  using k
proof (induction "length (rq_body a) - k" arbitrary: k rule: less_induct)
  case less
  show ?case
  proof (cases "k < length (rq_body a)")
    case False
    with less.prems show ?thesis by (simp add: loop_pc_def)
  next
    case True
    let ?e = "chunk_end (task_at a i n x) k"
    have at: "at_chunk (task_at a i n x) k" using True less.prems by (simp add: at_chunk_def)
    note ends = chunk_end_props [OF at]
    have "runs_to env (sending_view v t a (FlowCheck k) k) (sending_view v t a (loop_pc (task_at a i n x) ?e) ?e)"
      by (rule chunk_sent [OF env v max at i refl])
    also have "runs_to env (sending_view v t a (loop_pc (task_at a i n x) ?e) ?e) (sending_view v t a SendEof (length (rq_body a)))"
      by (rule less.hyps) (use ends True in \<open>auto simp: at_chunk_def\<close>)
    finally show ?thesis using True by (simp add: loop_pc_def)
  qed
qed

subsection \<open>The reply comes back\<close>

definition waiting_view :: "view \<Rightarrow> nat \<Rightarrow> request_args \<Rightarrow> scamp_reply \<Rightarrow> view" where
  "waiting_view v t a rep =
     (let i = vw_next_id v; n = vw_next_no v; k = length (rq_body a) in
      v\<lparr>vw_tasks := (vw_tasks v)(t \<mapsto> task_at a i n Await), vw_next_id := Suc i, vw_next_no := Suc n,
        vw_pending := [(of_nat i, t)], vw_outgoing := [of_nat n \<mapsto> \<lparr>os_sent = k, os_acknowledged = k\<rparr>],
        vw_requests := Map.empty, vw_expected := of_nat n + 1, vw_next_out := vw_next_out v + 1,
        vw_unread := message_packets (vw_next_out v) (reply_header rep (of_nat i)) (rep_body rep)\<rparr>)"

lemma eof_sent:
  assumes env: "reliable env" and v: "vw_unread v = []"
    and h: "h = request_header (task_at a (vw_next_id v) (vw_next_no v) Await)"
  shows "leads_to env (sending_view v t a SendEof (length (rq_body a)))
    (\<lambda>w. \<exists>rep \<in> possible_replies env h (rq_body a). w = waiting_view v t a rep)"
proof -
  let ?i = "vw_next_id v" and ?no = "of_nat (vw_next_no v) :: u64"
  let ?at = "task_at a ?i (vw_next_no v)" and ?v = "sending_view v t a SendEof (length (rq_body a))"
  show ?thesis
  proof (rule send_leads [of _ t "?at SendEof" "eof_packet ?no" Await ClosedSendingEof])
    fix c :: conn
    assume c: "c_incoming c = vw_requests ?v" "c_next_in c = vw_expected ?v" "c_next_out c = vw_next_out ?v"
    then have inc: "c_incoming c = [?no \<mapsto> \<lparr>in_header = h, in_body = rq_body a, in_received = length (rq_body a)\<rparr>]"
      "c_next_in c = ?no + 1" "c_next_out c = vw_next_out v"
      by (simp_all add: sending_view_def Let_def h)
    have rid: "h_request_id h = of_nat ?i" by (simp add: h request_header_def Let_def)
    obtain rep where rep: "rep \<in> possible_replies env h (rq_body a)"
      "c_written (snd (server_route env (eof_packet ?no) c))
        = c_written c @ message_packets (c_next_out c) (reply_header rep (h_request_id h)) (rep_body rep)"
      "c_next_out (snd (server_route env (eof_packet ?no) c)) = c_next_out c + 1"
      using server_route_message [OF env, of "eof_packet ?no" c] by (auto simp: inc(1))
    have same: "fst (server_route env (eof_packet ?no) c)"
      "c_incoming (snd (server_route env (eof_packet ?no) c)) = Map.empty"
      "c_next_in (snd (server_route env (eof_packet ?no) c)) = c_next_in c"
      by (simp_all add: server_route_def inc(1))
    have "?v\<lparr>vw_tasks := (vw_tasks ?v)(t \<mapsto> ?at SendEof\<lparr>t_pc := Await\<rparr>),
        vw_requests := c_incoming (snd (server_route env (eof_packet ?no) c)),
        vw_expected := c_next_in (snd (server_route env (eof_packet ?no) c)),
        vw_next_out := c_next_out (snd (server_route env (eof_packet ?no) c)),
        vw_unread := vw_unread ?v @ message_packets (c_next_out c) (reply_header rep (h_request_id h)) (rep_body rep)\<rparr>
      = waiting_view v t a rep"
      unfolding rep(3) same(2,3) inc(2,3) rid by (simp add: sending_view_def waiting_view_def Let_def v)
    with rep(1,2) same(1) show "\<exists>c' out. server_route env (eof_packet ?no) c = (True, c') \<and> c_written c' = c_written c @ out
      \<and> (\<exists>rep \<in> possible_replies env h (rq_body a). ?v\<lparr>vw_tasks := (vw_tasks ?v)(t \<mapsto> ?at SendEof\<lparr>t_pc := Await\<rparr>),
          vw_requests := c_incoming c', vw_expected := c_next_in c', vw_next_out := c_next_out c',
          vw_unread := vw_unread ?v @ out\<rparr> = waiting_view v t a rep)"
      by (intro exI [of _ "snd (server_route env (eof_packet ?no) c)"] exI conjI bexI [of _ rep]) (auto simp: prod_eq_iff)
  qed (simp_all add: sending_view_def Let_def task_step_def)
qed

lemma data_read:
  assumes "vw_incoming u = [no \<mapsto> \<lparr>im_header = h, im_body = b0, im_received = length b0\<rparr>]"
    and "vw_unread u = map (data_packet no) bs @ rest" and "[] \<notin> set bs"
  shows "runs_to env u (u\<lparr>vw_incoming := [no \<mapsto> \<lparr>im_header = h, im_body = b0 @ concat bs,
      im_received = length (b0 @ concat bs)\<rparr>], vw_unread := rest\<rparr>)"
  using assms
proof (induction bs arbitrary: u b0)
  case Nil
  then have same: "u\<lparr>vw_incoming := [no \<mapsto> \<lparr>im_header = h, im_body = b0 @ concat [], im_received = length (b0 @ concat [])\<rparr>],
    vw_unread := rest\<rparr> = u" by (intro view.equality) (simp_all add: fun_eq_iff)
  show ?case unfolding same by simp
next
  case (Cons b bs)
  let ?u = "u\<lparr>vw_incoming := [no \<mapsto> \<lparr>im_header = h, im_body = b0 @ b, im_received = length (b0 @ b)\<rparr>],
    vw_unread := map (data_packet no) bs @ rest\<rparr>"
  have ne: "b \<noteq> []" using Cons.prems(3) by auto
  have "runs_to env u ?u"
  proof (rule read_leads [of _ "data_packet no b" "map (data_packet no) bs @ rest"])
    fix s
    assume s: "view_of s = u" and alive: "cl_writer_alive (cn_client (sy_client s))"
    let ?cl = "cn_client (sy_client s)"
    have "cl_incoming ?cl = vw_incoming u" using s by auto
    then have "cl_incoming ?cl = [no \<mapsto> \<lparr>im_header = h, im_body = b0, im_received = length b0\<rparr>]"
      unfolding Cons.prems(1) .
    then have "client_route (data_packet no b) ?cl
        = ?cl\<lparr>cl_incoming := [no \<mapsto> \<lparr>im_header = h, im_body = b0 @ b, im_received = length (b0 @ b)\<rparr>],
            cl_sent := cl_sent ?cl @ [ack_packet no (length (b0 @ b))]\<rparr>"
      using ne alive by (simp add: client_route_def writer_send_def Let_def)
    then show "\<exists>q. read_view u (map (data_packet no) bs @ rest) (client_route (data_packet no b) ?cl) = ?u
        \<and> cl_writer_alive (client_route (data_packet no b) ?cl)
        \<and> cl_sent (client_route (data_packet no b) ?cl) = cl_sent ?cl @ q
        \<and> (q = [] \<or> (\<exists>no n. q = [ack_packet no n]))"
      using s alive by (intro exI [of _ "[ack_packet no (length (b0 @ b))]"]) (auto simp: read_view_def view_of_eq)
  qed (use Cons.prems(2) in simp)
  also have "runs_to env ?u (?u\<lparr>vw_incoming := [no \<mapsto> \<lparr>im_header = h, im_body = (b0 @ b) @ concat bs,
      im_received = length ((b0 @ b) @ concat bs)\<rparr>], vw_unread := rest\<rparr>)"
    using Cons.prems(3) by (intro Cons.IH) simp_all
  also have "?u\<lparr>vw_incoming := [no \<mapsto> \<lparr>im_header = h, im_body = (b0 @ b) @ concat bs,
      im_received = length ((b0 @ b) @ concat bs)\<rparr>], vw_unread := rest\<rparr>
    = u\<lparr>vw_incoming := [no \<mapsto> \<lparr>im_header = h, im_body = b0 @ concat (b # bs),
      im_received = length (b0 @ concat (b # bs))\<rparr>], vw_unread := rest\<rparr>"
    by (rule view.equality) simp_all
  finally show ?case .
qed

lemma message_read:
  assumes "vw_incoming u = Map.empty" and "vw_next_in u = no" and "vw_pending u = [(h_request_id h, t)]"
    and "vw_unread u = message_packets no h b"
  shows "runs_to env u (u\<lparr>vw_next_in := no + 1, vw_pending := [],
    vw_answers := (vw_answers u)(t \<mapsto> \<lparr>rs_header = h, rs_body = b, rs_error = None\<rparr>), vw_unread := []\<rparr>)"
proof -
  let ?rest = "data_packets no b @ [eof_packet no]"
  let ?u1 = "u\<lparr>vw_next_in := no + 1, vw_incoming := [no \<mapsto> \<lparr>im_header = h, im_body = [], im_received = length ([] :: bytes)\<rparr>],
    vw_unread := ?rest\<rparr>"
  let ?u2 = "?u1\<lparr>vw_incoming := [no \<mapsto> \<lparr>im_header = h, im_body = b, im_received = length b\<rparr>], vw_unread := [eof_packet no]\<rparr>"
  have "runs_to env u ?u1"
  proof (rule read_leads [of _ "header_packet no h" ?rest])
    fix s
    assume s: "view_of s = u" and alive: "cl_writer_alive (cn_client (sy_client s))"
    let ?cl = "cn_client (sy_client s)"
    have "client_route (header_packet no h) ?cl = ?cl\<lparr>cl_next_in := no + 1,
        cl_incoming := [no \<mapsto> \<lparr>im_header = h, im_body = [], im_received = length ([] :: bytes)\<rparr>]\<rparr>"
      using s assms(1,2) by (simp add: view_of_eq client_route_def Let_def)
    then show "\<exists>q. read_view u ?rest (client_route (header_packet no h) ?cl) = ?u1
        \<and> cl_writer_alive (client_route (header_packet no h) ?cl)
        \<and> cl_sent (client_route (header_packet no h) ?cl) = cl_sent ?cl @ q
        \<and> (q = [] \<or> (\<exists>no n. q = [ack_packet no n]))"
      using s alive by (intro exI [of _ "[]"]) (auto simp: read_view_def view_of_eq)
  qed (simp add: assms(4) message_packets_def)
  also have "runs_to env ?u1 ?u2"
    using data_read [of ?u1 no h "[]" "chunks_of DATA_CHUNK_SIZE b" "[eof_packet no]" env] chunks_of_bounds [of "[]"]
    by (auto simp: data_packets_def)
  also have "runs_to env ?u2 (u\<lparr>vw_next_in := no + 1, vw_pending := [],
    vw_answers := (vw_answers u)(t \<mapsto> \<lparr>rs_header = h, rs_body = b, rs_error = None\<rparr>), vw_unread := []\<rparr>)"
  proof (rule read_leads [of _ "eof_packet no" "[]"])
    fix s
    assume s: "view_of s = ?u2" and alive: "cl_writer_alive (cn_client (sy_client s))"
    let ?cl = "cn_client (sy_client s)"
    have "cl_incoming ?cl = [no \<mapsto> \<lparr>im_header = h, im_body = b, im_received = length b\<rparr>]"
      "cl_pending ?cl = [(h_request_id h, t)]"
      using s assms(3) by (simp_all add: view_of_eq)
    then have "client_route (eof_packet no) ?cl = ?cl\<lparr>cl_incoming := Map.empty, cl_pending := [],
        cl_answers := (cl_answers ?cl)(t \<mapsto> \<lparr>rs_header = h, rs_body = b, rs_error = None\<rparr>)\<rparr>"
      by (simp add: client_route_def deliver_def)
    then show "\<exists>q. read_view ?u2 [] (client_route (eof_packet no) ?cl) = u\<lparr>vw_next_in := no + 1, vw_pending := [],
        vw_answers := (vw_answers u)(t \<mapsto> \<lparr>rs_header = h, rs_body = b, rs_error = None\<rparr>), vw_unread := []\<rparr>
        \<and> cl_writer_alive (client_route (eof_packet no) ?cl)
        \<and> cl_sent (client_route (eof_packet no) ?cl) = cl_sent ?cl @ q
        \<and> (q = [] \<or> (\<exists>no n. q = [ack_packet no n]))"
      using s alive assms(1) by (intro exI [of _ "[]"]) (auto simp: read_view_def view_of_eq)
  qed simp
  finally show ?thesis .
qed

subsection \<open>The whole call\<close>

definition reply_response :: "scamp_reply \<Rightarrow> i64 \<Rightarrow> scamp_response" where
  "reply_response rep rid = \<lparr>rs_header = reply_header rep rid, rs_body = rep_body rep, rs_error = None\<rparr>"

definition answered_view :: "view \<Rightarrow> nat \<Rightarrow> request_args \<Rightarrow> scamp_reply \<Rightarrow> view" where
  "answered_view v t a rep =
     (let i = vw_next_id v; n = vw_next_no v; r = reply_response rep (of_nat i) in
      v\<lparr>vw_tasks := (vw_tasks v)(t \<mapsto> task_at a i n (Done (Response r))), vw_next_id := Suc i, vw_next_no := Suc n,
        vw_answers := (vw_answers v)(t \<mapsto> r), vw_next_in := vw_next_in v + 1,
        vw_expected := vw_expected v + 1, vw_next_out := vw_next_out v + 1\<rparr>)"

lemma reply_returned:
  assumes "quiet v"
  shows "runs_to env (waiting_view v t a rep) (answered_view v t a rep)"
proof -
  let ?i = "vw_next_id v" and ?n = "vw_next_no v" and ?w = "waiting_view v t a rep"
  let ?r = "reply_response rep (of_nat ?i)" and ?no = "vw_next_out v" and ?at = "task_at a (vw_next_id v) (vw_next_no v)"
  let ?w1 = "?w\<lparr>vw_next_in := ?no + 1, vw_pending := [], vw_answers := (vw_answers ?w)(t \<mapsto> ?r), vw_unread := []\<rparr>"
  have rid: "h_request_id (reply_header rep rid) = rid" for rid by (simp add: reply_header_def)
  have "runs_to env ?w ?w1"
    unfolding reply_response_def
    by (rule message_read) (use assms in \<open>simp_all add: quiet_def waiting_view_def Let_def rid\<close>)
  also have "runs_to env ?w1 (?w1\<lparr>vw_tasks := (vw_tasks v)(t \<mapsto> ?at (DropOutgoing (Response ?r)))\<rparr>)"
    by (rule runs_local [of _ t "?at Await" "?at (DropOutgoing (Response ?r))"])
      (simp_all add: waiting_view_def Let_def task_step_def view_of_eq idle_def)
  also have "runs_to env (?w1\<lparr>vw_tasks := (vw_tasks v)(t \<mapsto> ?at (DropOutgoing (Response ?r)))\<rparr>) (answered_view v t a rep)"
    by (rule runs_local [of _ t "?at (DropOutgoing (Response ?r))" "?at (Done (Response ?r))"])
      (use assms in \<open>simp_all add: waiting_view_def answered_view_def Let_def task_step_def view_of_eq idle_def quiet_def
        remove_outgoing_def\<close>)
  finally show ?thesis .
qed

lemma call_leads:
  assumes env: "reliable env" and v: "quiet v" "vw_tasks v t = None" and max: "length (rq_body a) \<le> u64_max"
    and h: "h = request_header (task_at a (vw_next_id v) (vw_next_no v) Await)"
  shows "leads_to env v (\<lambda>w. \<exists>rep \<in> possible_replies env h (rq_body a). w = answered_view v t a rep)"
proof -
  have unread: "vw_unread v = []" using v(1) by (simp add: quiet_def)
  have "runs_to env v (sending_view v t a SendEof (length (rq_body a)))"
    using header_sent [OF v] body_sent [OF env unread max] by (rule runs_to_trans) simp_all
  then show ?thesis
    using eof_sent [OF env unread h]
  proof (rule runs_leads [OF _ leads_to_bind])
    fix w assume "\<exists>rep \<in> possible_replies env h (rq_body a). w = waiting_view v t a rep"
    then obtain rep where rep: "rep \<in> possible_replies env h (rq_body a)" "w = waiting_view v t a rep" by blast
    have "leads_to env w (\<lambda>u. u = answered_view v t a rep)"
      using reply_returned [OF v(1)] by (simp add: rep(2) runs_to_leads)
    then show "leads_to env w (\<lambda>u. \<exists>rep \<in> possible_replies env h (rq_body a). u = answered_view v t a rep)"
      by (rule leads_to_weaken) (use rep(1) in blast)
  qed
qed

lemma answered_quiet: "quiet v \<Longrightarrow> quiet (answered_view v t a rep)"
  by (simp add: quiet_def answered_view_def Let_def)

subsection \<open>One call after the other\<close>

text \<open>Call \<open>t\<close> with arguments \<open>a\<close> has returned a reply the service computed for its request.\<close>

definition call_done :: "server_env \<Rightarrow> (nat \<rightharpoonup> task) \<Rightarrow> nat \<times> request_args \<Rightarrow> bool" where
  "call_done env tasks = (\<lambda>(t, a). \<exists>tk. tasks t = Some tk \<and> t_args tk = a
     \<and> (\<exists>rep \<in> possible_replies env (request_header tk) (rq_body a).
          t_pc tk = Done (Response (reply_response rep (wire_id tk)))))"

lemma answered_call_done:
  assumes "rep \<in> possible_replies env (request_header (task_at a (vw_next_id v) (vw_next_no v) Await)) (rq_body a)"
  shows "call_done env (vw_tasks (answered_view v t a rep)) (t, a)"
  using assms unfolding call_done_def answered_view_def Let_def
  by (auto simp: request_header_pc [of a "Done (Response r)" _ _ Await for r])

lemma sequence_leads:
  assumes "reliable env" and "quiet v" and "distinct (map fst calls)"
    and "\<forall>(t, a) \<in> set calls. vw_tasks v t = None \<and> length (rq_body a) \<le> u64_max"
  shows "leads_to env v (\<lambda>w. quiet w \<and> (\<forall>c \<in> set calls. call_done env (vw_tasks w) c)
    \<and> (\<forall>t. t \<notin> fst ` set calls \<longrightarrow> vw_tasks w t = vw_tasks v t))"
  using assms(2-)
proof (induction calls arbitrary: v)
  case Nil
  then show ?case by (intro leads_to_here) simp
next
  case (Cons c calls)
  obtain t a where c: "c = (t, a)" by (cases c)
  have fresh: "vw_tasks v t = None" "length (rq_body a) \<le> u64_max" using Cons.prems(3) c by auto
  show ?case
  proof (rule leads_to_bind [OF call_leads [OF assms(1) Cons.prems(1) fresh refl]])
    fix w
    assume "\<exists>rep \<in> possible_replies env (request_header (task_at a (vw_next_id v) (vw_next_no v) Await)) (rq_body a).
      w = answered_view v t a rep"
    then obtain rep where rep: "rep \<in> possible_replies env (request_header (task_at a (vw_next_id v) (vw_next_no v) Await)) (rq_body a)"
      "w = answered_view v t a rep" by blast
    have done_t: "call_done env (vw_tasks w) (t, a)" using answered_call_done [OF rep(1)] by (simp add: rep(2))
    have tasks: "vw_tasks w u = vw_tasks v u" if "u \<noteq> t" for u
      using that by (simp add: rep(2) answered_view_def Let_def)
    have t: "t \<notin> fst ` set calls" using Cons.prems(2) c by simp
    have "leads_to env w (\<lambda>u. quiet u \<and> (\<forall>c \<in> set calls. call_done env (vw_tasks u) c)
        \<and> (\<forall>t. t \<notin> fst ` set calls \<longrightarrow> vw_tasks u t = vw_tasks w t))"
    proof (rule Cons.IH)
      show "quiet w" unfolding rep(2) by (rule answered_quiet [OF Cons.prems(1)])
      show "distinct (map fst calls)" using Cons.prems(2) by simp
      show "\<forall>(t, a) \<in> set calls. vw_tasks w t = None \<and> length (rq_body a) \<le> u64_max"
        using Cons.prems(3) t tasks by force
    qed
    then show "leads_to env w (\<lambda>w. quiet w \<and> (\<forall>c \<in> set (c # calls). call_done env (vw_tasks w) c)
        \<and> (\<forall>t. t \<notin> fst ` set (c # calls) \<longrightarrow> vw_tasks w t = vw_tasks v t))"
    proof (rule leads_to_weaken, elim conjE, intro conjI)
      fix u
      assume u: "\<forall>c \<in> set calls. call_done env (vw_tasks u) c" "\<forall>t. t \<notin> fst ` set calls \<longrightarrow> vw_tasks u t = vw_tasks w t"
      from u(2) t have "vw_tasks u t = vw_tasks w t" by blast
      with done_t have "call_done env (vw_tasks u) (t, a)" by (simp add: call_done_def)
      with u(1) show "\<forall>c \<in> set (c # calls). call_done env (vw_tasks u) c" by (simp add: c)
      show "\<forall>t. t \<notin> fst ` set (c # calls) \<longrightarrow> vw_tasks u t = vw_tasks v t"
        using u(2) tasks by (simp add: c)
    qed
  qed
qed

lemma system_init_quiet: "idle system_init" "quiet (view_of system_init)"
  by (simp_all add: idle_def quiet_def system_init_def connection_init_def client_init_def conn_init_def)



end
