(* ===== verification/Connection_End.thy ===== *)
theory Connection_End
  imports Client_Connection
begin

text \<open>
  The end of calls and connections, \<open>scamp/src/transport/beepish/client/connection.rs\<close>: what finished calls
  leave in the tables of a connection, the writer task as a function of its channel, and the drop of a
  handle.

  The lemmas show that the pending and outgoing tables hold entries of calls in progress only, and that
  the writer task and the drop are runs of the connection's steps.
\<close>

definition registered :: "task \<Rightarrow> bool" where
  "registered tk \<longleftrightarrow> t_pc tk \<notin> {CheckClosed, TakeId, TakeNumber, RegisterPending}"

text \<open>Where a call is between its two registrations and their removal.\<close>

fun holds_pending :: "pc \<Rightarrow> bool" where
  "holds_pending CheckClosed = False"
| "holds_pending TakeId = False"
| "holds_pending TakeNumber = False"
| "holds_pending RegisterPending = False"
| "holds_pending (DropOutgoing r) = False"
| "holds_pending (CleanOutgoing e) = False"
| "holds_pending (Done r) = False"
| "holds_pending x = True"

fun holds_outgoing :: "pc \<Rightarrow> bool" where
  "holds_outgoing CheckClosed = False"
| "holds_outgoing TakeId = False"
| "holds_outgoing TakeNumber = False"
| "holds_outgoing RegisterPending = False"
| "holds_outgoing RegisterOutgoing = False"
| "holds_outgoing (Done r) = False"
| "holds_outgoing x = True"

definition pending_ok :: "connection \<Rightarrow> bool" where
  "pending_ok s \<longleftrightarrow>
     (\<forall>(rid, t) \<in> set (cl_pending (cn_client s)).
        \<exists>tk. cn_tasks s t = Some tk \<and> holds_pending (t_pc tk) \<and> rid = wire_id tk)
     \<and> (\<forall>t r. cl_answers (cn_client s) t = Some r
        \<longrightarrow> t \<notin> snd ` set (cl_pending (cn_client s)) \<and> (\<exists>tk. cn_tasks s t = Some tk \<and> registered tk))"

definition outgoing_ok :: "connection \<Rightarrow> bool" where
  "outgoing_ok s \<longleftrightarrow>
     (\<forall>no. cl_outgoing (cn_client s) no \<noteq> None
        \<longrightarrow> (\<exists>t tk. cn_tasks s t = Some tk \<and> holds_outgoing (t_pc tk) \<and> no = wire_no tk))"

lemma set_update: "set (AList.update k v m) \<subseteq> set m \<union> {(k, v)}"
  by (induction m) auto

lemma loop_pc_holds [simp]: "holds_pending (loop_pc tk k)" "holds_outgoing (loop_pc tk k)"
  by (cases rule: loop_pc_cases [of tk k]; simp)+

lemma task_step_pending:
  assumes step: "task_step t tk s = Some (tk', s')"
  shows "\<And>rid u. (rid, u) \<in> set (cl_pending (cn_client s')) \<Longrightarrow> u \<noteq> t \<Longrightarrow> (rid, u) \<in> set (cl_pending (cn_client s))"
    "registered tk \<Longrightarrow> registered tk'"
    "registered tk \<Longrightarrow> set (cl_pending (cn_client s')) \<subseteq> set (cl_pending (cn_client s))"
    "cl_answers (cn_client s') = cl_answers (cn_client s)"
proof -
  note step = step [unfolded task_step_def Let_def]
  have update: "(rid, u) \<in> set (AList.update k t m) \<Longrightarrow> u \<noteq> t \<Longrightarrow> (rid, u) \<in> set m" for rid u k m
    using set_update [of k t m] by auto
  show "\<And>rid u. (rid, u) \<in> set (cl_pending (cn_client s')) \<Longrightarrow> u \<noteq> t \<Longrightarrow> (rid, u) \<in> set (cl_pending (cn_client s))"
    using step by (cases "t_pc tk")
      (auto simp: remove_pending_def remove_outgoing_def add_sent_def AList.delete_eq dest: update
        split: if_splits option.splits elim!: task_send_cases)
  show "registered tk \<Longrightarrow> registered tk'"
    using step by (cases "t_pc tk")
      (auto simp: registered_def loop_pc_def split: if_splits option.splits elim!: task_send_cases)
  show "registered tk \<Longrightarrow> set (cl_pending (cn_client s')) \<subseteq> set (cl_pending (cn_client s))"
    using step by (cases "t_pc tk")
      (auto simp: registered_def remove_pending_def remove_outgoing_def add_sent_def AList.delete_eq
        split: if_splits option.splits elim!: task_send_cases)
  show "cl_answers (cn_client s') = cl_answers (cn_client s)" by (rule task_step_owner(1) [OF assms])
qed

lemma task_step_own_pending:
  assumes step: "task_step t tk s = Some (tk', s')"
    and own: "\<And>rid. (rid, t) \<in> set (cl_pending (cn_client s)) \<Longrightarrow> rid = wire_id tk \<and> holds_pending (t_pc tk)"
    and ans: "cl_answers (cn_client s) t \<noteq> None \<Longrightarrow> t \<notin> snd ` set (cl_pending (cn_client s))"
    and left: "(rid, t) \<in> set (cl_pending (cn_client s'))"
  shows "rid = wire_id tk' \<and> holds_pending (t_pc tk')"
proof (cases "t_pc tk = RegisterPending")
  case True
  with own have "(r, t) \<notin> set (cl_pending (cn_client s))" for r by force
  with step left True set_update [of "wire_id tk" t "cl_pending (cn_client s)"] show ?thesis
    by (auto simp: task_step_def Let_def)
next
  case False
  then have "cl_pending (cn_client s') = cl_pending (cn_client s) \<or>
      cl_pending (cn_client s') = AList.delete (wire_id tk) (cl_pending (cn_client s))"
    using step [unfolded task_step_def Let_def] by (cases "t_pc tk")
      (auto simp: remove_pending_def remove_outgoing_def add_sent_def
        split: if_splits option.splits elim!: task_send_cases)
  then have left0: "(rid, t) \<in> set (cl_pending (cn_client s))" using left by (auto simp: AList.delete_eq)
  then have pend: "rid = wire_id tk" "holds_pending (t_pc tk)" "cl_answers (cn_client s) t = None"
    "t \<in> snd ` set (cl_pending (cn_client s))"
    using own ans by force+
  have "holds_pending (t_pc tk') \<and> t_id tk' = t_id tk"
    using step [unfolded task_step_def Let_def] pend left by (cases "t_pc tk")
      (auto simp: remove_pending_def AList.delete_eq loop_pc_holds
        split: if_splits option.splits elim!: task_send_cases)
  with pend(1) show ?thesis by simp
qed

lemma pending_ok_run:
  assumes ok: "pending_ok s" and tk: "cn_tasks s t = Some tk" and step: "task_step t tk s = Some (tk', s')"
  shows "pending_ok (s'\<lparr>cn_tasks := (cn_tasks s')(t \<mapsto> tk')\<rparr>)"
proof -
  note pend = task_step_pending [OF step] and tasks = task_step_frame(1) [OF step]
  have own: "rid = wire_id tk \<and> holds_pending (t_pc tk)" if "(rid, t) \<in> set (cl_pending (cn_client s))" for rid
    using ok tk that unfolding pending_ok_def by force
  have ans: "t \<notin> snd ` set (cl_pending (cn_client s))" if "cl_answers (cn_client s) t \<noteq> None" for t
    using ok that unfolding pending_ok_def by blast
  note own' = task_step_own_pending [OF step own ans]
  have "\<exists>tku. ((cn_tasks s)(t \<mapsto> tk')) u = Some tku \<and> holds_pending (t_pc tku) \<and> rid = wire_id tku"
    if "(rid, u) \<in> set (cl_pending (cn_client s'))" for rid u
  proof (cases "u = t")
    case True
    with own' that show ?thesis by auto
  next
    case False
    with pend(1) [OF that] ok show ?thesis unfolding pending_ok_def by auto
  qed
  moreover have "u \<notin> snd ` set (cl_pending (cn_client s'))
      \<and> (\<exists>tku. ((cn_tasks s)(t \<mapsto> tk')) u = Some tku \<and> registered tku)"
    if a: "cl_answers (cn_client s) u = Some r" for u r
  proof -
    obtain tku where u: "cn_tasks s u = Some tku" "registered tku"
      using ok a unfolding pending_ok_def by blast
    have none: "u \<notin> snd ` set (cl_pending (cn_client s))" using ans a by simp
    show ?thesis
    proof (cases "u = t")
      case True
      with u tk have "registered tk" by simp
      with pend(2,3) none True show ?thesis by auto
    next
      case False
      with pend(1) none u show ?thesis by force
    qed
  qed
  ultimately show ?thesis unfolding pending_ok_def by (auto simp: tasks pend(4) simp del: fun_upd_apply)
qed

lemma client_step_pending_ok:
  assumes "client_step s s'" and ok: "pending_ok s"
  shows "pending_ok s'"
  using assms(1)
proof (cases rule: client_step.cases)
  case (run t tk tk' s1)
  with ok show ?thesis by (simp add: pending_ok_run)
next
  case (receive p)
  let ?cl = "cn_client s"
  show ?thesis
  proof (cases "cl_answers (client_route p ?cl) \<noteq> cl_answers ?cl \<or> cl_pending (client_route p ?cl) \<noteq> cl_pending ?cl")
    case False
    with receive ok show ?thesis by (simp add: pending_ok_def)
  next
    case True
    then obtain msg t where d: "delivers p ?cl msg t" using client_route_delivery by blast
    let ?rid = "h_request_id (im_header msg)"
    have pend: "cl_pending (client_route p ?cl) = filter (\<lambda>e. fst e \<noteq> ?rid) (cl_pending ?cl)"
      "dom (cl_answers (client_route p ?cl)) = insert t (dom (cl_answers ?cl))"
      "(?rid, t) \<in> set (cl_pending ?cl)"
      using d by (auto simp: delivers_def AList.delete_eq dest: map_of_SomeD intro!: filter_cong)
    obtain tk where tk: "cn_tasks s t = Some tk" "holds_pending (t_pc tk)" "?rid = wire_id tk"
      using ok pend(3) unfolding pending_ok_def by blast
    have "registered tk" using tk(2) by (auto simp: registered_def)
    moreover have "(rid, t) \<in> set (cl_pending ?cl) \<Longrightarrow> rid = ?rid" for rid
      using ok tk unfolding pending_ok_def by force
    ultimately have "u \<notin> snd ` set (cl_pending (client_route p ?cl)) \<and> (\<exists>tk. cn_tasks s u = Some tk \<and> registered tk)"
      if "u \<in> dom (cl_answers (client_route p ?cl))" for u
      using that ok tk(1) unfolding pending_ok_def pend by (cases "u = t") force+
    then show ?thesis using ok unfolding pending_ok_def receive(1) by (auto simp: pend(1) dom_def)
  qed
next
  case (start t args)
  with ok show ?thesis by (force simp: pending_ok_def)
next
  case (time_out t tk)
  with ok show ?thesis by (force simp: pending_ok_def registered_def)
next
  case (reader_end e)
  with ok show ?thesis
    by (force simp: pending_ok_def notify_all_pending_def registered_def split: if_splits)
qed (use ok in \<open>auto simp: pending_ok_def\<close>)

lemma reachable_pending_ok: "client_reachable s \<Longrightarrow> pending_ok s"
  by (erule client_invariant) (simp_all add: client_step_pending_ok, simp add: pending_ok_def connection_init_def client_init_def)

subsection \<open>Flow control entries\<close>

lemma task_step_outgoing:
  assumes step: "task_step t tk s = Some (tk', s')" and "cl_outgoing (cn_client s') no \<noteq> None"
  shows "cl_outgoing (cn_client s) no \<noteq> None \<or> (no = wire_no tk' \<and> holds_outgoing (t_pc tk'))"
    "holds_outgoing (t_pc tk) \<Longrightarrow> no = wire_no tk \<Longrightarrow> no = wire_no tk' \<and> holds_outgoing (t_pc tk')"
proof -
  note step = step [unfolded task_step_def Let_def]
  show "cl_outgoing (cn_client s) no \<noteq> None \<or> (no = wire_no tk' \<and> holds_outgoing (t_pc tk'))"
    using step assms(2) by (cases "t_pc tk")
      (auto simp: remove_pending_def remove_outgoing_def add_sent_def
        split: if_splits option.splits elim!: task_send_cases)
  show "holds_outgoing (t_pc tk) \<Longrightarrow> no = wire_no tk \<Longrightarrow> no = wire_no tk' \<and> holds_outgoing (t_pc tk')"
    using step assms(2) by (cases "t_pc tk")
      (auto simp: remove_outgoing_def split: if_splits option.splits elim!: task_send_cases)
qed

lemma outgoing_ok_tasks:
  assumes "outgoing_ok s" and "cl_outgoing (cn_client s') = cl_outgoing (cn_client s)"
    and "\<And>u tku. cn_tasks s u = Some tku \<Longrightarrow> holds_outgoing (t_pc tku)
      \<Longrightarrow> \<exists>tku'. cn_tasks s' u = Some tku' \<and> holds_outgoing (t_pc tku') \<and> t_no tku' = t_no tku"
  shows "outgoing_ok s'"
  using assms unfolding outgoing_ok_def by metis

lemma client_step_outgoing_ok:
  assumes "client_step s s'" and ok: "outgoing_ok s"
  shows "outgoing_ok s'"
  using assms(1)
proof (cases rule: client_step.cases)
  case (run t tk tk' s1)
  note tasks = task_step_frame(1) [OF run(3)]
  show ?thesis
    unfolding outgoing_ok_def
  proof (intro allI impI)
    fix no
    assume "cl_outgoing (cn_client s') no \<noteq> None"
    with run have left: "cl_outgoing (cn_client s1) no \<noteq> None" by simp
    note own = task_step_outgoing [OF run(3) left]
    show "\<exists>u tku. cn_tasks s' u = Some tku \<and> holds_outgoing (t_pc tku) \<and> no = wire_no tku"
    proof (cases "no = wire_no tk' \<and> holds_outgoing (t_pc tk')")
      case False
      with own(1) obtain u tku where u: "cn_tasks s u = Some tku" "holds_outgoing (t_pc tku)" "no = wire_no tku"
        using ok unfolding outgoing_ok_def by blast
      with own(2) False run(2) have "u \<noteq> t" by auto
      with u show ?thesis by (intro exI [of _ u]) (simp add: run(1) tasks)
    qed (auto simp: run(1))
  qed
next
  case (receive p)
  have "cl_outgoing (client_route p (cn_client s)) no \<noteq> None \<Longrightarrow> cl_outgoing (cn_client s) no \<noteq> None" for no
    using client_route_outgoing_dom [of p "cn_client s"] by (simp add: domIff set_eq_iff)
  with receive ok show ?thesis by (auto simp: outgoing_ok_def)
next
  case (start t args)
  with ok show ?thesis by (elim outgoing_ok_tasks) auto
next
  case (time_out t tk)
  with ok show ?thesis by (elim outgoing_ok_tasks) auto
qed (use ok in \<open>auto simp: outgoing_ok_def notify_all_pending_def\<close>)

lemma reachable_outgoing_ok: "client_reachable s \<Longrightarrow> outgoing_ok s"
  by (erule client_invariant) (simp_all add: client_step_outgoing_ok, simp add: outgoing_ok_def connection_init_def client_init_def)

lemma all_finished:
  assumes "client_reachable s" and fin: "\<And>t tk. cn_tasks s t = Some tk \<Longrightarrow> \<exists>r. t_pc tk = Done r"
  shows "cl_pending (cn_client s) = [] \<and> cl_outgoing (cn_client s) = Map.empty"
proof
  have "x \<notin> set (cl_pending (cn_client s))" for x
    using reachable_pending_ok [OF assms(1)] fin unfolding pending_ok_def by (cases x) force
  then show "cl_pending (cn_client s) = []" by (cases "cl_pending (cn_client s)") auto
  have "cl_outgoing (cn_client s) no = None" for no
    using reachable_outgoing_ok [OF assms(1)] fin unfolding outgoing_ok_def by force
  then show "cl_outgoing (cn_client s) = Map.empty" by blast
qed

text \<open>
  C14: Calls leave nothing behind: when all calls of a connection have returned, with a response, a timeout
  or an error, in any interleaving, no request is pending and no flow control state is left, so the
  tables of a long-lived connection do not grow with the number of its calls.
\<close>

theorem finished_calls_leave_nothing:
  assumes "client_reachable s" and "\<And>t tk. cn_tasks s t = Some tk \<Longrightarrow> \<exists>r. t_pc tk = Done r"
  shows "cl_pending (cn_client s) = [] \<and> cl_outgoing (cn_client s) = Map.empty"
  using assms by (rule all_finished)

subsection \<open>The writer task and the end of a handle\<close>

text \<open>
  The writer over the packets in its channel: \<open>wr k\<close> and \<open>fl k\<close> tell whether the \<open>k\<close>-th write and flush
  succeed.  The result is what it has written, and whether it still runs.
\<close>

fun writer_task :: "(nat \<Rightarrow> bool) \<Rightarrow> (nat \<Rightarrow> bool) \<Rightarrow> nat \<Rightarrow> packet list \<Rightarrow> packet list \<times> bool" where
  "writer_task wr fl k [] = ([], True)"
| "writer_task wr fl k (p # ps) =
     (if \<not> wr k then ([], False)
      else if \<not> fl k then ([p], False)
      else (case writer_task wr fl (Suc k) ps of (written, alive) \<Rightarrow> (p # written, alive)))"

text \<open>It refines the steps of the connection that write one packet or end the writer.\<close>

lemma writer_task_prefix: "writer_task wr fl k ps = (written, alive) \<Longrightarrow> prefix written ps"
  by (induction wr fl k ps arbitrary: written alive rule: writer_task.induct) (auto split: if_splits prod.splits)

lemma writer_task_refines:
  assumes "cl_writer_alive (cn_client s)" and "drop (cn_written s) (cl_sent (cn_client s)) = ps"
    and "writer_task wr fl k ps = (written, alive)"
  shows "client_steps s (s\<lparr>cn_written := cn_written s + length written,
      cn_client := (cn_client s)\<lparr>cl_writer_alive := alive\<rparr>\<rparr>)"
  using assms
proof (induction wr fl k ps arbitrary: s written alive rule: writer_task.induct)
  case (1 wr fl k)
  then have "s\<lparr>cn_client := (cn_client s)\<lparr>cl_writer_alive := True\<rparr>\<rparr> = s"
    by (intro connection.equality client.equality) simp_all
  moreover from 1(3) have "written = []" "alive" by simp_all
  ultimately show ?case by simp
next
  case (2 wr fl k p ps)
  let ?s = "s\<lparr>cn_written := Suc (cn_written s)\<rparr>"
  have lt: "cn_written s < length (cl_sent (cn_client s))" using 2(3) by (metis drop_all list.distinct(1) not_le)
  have rest: "drop (Suc (cn_written s)) (cl_sent (cn_client s)) = ps" using 2(3) by (metis drop_Suc list.sel(3) tl_drop)
  have out: "client_step s ?s" by (rule write_out [OF 2(2) lt])
  have fail: "client_step s' (s'\<lparr>cn_client := (cn_client s')\<lparr>cl_writer_alive := False\<rparr>\<rparr>)"
    if "cl_writer_alive (cn_client s')" for s' by (rule writer_fail [OF that])
  show ?case
  proof (cases "wr k \<and> fl k")
    case True
    then obtain w where w: "writer_task wr fl (Suc k) ps = (w, alive)" "written = p # w"
      using 2(4) by (auto split: prod.splits)
    have "client_steps ?s (?s\<lparr>cn_written := cn_written ?s + length w, cn_client := (cn_client ?s)\<lparr>cl_writer_alive := alive\<rparr>\<rparr>)"
      using "2.IH" [of ?s w alive] True 2(2) rest w by simp
    with out show ?thesis by (simp add: w(2) converse_rtranclp_into_rtranclp)
  next
    case False
    then show ?thesis
      using 2(2,4) fail [of s] fail [of ?s] out by (auto split: if_splits intro: converse_rtranclp_into_rtranclp)
  qed
qed

text \<open>Dropping a handle aborts its tasks; calls borrow the handle, so none is in progress then.\<close>

definition drop_handle :: "connection \<Rightarrow> connection" where
  "drop_handle s = s\<lparr>cn_reader := Exited, cn_client := (cn_client s)\<lparr>cl_writer_alive := False\<rparr>\<rparr>"

lemma drop_handle_reachable:
  assumes "client_reachable s" and "\<And>t tk. cn_tasks s t = Some tk \<Longrightarrow> \<exists>r. t_pc tk = Done r"
  shows "client_reachable (drop_handle s)"
proof -
  have "notify_all_pending e (cn_client s) = cn_client s" for e
    using all_finished [OF assms] by (simp add: notify_all_pending_def)
  then have notified: "client_steps s (s\<lparr>cn_reader := Notified\<rparr>)" if "cn_reader s = Reading"
    using reader_end [OF that, of "''dropped''"] by (auto intro: r_into_rtranclp)
  have exits: "client_step s' (s'\<lparr>cn_reader := Exited\<rparr>)" if "cn_reader s' = Notified" for s'
    by (rule reader_exit [OF that])
  have exited: "client_steps s (s\<lparr>cn_reader := Exited\<rparr>)"
  proof (cases "cn_reader s")
    case Reading
    with notified exits [of "s\<lparr>cn_reader := Notified\<rparr>"] show ?thesis by (auto intro: rtranclp.rtrancl_into_rtrancl)
  next
    case Notified
    with exits show ?thesis by auto
  next
    case Exited
    then have "s\<lparr>cn_reader := Exited\<rparr> = s" by simp
    then show ?thesis by simp
  qed
  have "client_steps (s\<lparr>cn_reader := Exited\<rparr>) (drop_handle s)"
  proof (cases "cl_writer_alive (cn_client s)")
    case True
    with writer_fail [of "s\<lparr>cn_reader := Exited\<rparr>"] show ?thesis by (simp add: drop_handle_def r_into_rtranclp)
  next
    case False
    then have "(cn_client s)\<lparr>cl_writer_alive := False\<rparr> = cn_client s" by simp
    then show ?thesis by (simp add: drop_handle_def)
  qed
  with exited assms(1) show ?thesis unfolding client_reachable_def by (meson rtranclp_trans)
qed

lemma finished_calls_leave_nothing_witness:
  "cl_pending (cn_client answered) = [] \<and> cl_outgoing (cn_client answered) = Map.empty"
proof -
  have "dom (cn_tasks answered) = {0}"
    by (simp add: answered_def awaiting_eq client_init_def client_route_def deliver_def run_simps)
  then have "t = 0" if "cn_tasks answered t = Some tk" for t tk
    using domI [of "cn_tasks answered", OF that] by simp
  then have "\<exists>r. t_pc tk = Done r" if "cn_tasks answered t = Some tk" for t tk
    using that answered_task by fastforce
  with finished_calls_leave_nothing [OF answered_reachable] show ?thesis by blast
qed

end
