(* ===== verification/Service_Info.thy ===== *)
theory Service_Info
  imports Json_Value
begin

text \<open>
  Service announcements as data and their parser: \<open>scamp/src/discovery/service_info/mod.rs\<close> (the
  structs, the errors, the socket address of a service) and \<open>parse.rs\<close> (v3 and v4 actions, the
  run-length encoding of the v4 vectors, flags).

  The regular expression \<open>t\<close> followed by digits is matched by the \<open>regex\<close> package: \<open>digits_re\<close> says
  which strings its digit class repeated matches.  Only its behaviour on ASCII is relied on
  (\<open>digits_ok\<close>).  A panic of the parser is the outcome \<open>Panic\<close>.
\<close>

subsection \<open>Types (mod.rs)\<close>

record service_info =
  si_identity :: string
  si_uri :: string
  si_fingerprint :: "string option"

record announcement_params =
  ap_weight :: u32
  ap_interval :: u32
  ap_timestamp :: f64

datatype crud_op = Create | Read | Update | Delete

datatype flag = NoAuth | Timeout u32 | OtherFlag string | CrudOp crud_op

datatype packet_section = V3 | V4

record action =
  a_path :: string
  a_version :: u32
  a_pathver :: string
  a_flags :: "flag list"
  a_sector :: string
  a_envelopes :: "string list"
  a_section :: packet_section

record announcement_body =
  ab_info :: service_info
  ab_params :: announcement_params
  ab_actions :: "action list"

datatype info_error =
    ExpectedJsonArray
  | InvalidRootArray
  | MissingField string
  | InvalidField string
  | JsonError
  | RLEValue string nat
  | RLEChunkLen string nat nat
  | RLERepeatCount string nat
  | InvalidV3Namespace nat
  | InvalidV3Action nat nat string

text \<open>The texts of the errors, the library's error texts left out.\<close>

fun info_error_text :: "info_error \<Rightarrow> string" where
  "info_error_text ExpectedJsonArray = ''Expected JSON array''"
| "info_error_text InvalidRootArray = ''Invalid array length''"
| "info_error_text (MissingField f) = ''Missing field: '' @ f"
| "info_error_text (InvalidField f) = ''Invalid field: '' @ f"
| "info_error_text JsonError = ''JSON error: ''"
| "info_error_text (RLEValue name i) = ''RLE value error: '' @ name @ '' at '' @ dec_of_nat i @ '': ''"
| "info_error_text (RLEChunkLen name i n) =
     ''RLE chunk len: '' @ name @ '' at '' @ dec_of_nat i @ '': '' @ dec_of_nat n"
| "info_error_text (RLERepeatCount name i) = ''RLE repeat count: '' @ name @ '' at '' @ dec_of_nat i"
| "info_error_text (InvalidV3Namespace i) = ''Invalid v3 namespace at '' @ dec_of_nat i"
| "info_error_text (InvalidV3Action ns ac reason) =
     ''Invalid v3 action at ns '' @ dec_of_nat ns @ '' ac '' @ dec_of_nat ac @ '' '' @ reason"

subsection \<open>Socket addresses (mod.rs)\<close>

type_synonym ipv4 = "nat \<times> nat \<times> nat \<times> nat"

definition parse_octet :: "string \<Rightarrow> nat option" where
  "parse_octet s =
     (if s = [] \<or> 3 < length s \<or> (hd s = CHR ''0'' \<and> s \<noteq> ''0'') then None
      else case digits_val 0 s of
        None \<Rightarrow> None
      | Some n \<Rightarrow> if n \<le> 255 then Some n else None)"

text \<open>\<open>IpAddr::from_str\<close> on a text without a colon: only the IPv4 form is possible.\<close>

definition parse_ip :: "string \<Rightarrow> ipv4 option" where
  "parse_ip s =
     (case split_char CHR ''.'' s of
        [a, b, c, d] \<Rightarrow>
          (case (parse_octet a, parse_octet b, parse_octet c, parse_octet d) of
             (Some w, Some x, Some y, Some z) \<Rightarrow> Some (w, x, y, z)
           | _ \<Rightarrow> None)
      | _ \<Rightarrow> None)"

datatype addr_error = NoScheme | NoHost | NoPort | InvalidHost string | InvalidPort string

definition nth_part :: "nat \<Rightarrow> 'a list \<Rightarrow> 'a option" where
  "nth_part i xs = (if i < length xs then Some (xs ! i) else None)"

definition socket_addr :: "service_info \<Rightarrow> addr_error + (ipv4 \<times> nat)" where
  "socket_addr si =
     (case nth_part 1 (split_str ''://'' (si_uri si)) of
        None \<Rightarrow> Inl NoScheme
      | Some addr \<Rightarrow>
          (case nth_part 0 (split_char CHR '':'' addr) of
             None \<Rightarrow> Inl NoHost
           | Some host \<Rightarrow>
               (case nth_part 1 (split_char CHR '':'' addr) of
                  None \<Rightarrow> Inl NoPort
                | Some port \<Rightarrow>
                    (case parse_ip host of
                       None \<Rightarrow> Inl (InvalidHost host)
                     | Some ip \<Rightarrow>
                         (case parse_uint u16_max port of
                            None \<Rightarrow> Inl (InvalidPort port)
                          | Some n \<Rightarrow> Inr (ip, n))))))"

subsection \<open>Flags (parse.rs)\<close>

definition parse_crud_op :: "string \<Rightarrow> crud_op option" where
  "parse_crud_op v =
     (if v = ''create'' then Some Create
      else if v = ''read'' then Some Read
      else if v = ''update'' then Some Update
      else if v = ''destroy'' then Some Delete
      else None)"

text \<open>The group captured by the expression \<open>t\<close> digits, anchored at both ends.\<close>

definition timeout_capture :: "(string \<Rightarrow> bool) \<Rightarrow> string \<Rightarrow> string option" where
  "timeout_capture digits_re v =
     (case v of
        [] \<Rightarrow> None
      | c # ds \<Rightarrow> if c = CHR ''t'' \<and> digits_re ds then Some ds else None)"

definition parse_flag :: "(string \<Rightarrow> bool) \<Rightarrow> string \<Rightarrow> (info_error, flag) outcome" where
  "parse_flag digits_re v =
     (if v = ''noauth'' then Ret NoAuth
      else case timeout_capture digits_re v of
        Some ds \<Rightarrow>
          (case parse_u32 ds of None \<Rightarrow> Panic | Some secs \<Rightarrow> Ret (Timeout secs))
      | None \<Rightarrow>
          (case parse_crud_op v of
             Some crud \<Rightarrow> Ret (CrudOp crud)
           | None \<Rightarrow> Ret (OtherFlag v)))"

fun parse_flags :: "(string \<Rightarrow> bool) \<Rightarrow> string list \<Rightarrow> (info_error, flag list) outcome" where
  "parse_flags digits_re [] = Ret []"
| "parse_flags digits_re (v # vs) =
     bind_outcome (parse_flag digits_re v) (\<lambda>f.
       bind_outcome (parse_flags digits_re vs) (\<lambda>fs. Ret (f # fs)))"

text \<open>The comma-separated list of flags, empty pieces dropped.\<close>

definition flag_list :: "(string \<Rightarrow> bool) \<Rightarrow> string \<Rightarrow> (info_error, flag list) outcome" where
  "flag_list digits_re flags =
     parse_flags digits_re (filter (\<lambda>s. s \<noteq> []) (split_char CHR '','' flags))"

definition action_path :: "string \<Rightarrow> string \<Rightarrow> string" where
  "action_path namespace name =
     replace_char CHR ''/'' CHR ''.'' (to_lowercase (namespace @ ''.'' @ name))"

definition pathver :: "string \<Rightarrow> u32 \<Rightarrow> string" where
  "pathver path version = path @ ''~'' @ dec_of_nat (unat version)"

subsection \<open>Version 3 actions (parse.rs)\<close>

definition v3_version :: "nat \<Rightarrow> nat \<Rightarrow> json list \<Rightarrow> (info_error, u32) outcome" where
  "v3_version ns_i ac_i ac_arr =
     (case nth_part 2 ac_arr of
        Some (JInt i) \<Rightarrow>
          (case as_u64 (JInt i) of
             None \<Rightarrow> Err (InvalidV3Action ns_i ac_i ''version must be number'')
           | Some w \<Rightarrow> Ret (ucast w))
      | Some (JFloat x) \<Rightarrow> Err (InvalidV3Action ns_i ac_i ''version must be number'')
      | _ \<Rightarrow> Ret 1)"

definition v3_action ::
  "(string \<Rightarrow> bool) \<Rightarrow> nat \<Rightarrow> nat \<Rightarrow> string \<Rightarrow> string \<Rightarrow> string list \<Rightarrow> json
   \<Rightarrow> (info_error, action) outcome" where
  "v3_action digits_re ns_i ac_i namespace sector envelopes ac =
     (case ac of
        JArr ac_arr \<Rightarrow>
          if length ac_arr = 2 \<or> length ac_arr = 3 then
            bind_outcome (ok_or (InvalidV3Action ns_i ac_i ''name'') (as_str (ac_arr ! 0))) (\<lambda>name.
            bind_outcome (ok_or (InvalidV3Action ns_i ac_i ''flags'') (as_str (ac_arr ! 1))) (\<lambda>flags.
            bind_outcome (v3_version ns_i ac_i ac_arr) (\<lambda>version.
            bind_outcome (flag_list digits_re flags) (\<lambda>fs.
              let path = action_path namespace name in
              Ret \<lparr>a_path = path, a_version = version, a_pathver = pathver path version,
                   a_flags = fs, a_sector = sector, a_envelopes = envelopes, a_section = V3\<rparr>))))
          else Err (InvalidV3Action ns_i ac_i ''not array of length 2-3'')
      | _ \<Rightarrow> Err (InvalidV3Action ns_i ac_i ''not array of length 2-3''))"

fun v3_methods ::
  "(string \<Rightarrow> bool) \<Rightarrow> nat \<Rightarrow> nat \<Rightarrow> string \<Rightarrow> string \<Rightarrow> string list \<Rightarrow> json list \<Rightarrow> action list
   \<Rightarrow> (info_error, action list) outcome" where
  "v3_methods digits_re ns_i ac_i namespace sector envelopes [] actions = Ret actions"
| "v3_methods digits_re ns_i ac_i namespace sector envelopes (ac # acs) actions =
     bind_outcome (v3_action digits_re ns_i ac_i namespace sector envelopes ac) (\<lambda>a.
       v3_methods digits_re ns_i (Suc ac_i) namespace sector envelopes acs (actions @ [a]))"

fun v3_namespaces ::
  "(string \<Rightarrow> bool) \<Rightarrow> nat \<Rightarrow> string \<Rightarrow> string list \<Rightarrow> json list \<Rightarrow> action list
   \<Rightarrow> (info_error, action list) outcome" where
  "v3_namespaces digits_re ns_i sector envelopes [] actions = Ret actions"
| "v3_namespaces digits_re ns_i sector envelopes (ns # nss) actions =
     (case ns of
        JArr (head # acs) \<Rightarrow>
          bind_outcome (ok_or (MissingField ''namespace [0]'') (as_str head)) (\<lambda>namespace.
          bind_outcome (v3_methods digits_re ns_i 0 namespace sector envelopes acs actions) (\<lambda>actions'.
            v3_namespaces digits_re (Suc ns_i) sector envelopes nss actions'))
      | _ \<Rightarrow> Err (InvalidV3Namespace ns_i))"

definition parse_v3_actions ::
  "(string \<Rightarrow> bool) \<Rightarrow> json list \<Rightarrow> string \<Rightarrow> string list \<Rightarrow> action list
   \<Rightarrow> (info_error, action list) outcome" where
  "parse_v3_actions digits_re obj sector envelopes actions =
     v3_namespaces digits_re 0 sector envelopes obj actions"

subsection \<open>Run-length decoding (parse.rs)\<close>

fun unrle_entries ::
  "(json \<Rightarrow> 'a option) \<Rightarrow> string \<Rightarrow> nat \<Rightarrow> json list \<Rightarrow> 'a list \<Rightarrow> (info_error, 'a list) outcome" where
  "unrle_entries de name i [] out = Ret out"
| "unrle_entries de name i (entry # rest) out =
     (case entry of
        JArr arr \<Rightarrow>
          if length arr = 2 then
            bind_outcome (ok_or (RLERepeatCount name i) (as_u64 (arr ! 0))) (\<lambda>n.
            bind_outcome (ok_or (RLEValue name i) (de (arr ! 1))) (\<lambda>v.
              unrle_entries de name (Suc i) rest (out @ replicate (unat n) v)))
          else Err (RLEChunkLen name i (length arr))
      | _ \<Rightarrow>
          bind_outcome (ok_or (RLEValue name i) (de entry)) (\<lambda>v.
            unrle_entries de name (Suc i) rest (out @ [v])))"

definition unrle ::
  "(json \<Rightarrow> 'a::default option) \<Rightarrow> (string \<times> json) list \<Rightarrow> string \<Rightarrow> bool \<Rightarrow> nat
   \<Rightarrow> (info_error, 'a list) outcome" where
  "unrle de obj name required len =
     (case obj_get name obj of
        None \<Rightarrow> if required then Err (MissingField name) else Ret (replicate len default)
      | Some (JArr rle) \<Rightarrow> unrle_entries de name 0 rle []
      | Some v \<Rightarrow>
          bind_outcome (ok_or (RLEValue name 0) (de v)) (\<lambda>x. Ret (replicate len x)))"

subsection \<open>Version 4 actions (parse.rs)\<close>

type_synonym v4_row = "string \<times> string \<times> u32 \<times> u32 \<times> string \<times> string \<times> string"

text \<open>\<open>izip!\<close> of the seven vectors stops with the shortest.\<close>

definition v4_rows ::
  "string list \<Rightarrow> string list \<Rightarrow> u32 list \<Rightarrow> u32 list \<Rightarrow> string list \<Rightarrow> string list \<Rightarrow> string list
   \<Rightarrow> v4_row list" where
  "v4_rows nss names compats vers flagss envss sectors =
     zip nss (zip names (zip compats (zip vers (zip flagss (zip envss sectors)))))"

fun v4_push ::
  "(string \<Rightarrow> bool) \<Rightarrow> v4_row list \<Rightarrow> action list \<Rightarrow> (info_error, action list) outcome" where
  "v4_push digits_re [] actions = Ret actions"
| "v4_push digits_re ((namespace, name, cmp, ver, flags, envelopes, sector) # rows) actions =
     (if cmp \<noteq> 1 then v4_push digits_re rows actions
      else bind_outcome (flag_list digits_re flags) (\<lambda>fs.
        let path = action_path namespace name in
        v4_push digits_re rows (actions @
          [\<lparr>a_path = path, a_version = ver, a_pathver = pathver path ver, a_flags = fs,
            a_sector = to_lowercase sector,
            a_envelopes = filter (\<lambda>s. s \<noteq> []) (split_char CHR '','' envelopes),
            a_section = V4\<rparr>])))"

definition parse_v4_actions ::
  "(string \<Rightarrow> bool) \<Rightarrow> (string \<times> json) list \<Rightarrow> action list \<Rightarrow> (info_error, action list) outcome" where
  "parse_v4_actions digits_re obj actions =
     bind_outcome (unrle de_string obj ''acns'' True 0) (\<lambda>namespaces.
     bind_outcome (unrle de_string obj ''acname'' True 0) (\<lambda>names.
     let len = length names in
     bind_outcome (unrle de_string obj ''acenv'' True 0) (\<lambda>envelopess.
     bind_outcome (unrle de_string obj ''acsec'' True 0) (\<lambda>sectors.
     bind_outcome (unrle de_u32 obj ''accompat'' False len) (\<lambda>compats.
     bind_outcome (unrle de_u32 obj ''acver'' False len) (\<lambda>acvers.
     bind_outcome (unrle de_string obj ''acflag'' False len) (\<lambda>flagss.
       v4_push digits_re (v4_rows namespaces names compats acvers flagss envelopess sectors)
         actions)))))))"

subsection \<open>The announcement body (parse.rs)\<close>

fun envelopes_and_v4 ::
  "(string \<Rightarrow> bool) \<Rightarrow> json list \<Rightarrow> string list \<Rightarrow> action list
   \<Rightarrow> (info_error, string list \<times> action list) outcome" where
  "envelopes_and_v4 digits_re [] envs actions = Ret (envs, actions)"
| "envelopes_and_v4 digits_re (v # vs) envs actions =
     (case v of
        JStr e \<Rightarrow> envelopes_and_v4 digits_re vs (envs @ [e]) actions
      | JObj obj \<Rightarrow>
          bind_outcome (parse_v4_actions digits_re obj actions) (\<lambda>actions'.
            envelopes_and_v4 digits_re vs envs actions')
      | _ \<Rightarrow> envelopes_and_v4 digits_re vs envs actions)"

definition body_of_array ::
  "(string \<Rightarrow> bool) \<Rightarrow> json list \<Rightarrow> (info_error, announcement_body) outcome" where
  "body_of_array digits_re arr =
     (if length arr \<noteq> 9 then Err InvalidRootArray
      else
        bind_outcome (ok_or (MissingField ''version'') (as_u64 (arr ! 0))) (\<lambda>version.
        if version \<noteq> 3 then Err (InvalidField ''version'') else
        bind_outcome (ok_or (MissingField ''identity'') (as_str (arr ! 1))) (\<lambda>identity.
        bind_outcome (ok_or (MissingField ''sector'') (as_str (arr ! 2))) (\<lambda>v3_sector.
        bind_outcome (ok_or (MissingField ''weight'') (as_u64 (arr ! 3))) (\<lambda>weight.
        bind_outcome (ok_or (MissingField ''interval'') (as_u64 (arr ! 4))) (\<lambda>interval.
        bind_outcome (ok_or (MissingField ''uri'') (as_str (arr ! 5))) (\<lambda>uri.
        bind_outcome (ok_or (MissingField ''envelopes_and_v4actions'') (as_array (arr ! 6))) (\<lambda>env_v4.
        bind_outcome (ok_or (MissingField ''v3_actions'') (as_array (arr ! 7))) (\<lambda>v3_actions.
        bind_outcome (ok_or (MissingField ''timestamp'') (as_f64 (arr ! 8))) (\<lambda>timestamp.
        bind_outcome (envelopes_and_v4 digits_re env_v4 [] []) (\<lambda>(envs, actions).
        bind_outcome (parse_v3_actions digits_re v3_actions v3_sector envs actions) (\<lambda>actions'.
          Ret \<lparr>ab_info = \<lparr>si_identity = identity, si_uri = uri, si_fingerprint = None\<rparr>,
               ab_params = \<lparr>ap_weight = ucast weight, ap_interval = ucast interval,
                            ap_timestamp = timestamp\<rparr>,
               ab_actions = actions'\<rparr>))))))))))))"

definition parse_announcement_body ::
  "(string \<Rightarrow> bool) \<Rightarrow> (string \<Rightarrow> json option) \<Rightarrow> string
   \<Rightarrow> (info_error, announcement_body) outcome" where
  "parse_announcement_body digits_re dec v =
     (case dec v of
        None \<Rightarrow> Err JsonError
      | Some value \<Rightarrow>
          bind_outcome (ok_or ExpectedJsonArray (as_array value)) (body_of_array digits_re))"

text \<open>What is relied on of the digit class: on ASCII texts it matches the digits, at least one.\<close>

definition digits_ok :: "(string \<Rightarrow> bool) \<Rightarrow> bool" where
  "digits_ok digits_re \<longleftrightarrow>
     (\<forall>s. is_ascii s \<longrightarrow> digits_re s = (s \<noteq> [] \<and> (\<forall>c \<in> set s. is_digit c)))"

subsection \<open>A flag that stops the parser\<close>

lemma digits_val_digits: "\<forall>c \<in> set s. is_digit c \<Longrightarrow> digits_val n s \<noteq> None"
  by (induction n s rule: digits_val.induct) auto

lemma parse_flag_overflow:
  assumes "digits_ok digits_re" and "u32_max < n"
  shows "parse_flag digits_re (''t'' @ dec_of_nat n) = Panic"
proof -
  have "digits_re (dec_of_nat n)"
    using assms(1) dec_of_nat_digits by (simp add: digits_ok_def)
  moreover have "parse_u32 (dec_of_nat n) = None"
  proof -
    obtain c cs where d: "dec_of_nat n = c # cs" by (cases "dec_of_nat n") auto
    then have "c \<noteq> CHR ''+''" using dec_of_nat_digit [of c n] by auto
    then show ?thesis
      using d digits_val_dec_of_nat [of n] assms(2) by (simp add: parse_u32_def parse_uint_def Let_def)
  qed
  ultimately show ?thesis by (simp add: parse_flag_def timeout_capture_def)
qed

text \<open>
  One flag of one action makes the parser panic instead of returning an error: a timeout whose
  number does not fit 32 bits.  The announcement around it is well formed, and the parser runs
  before any signature is checked.
\<close>

theorem timeout_flag_panics:
  assumes "digits_ok digits_re" and "u32_max < n"
  shows "body_of_array digits_re
      [JInt 3, JStr identity, JStr sector, JInt 1, JInt 5000, JStr uri, JArr [JStr ''json''],
       JArr [JArr [JStr namespace, JArr [JStr method, JStr (''t'' @ dec_of_nat n)]]], JFloat timestamp]
    = Panic"
proof -
  have "CHR '','' \<notin> set (''t'' @ dec_of_nat n)"
    using dec_of_nat_digits [of n] by (auto simp: is_digit_def)
  then have "flag_list digits_re (''t'' @ dec_of_nat n) = Panic"
    using parse_flag_overflow [OF assms] by (simp add: flag_list_def split_char_absent)
  then show ?thesis
    by (simp add: body_of_array_def parse_v3_actions_def v3_action_def v3_version_def nth_part_def)
qed

subsection \<open>Addresses\<close>

fun ip_text :: "ipv4 \<Rightarrow> string" where
  "ip_text (a, b, c, d) =
     dec_of_nat a @ ''.'' @ dec_of_nat b @ ''.'' @ dec_of_nat c @ ''.'' @ dec_of_nat d"

lemma hd_dec_of_nat: "0 < n \<Longrightarrow> hd (dec_of_nat n) \<noteq> CHR ''0''"
proof (induction n rule: dec_of_nat.induct)
  case (1 n)
  show ?case
  proof (cases "n < 10")
    case True
    have "byte_val (digit_char n) = 48 + n" using True by simp
    moreover have "byte_val CHR ''0'' = (48 :: nat)" by simp
    ultimately have "digit_char n \<noteq> CHR ''0''" using 1 by (metis add_cancel_right_right less_irrefl)
    with True show ?thesis by (subst dec_of_nat.simps) simp
  next
    case False
    with 1 show ?thesis by (subst dec_of_nat.simps) simp
  qed
qed

lemma parse_octet_dec [simp]:
  assumes "n \<le> 255"
  shows "parse_octet (dec_of_nat n) = Some n"
proof -
  have "length (dec_of_nat n) \<le> 3" using assms by (intro length_dec_of_nat) simp_all
  moreover have "dec_of_nat 0 = ''0''" by code_simp
  ultimately show ?thesis
    using assms hd_dec_of_nat [of n] by (cases "n = 0") (simp_all add: parse_octet_def is_digit_def)
qed

lemma dec_no_char: "\<not> is_digit c \<Longrightarrow> c \<notin> set (dec_of_nat n)"
  using dec_of_nat_digits by blast

lemma dot_colon_slash: "\<not> is_digit CHR ''.''" "\<not> is_digit CHR '':''" "\<not> is_digit CHR ''/''"
  by (simp_all add: is_digit_def)

fun valid_ip :: "ipv4 \<Rightarrow> bool" where
  "valid_ip (a, b, c, d) \<longleftrightarrow> a \<le> 255 \<and> b \<le> 255 \<and> c \<le> 255 \<and> d \<le> 255"

lemma parse_ip_text: "valid_ip ip \<Longrightarrow> parse_ip (ip_text ip) = Some ip"
proof (cases ip)
  case (fields a b c d)
  assume "valid_ip ip"
  moreover have "split_char CHR ''.'' (ip_text ip) = [dec_of_nat a, dec_of_nat b, dec_of_nat c, dec_of_nat d]"
    by (simp add: fields split_char_append split_char_absent dec_no_char dot_colon_slash)
  ultimately show ?thesis by (simp add: parse_ip_def fields)
qed

text \<open>
  The socket address of a service is the address its URI was made of: for every scheme without a
  colon, IPv4 address and port.
\<close>

theorem socket_addr_roundtrip:
  assumes "CHR '':'' \<notin> set scheme" and "valid_ip ip" and "port \<le> u16_max"
    and "si_uri si = scheme @ ''://'' @ ip_text ip @ '':'' @ dec_of_nat port"
  shows "socket_addr si = Inr (ip, port)"
proof -
  let ?addr = "ip_text ip @ '':'' @ dec_of_nat port"
  have ip: "CHR '':'' \<notin> set (ip_text ip)" "CHR ''/'' \<notin> set (ip_text ip)"
    by (cases ip; simp add: dec_no_char dot_colon_slash)+
  have slash: "CHR ''/'' \<notin> set ?addr" using ip by (simp add: dec_no_char dot_colon_slash)
  have "split_str ''://'' ?addr = [?addr]"
    using slash by (subst split_str.simps) (simp add: find_sub_absent_char [of "CHR ''/''"])
  moreover have "find_sub ''://'' (scheme @ ''://'' @ ?addr) = Some (length scheme)"
    by (rule find_sub_first [OF assms(1)])
  ultimately have "split_str ''://'' (si_uri si) = [scheme, ?addr]"
    unfolding assms(4) by (subst split_str.simps) simp
  moreover have "split_char CHR '':'' ?addr = [ip_text ip, dec_of_nat port]"
    using ip by (simp add: split_char_append split_char_absent dec_no_char dot_colon_slash)
  ultimately show ?thesis
    using parse_ip_text [OF assms(2)] assms(3) by (simp add: socket_addr_def nth_part_def)
qed

subsection \<open>Vectors given as one value\<close>

text \<open>
  A v4 extension that gives the envelopes of its actions as one value instead of a vector (the
  form the decoder broadcasts for other vectors) loses all of them: the value is repeated zero
  times, and reading stops with the shortest vector.
\<close>

theorem scalar_envelopes_lose_actions:
  assumes "obj_get ''acenv'' obj = Some (JStr e)"
    and "parse_v4_actions digits_re obj actions = Ret actions'"
  shows "actions' = actions"
  using assms by (auto simp: parse_v4_actions_def unrle_def v4_rows_def bind_outcome_eq_Ret Let_def)

subsection \<open>Witnesses\<close>

definition plain_digits :: "string \<Rightarrow> bool" where
  "plain_digits s \<longleftrightarrow> s \<noteq> [] \<and> (\<forall>c \<in> set s. is_digit c)"

lemma timeout_flag_panics_witness:
  "body_of_array plain_digits
      [JInt 3, JStr ''svc'', JStr ''main'', JInt 1, JInt 5000, JStr ''beepish+tls://10.0.0.1:1'',
       JArr [JStr ''json''], JArr [JArr [JStr ''ns'', JArr [JStr ''run'', JStr (''t'' @ dec_of_nat 4294967296)]]],
       JFloat 1] = Panic"
  by (rule timeout_flag_panics) (simp_all add: digits_ok_def plain_digits_def u32_max_def)

lemma socket_addr_roundtrip_witness:
  "socket_addr \<lparr>si_identity = ''svc'',
      si_uri = ''beepish+tls'' @ ''://'' @ ip_text (10, 0, 0, 1) @ '':'' @ dec_of_nat 30100,
      si_fingerprint = None\<rparr> = Inr ((10, 0, 0, 1), 30100)"
  by (rule socket_addr_roundtrip [where scheme = "''beepish+tls''"]) (simp_all add: u16_max_def)

lemma scalar_envelopes_lose_actions_witness:
  "parse_v4_actions plain_digits
      [(''acns'', JArr [JStr ''a'']), (''acname'', JArr [JStr ''run'']), (''acenv'', JStr ''json''),
       (''acsec'', JArr [JStr ''main'']), (''accompat'', JArr [JInt 1])] [] = Ret []"
proof -
  let ?obj = "[(''acns'', JArr [JStr ''a'']), (''acname'', JArr [JStr ''run'']), (''acenv'', JStr ''json''),
       (''acsec'', JArr [JStr ''main'']), (''accompat'', JArr [JInt 1])]"
  obtain actions' where "parse_v4_actions plain_digits ?obj [] = Ret actions'"
    by (simp add: parse_v4_actions_def unrle_def obj_get_def v4_rows_def)
  moreover from this have "actions' = []"
    by (rule scalar_envelopes_lose_actions [rotated]) (simp add: obj_get_def)
  ultimately show ?thesis by simp
qed

end
