(* ===== verification/Announce.thy ===== *)
theory Announce
  imports Service_Info Server_Connection
begin

text \<open>
  Building announcements, \<open>scamp/src/service/announce.rs\<close>: the JSON body with its v3 classes and v4
  extension, the run-length encoder, the wrapped base64 text and the packet text.  JSON printing,
  base64 and the RSA signature belong to libraries and are arguments.

  The lemmas show that the run-length code and the flags read back what was written, that the body
  of an active service parses back to exactly its announceable actions, and that the body of an
  inactive one does not parse at all.
\<close>

subsection \<open>Run-length encoding\<close>

text \<open>How many elements at the head of the list equal \<open>x\<close>.\<close>

fun run_length :: "'a \<Rightarrow> 'a list \<Rightarrow> nat" where
  "run_length x [] = 0"
| "run_length x (y # ys) = (if y = x then Suc (run_length x ys) else 0)"

lemma run_length_bound: "run_length x ys \<le> length ys"
  by (induction ys) auto

function rle_encode :: "('a \<Rightarrow> json) \<Rightarrow> 'a list \<Rightarrow> json list" where
  "rle_encode ser [] = []"
| "rle_encode ser (x # xs) =
     (let count = Suc (run_length x xs) in
      (if 1 < count then JArr [JInt (int count), ser x] else ser x)
        # rle_encode ser (drop (count - 1) xs))"
  by pat_completeness auto
termination
  by (relation "measure (\<lambda>(ser, xs). length xs)") auto

definition rle_encode_strings :: "string list \<Rightarrow> json list" where
  "rle_encode_strings items = rle_encode JStr items"

definition rle_encode_numbers :: "u32 list \<Rightarrow> json list" where
  "rle_encode_numbers items = rle_encode (\<lambda>n. JInt (uint n)) items"

subsection \<open>The body\<close>

definition ANNOUNCEABLE :: "string list" where
  "ANNOUNCEABLE = [''create'', ''destroy'', ''noauth'', ''read'', ''secret'', ''update'']"

definition announceable_flag :: "string \<Rightarrow> bool" where
  "announceable_flag f \<longleftrightarrow>
     f \<in> set ANNOUNCEABLE
     \<or> (case f of [] \<Rightarrow> False | c # ds \<Rightarrow> c = CHR ''t'' \<and> parse_u32 ds \<noteq> None)"

definition announced_flags :: "string list \<Rightarrow> string" where
  "announced_flags flags = join '','' (sort (filter announceable_flag flags))"

text \<open>\<open>BTreeMap\<close> from names to vectors: \<open>entry(k).or_default().push(v)\<close>, in key order.\<close>

fun btree_push :: "'k::linorder \<Rightarrow> 'v \<Rightarrow> ('k \<times> 'v list) list \<Rightarrow> ('k \<times> 'v list) list" where
  "btree_push k v [] = [(k, [v])]"
| "btree_push k v ((k', vs) # m) =
     (if k < k' then (k, [v]) # (k', vs) # m
      else if k = k' then (k', vs @ [v]) # m
      else (k', vs) # btree_push k v m)"

definition v3_entry :: "string \<Rightarrow> action_info \<Rightarrow> json" where
  "v3_entry method ai =
     JArr ([JStr method, JStr (announced_flags (ai_flags ai))]
       @ (if ai_version ai \<noteq> 1 then [JInt (sint (ai_version ai))] else []))"

fun v3_class_map :: "action_info list \<Rightarrow> (string \<times> json list) list \<Rightarrow> (string \<times> json list) list" where
  "v3_class_map [] m = m"
| "v3_class_map (ai # ais) m =
     (case rsplit_once CHR ''.'' (ai_name ai) of
        None \<Rightarrow> v3_class_map ais m
      | Some (namespace, method) \<Rightarrow>
          v3_class_map ais (btree_push namespace (v3_entry method ai) m))"

definition v3_classes :: "(string \<times> json list) list \<Rightarrow> json list" where
  "v3_classes m = map (\<lambda>(namespace, methods). JArr (JStr namespace # methods)) m"

definition v4_hash :: json where
  "v4_hash =
     JObj [(''vmaj'', JInt 4), (''vmin'', JInt 0),
           (''acname'', JArr (rle_encode_strings [])), (''acns'', JArr (rle_encode_strings [])),
           (''acflag'', JArr (rle_encode_strings [])), (''acsec'', JArr (rle_encode_strings [])),
           (''acenv'', JArr (rle_encode_strings [])), (''acver'', JArr (rle_encode_numbers []))]"

definition announcement_json ::
  "string \<Rightarrow> string \<Rightarrow> string list \<Rightarrow> string \<Rightarrow> action_info list \<Rightarrow> u32 \<Rightarrow> u32 \<Rightarrow> bool \<Rightarrow> f64
   \<Rightarrow> json list" where
  "announcement_json identity sector envelopes uri actions weight interval_secs active timestamp =
     (let classes = v3_classes (v3_class_map (if active then actions else []) []);
          effective_weight = (if active then weight else 0);
          interval_ms = (ucast interval_secs :: u64) * 1000
      in [JInt 3, JStr identity, JStr sector, JInt (uint effective_weight), JInt (uint interval_ms),
          JStr uri, JArr (map JStr envelopes @ [v4_hash]),
          (if classes = [] then JNull else JArr classes), JFloat timestamp])"

subsection \<open>The packet text\<close>

text \<open>Base64 text wrapped at \<open>width\<close> characters, with the index of the next character.\<close>

fun wrap_from :: "nat \<Rightarrow> nat \<Rightarrow> string \<Rightarrow> string" where
  "wrap_from width i [] = []"
| "wrap_from width i (c # cs) =
     (if 0 < i \<and> i mod width = 0 then [CHR 0x0A] else []) @ c # wrap_from width (Suc i) cs"

definition base64_encode_wrapped :: "(bytes \<Rightarrow> string) \<Rightarrow> bytes \<Rightarrow> nat \<Rightarrow> string" where
  "base64_encode_wrapped b64 d width = wrap_from width 0 (b64 d) @ [CHR 0x0A]"

definition newline :: string where
  "newline = [CHR 0x0A]"

datatype build_error = CertNotUtf8 | SerializeFailed | SigningFailed

text \<open>\<open>print\<close> prints JSON, \<open>sign\<close> signs with the key and can fail.\<close>

definition build_announcement_packet ::
  "(json \<Rightarrow> string option) \<Rightarrow> (bytes \<Rightarrow> bytes option) \<Rightarrow> (bytes \<Rightarrow> string)
   \<Rightarrow> string \<Rightarrow> string \<Rightarrow> string list \<Rightarrow> string \<Rightarrow> action_info list \<Rightarrow> bytes \<Rightarrow> u32 \<Rightarrow> u32 \<Rightarrow> bool
   \<Rightarrow> f64 \<Rightarrow> (build_error, bytes) outcome" where
  "build_announcement_packet print sign b64 identity sector envelopes uri actions cert_pem weight
      interval_secs active timestamp =
     bind_outcome (ok_or CertNotUtf8 (from_utf8 cert_pem)) (\<lambda>cert.
     bind_outcome (ok_or SerializeFailed
       (print (JArr (announcement_json identity sector envelopes uri actions weight interval_secs
          active timestamp)))) (\<lambda>json_blob.
     bind_outcome (ok_or SigningFailed (sign json_blob)) (\<lambda>signature.
       Ret (json_blob @ newline @ newline @ cert @ newline
         @ base64_encode_wrapped b64 signature 76 @ newline))))"

subsection \<open>The run-length code\<close>

text \<open>Element codecs of a vector: what is written reads back and is not itself an array.\<close>

locale rle_codec =
  fixes ser :: "'a \<Rightarrow> json"
    and de :: "json \<Rightarrow> 'a option"
  assumes de_ser: "de (ser x) = Some x"
    and ser_not_array: "ser x \<noteq> JArr ys"
begin

lemma run_split: "replicate (run_length x xs) x @ drop (run_length x xs) xs = xs"
  by (induction xs) auto

lemma unrle_encoded:
  assumes "length xs < 2 ^ 64"
  shows "unrle_entries de name i (rle_encode ser xs) out = Ret (out @ xs)"
  using assms
proof (induction "length xs" arbitrary: xs i out rule: less_induct)
  case less
  show ?case
  proof (cases xs)
    case (Cons x ys)
    let ?n = "run_length x ys"
    have n: "Suc ?n < 2 ^ 64" using run_length_bound [of x ys] less.prems Cons by simp
    have "length (drop ?n ys) < length xs" "length (drop ?n ys) < 2 ^ 64"
      using less.prems Cons by simp_all
    note IH = less.hyps [OF this]
    have split: "replicate ?n x @ drop ?n ys = ys" by (rule run_split)
    show ?thesis
    proof (cases "?n = 0")
      case True
      then have enc: "rle_encode ser xs = ser x # rle_encode ser (drop ?n ys)"
        by (simp add: Cons)
      have na: "\<forall>zs. ser x \<noteq> JArr zs" using ser_not_array by blast
      show ?thesis
        using IH [of "Suc i" "out @ [x]"] de_ser [of x] na True
        unfolding enc by (auto simp: Cons split: json.split)
    next
      case False
      let ?c = "word_of_int (int (Suc ?n)) :: u64"
      have enc: "rle_encode ser xs = JArr [JInt (int (Suc ?n)), ser x] # rle_encode ser (drop ?n ys)"
        using False by (simp add: Cons Let_def)
      have "unat ?c = Suc ?n"
        using unat_of_nat_u64 [OF n] by (simp del: of_nat_Suc)
      moreover have "as_u64 (JInt (int (Suc ?n))) = Some ?c"
        using n by simp
      moreover have "replicate (Suc ?n) x @ drop ?n ys = xs" using split by (simp add: Cons)
      ultimately show ?thesis
        using IH [of "Suc i" "out @ replicate (Suc ?n) x"] de_ser [of x]
        unfolding enc by (simp del: as_u64.simps of_nat_Suc replicate_Suc)
    qed
  qed simp
qed

end

interpretation rle_strings: rle_codec JStr de_string
  by unfold_locales simp_all

interpretation rle_numbers: rle_codec "\<lambda>n :: u32. JInt (uint n)" de_u32
  by unfold_locales (simp_all del: de_u32.simps)

text \<open>
  The run-length decoder of the parser inverts the encoder of the announcer, for strings and for
  numbers, whatever else the object holds before the vector.
\<close>

theorem rle_roundtrip:
  assumes "length ss < 2 ^ 64" and "length ns < 2 ^ 64"
  shows "unrle de_string (obj @ [(name, JArr (rle_encode_strings ss))]) name required len = Ret ss
    \<and> unrle de_u32 (obj @ [(name, JArr (rle_encode_numbers ns))]) name required len = Ret ns"
  using rle_strings.unrle_encoded [OF assms(1), of name 0 "[]"]
    rle_numbers.unrle_encoded [OF assms(2), of name 0 "[]"]
  by (simp add: unrle_def obj_get_def rle_encode_strings_def rle_encode_numbers_def)

lemma rle_roundtrip_witness:
  "unrle de_string ([] @ [(''acenv'', JArr (rle_encode_strings [''json'', ''json'', ''x'']))]) ''acenv'' True 0
     = Ret [''json'', ''json'', ''x'']
   \<and> unrle de_u32 ([] @ [(''acenv'', JArr (rle_encode_numbers [1, 1, 2]))]) ''acenv'' True 0 = Ret [1, 1, 2]"
  by (rule rle_roundtrip) simp_all

subsection \<open>Flags\<close>

text \<open>What an announceable flag reads as.\<close>

definition flag_value :: "string \<Rightarrow> flag" where
  "flag_value f =
     (if f = ''noauth'' then NoAuth
      else case parse_crud_op f of
        Some crud \<Rightarrow> CrudOp crud
      | None \<Rightarrow>
          (case f of
             [] \<Rightarrow> OtherFlag f
           | c # ds \<Rightarrow>
               if c = CHR ''t'' \<and> ds \<noteq> [] \<and> (\<forall>d \<in> set ds. is_digit d)
               then Timeout (the (parse_u32 ds)) else OtherFlag f))"

lemma digits_val_Some_digits: "digits_val n ds = Some m \<Longrightarrow> \<forall>d \<in> set ds. is_digit d"
  by (induction n ds rule: digits_val.induct) (auto split: if_splits)

lemma parse_u32_chars:
  assumes "parse_u32 ds = Some w"
  shows "ds \<noteq> [] \<and> (\<forall>d \<in> set ds. is_digit d \<or> d = CHR ''+'')"
proof -
  from assms obtain n where n: "parse_uint u32_max ds = Some n" by (auto simp: parse_u32_def)
  then obtain c cs where ds: "ds = c # cs" by (cases ds) (auto simp: parse_uint_def)
  show ?thesis
  proof (cases "c = CHR ''+''")
    case True
    with n ds obtain m where "digits_val 0 cs = Some m"
      by (auto simp: parse_uint_def Let_def split: option.splits if_splits)
    with True ds digits_val_Some_digits show ?thesis by auto
  next
    case False
    with n ds obtain m where "digits_val 0 (c # cs) = Some m"
      by (auto simp: parse_uint_def Let_def simp del: digits_val.simps split: option.splits if_splits)
    with ds digits_val_Some_digits show ?thesis by blast
  qed
qed

lemma announceable_chars:
  assumes "announceable_flag f"
  shows "f \<noteq> [] \<and> is_ascii f \<and> CHR '','' \<notin> set f"
proof (cases "f \<in> set ANNOUNCEABLE")
  case True
  then show ?thesis by (auto simp: ANNOUNCEABLE_def)
next
  case False
  with assms obtain ds w where "f = CHR ''t'' # ds" "parse_u32 ds = Some w"
    by (auto simp: announceable_flag_def split: list.splits)
  with parse_u32_chars [of ds w] show ?thesis
    by (auto simp: is_ascii_def is_digit_def)
qed

lemma parse_flag_announceable:
  assumes "digits_ok digits_re" and "announceable_flag f"
  shows "parse_flag digits_re f = Ret (flag_value f)"
proof (cases "f \<in> set ANNOUNCEABLE")
  case True
  then show ?thesis
    by (simp add: ANNOUNCEABLE_def, elim disjE;
        simp add: parse_flag_def flag_value_def timeout_capture_def parse_crud_op_def)
next
  case False
  with assms(2) obtain ds w where f: "f = CHR ''t'' # ds" and w: "parse_u32 ds = Some w"
    by (auto simp: announceable_flag_def split: list.splits)
  have "is_ascii ds" using announceable_chars [OF assms(2)] f by simp
  then have "digits_re ds = (ds \<noteq> [] \<and> (\<forall>c \<in> set ds. is_digit c))"
    using assms(1) by (simp add: digits_ok_def)
  with f w show ?thesis
    by (auto simp: parse_flag_def flag_value_def timeout_capture_def parse_crud_op_def)
qed

lemma parse_flags_announceable:
  assumes "digits_ok digits_re" and "\<forall>f \<in> set fs. announceable_flag f"
  shows "parse_flags digits_re fs = Ret (map flag_value fs)"
  using assms(2) by (induction fs) (simp_all add: parse_flag_announceable [OF assms(1)])

lemma flag_list_announced:
  assumes "digits_ok digits_re"
  shows "flag_list digits_re (announced_flags flags)
    = Ret (map flag_value (sort (filter announceable_flag flags)))"
proof (cases "sort (filter announceable_flag flags) = []")
  case True
  then show ?thesis unfolding announced_flags_def flag_list_def by simp
next
  case False
  let ?fs = "sort (filter announceable_flag flags)"
  have ann: "\<forall>f \<in> set ?fs. announceable_flag f" by simp
  then have "\<forall>f \<in> set ?fs. CHR '','' \<notin> set f" using announceable_chars by blast
  then have "split_char CHR '','' (announced_flags flags) = ?fs"
    unfolding announced_flags_def by (rule split_char_join [OF False])
  moreover have "filter (\<lambda>s. s \<noteq> []) ?fs = ?fs"
    using ann announceable_chars by (intro filter_True) blast
  ultimately show ?thesis
    using parse_flags_announceable [OF assms ann] by (simp add: flag_list_def)
qed

subsection \<open>Narrowing and widening\<close>

lemma ucast_u32_of_int: "0 \<le> i \<Longrightarrow> i < 2^64 \<Longrightarrow> (ucast (word_of_int i :: u64) :: u32) = word_of_int i"
  by (simp add: unsigned_of_int take_bit_int_eq_self)
lemma ucast_u64_uint: "(ucast (w::u32) :: u64) = word_of_int (uint w)"
  by (rule ucast_eq)
lemma ucast_interval: "(ucast ((ucast (w::u32) :: u64) * 1000) :: u32) = w * 1000"
proof -
  have "uint w < 2 ^ 32" using unsigned_less [of w, where ?'a = int] by simp
  moreover have "(ucast w :: u64) * 1000 = word_of_int (uint w * 1000)"
    unfolding ucast_u64_uint by (metis of_int_mult of_int_numeral)
  ultimately have "(ucast ((ucast w :: u64) * 1000) :: u32) = word_of_int (uint w * 1000)"
    using ucast_u32_of_int [of "uint w * 1000"] by simp
  also have "\<dots> = word_of_int (uint w) * 1000" by (metis of_int_mult of_int_numeral)
  finally show ?thesis by simp
qed

subsection \<open>Classes in name order\<close>

lemma btree_push_map:
  assumes "sorted xs" and "distinct xs" and "\<forall>n. n \<notin> set xs \<longrightarrow> f n = []"
  shows "btree_push k v (map (\<lambda>n. (n, f n)) xs)
    = map (\<lambda>n. (n, (f(k := f k @ [v])) n)) (if k \<in> set xs then xs else insort k xs)"
  using assms
proof (induction xs arbitrary: f)
  case Nil
  then show ?case by simp
next
  case (Cons x xs)
  consider "k < x" | "k = x" | "x < k" by fastforce
  then show ?case
  proof cases
    case 1
    then have "k \<notin> set (x # xs)" using Cons.prems(1) by fastforce
    moreover have "f k = []" using Cons.prems(3) \<open>k \<notin> set (x # xs)\<close> by blast
    moreover have "map (\<lambda>n. (n, (f(k := f k @ [v])) n)) (x # xs) = map (\<lambda>n. (n, f n)) (x # xs)"
      using \<open>k \<notin> set (x # xs)\<close> by auto
    ultimately show ?thesis using 1 by simp
  next
    case 2
    then have "k \<notin> set xs" using Cons.prems(2) by simp
    then have "map (\<lambda>n. (n, (f(k := f k @ [v])) n)) xs = map (\<lambda>n. (n, f n)) xs" by auto
    with 2 show ?thesis by simp
  next
    case 3
    let ?g = "f(x := [])"
    have g: "map (\<lambda>n. (n, f n)) xs = map (\<lambda>n. (n, ?g n)) xs" using Cons.prems(2) by auto
    have "btree_push k v (map (\<lambda>n. (n, ?g n)) xs)
        = map (\<lambda>n. (n, (?g(k := ?g k @ [v])) n)) (if k \<in> set xs then xs else insort k xs)"
      using Cons.prems by (intro Cons.IH) auto
    also have "\<dots> = map (\<lambda>n. (n, (f(k := f k @ [v])) n)) (if k \<in> set xs then xs else insort k xs)"
      using 3 Cons.prems(2) by (auto simp: set_insort_key)
    finally have tail: "btree_push k v (map (\<lambda>n. (n, f n)) xs)
        = map (\<lambda>n. (n, (f(k := f k @ [v])) n)) (if k \<in> set xs then xs else insort k xs)"
      unfolding g .
    have "btree_push k v (map (\<lambda>n. (n, f n)) (x # xs)) = (x, f x) # btree_push k v (map (\<lambda>n. (n, f n)) xs)"
      using 3 by auto
    moreover have "\<not> k < x" "k \<noteq> x" "x \<noteq> k" "\<not> k \<le> x" using 3 by auto
    ultimately show ?thesis
      unfolding tail using 3 by simp
  qed
qed

text \<open>The dotted actions of a list, split into namespace and method, and those of one namespace.\<close>

fun dotted :: "action_info list \<Rightarrow> (string \<times> string \<times> action_info) list" where
  "dotted [] = []"
| "dotted (ai # ais) =
     (case rsplit_once CHR ''.'' (ai_name ai) of
        None \<Rightarrow> dotted ais
      | Some (namespace, method) \<Rightarrow> (namespace, method, ai) # dotted ais)"

definition in_namespace :: "string \<Rightarrow> (string \<times> string \<times> action_info) list \<Rightarrow> (string \<times> action_info) list" where
  "in_namespace n ds = map snd (filter (\<lambda>d. fst d = n) ds)"

definition namespaces :: "(string \<times> string \<times> action_info) list \<Rightarrow> string list" where
  "namespaces ds = sorted_list_of_set (fst ` set ds)"

definition class_table :: "(string \<times> string \<times> action_info) list \<Rightarrow> (string \<times> json list) list" where
  "class_table ds =
     map (\<lambda>n. (n, map (\<lambda>(method, ai). v3_entry method ai) (in_namespace n ds))) (namespaces ds)"

lemma class_table_push:
  "btree_push namespace (v3_entry method ai) (class_table ds) = class_table (ds @ [(namespace, method, ai)])"
proof -
  let ?f = "\<lambda>n. map (\<lambda>(method, ai). v3_entry method ai) (in_namespace n ds)"
  have "btree_push namespace (v3_entry method ai) (class_table ds)
      = map (\<lambda>n. (n, (?f(namespace := ?f namespace @ [v3_entry method ai])) n))
          (if namespace \<in> set (namespaces ds) then namespaces ds else insort namespace (namespaces ds))"
    unfolding class_table_def
  proof (rule btree_push_map)
    show "\<forall>n. n \<notin> set (namespaces ds) \<longrightarrow> ?f n = []"
      by (auto simp: namespaces_def in_namespace_def filter_empty_conv)
  qed (simp_all add: namespaces_def)
  also have "(if namespace \<in> set (namespaces ds) then namespaces ds else insort namespace (namespaces ds))
      = namespaces (ds @ [(namespace, method, ai)])"
  proof (cases "namespace \<in> fst ` set ds")
    case True
    then have "fst ` set (ds @ [(namespace, method, ai)]) = fst ` set ds" by auto
    with True show ?thesis unfolding namespaces_def by (simp only:) simp
  next
    case False
    then show ?thesis by (simp add: namespaces_def)
  qed
  also have "(\<lambda>n. (n, (?f(namespace := ?f namespace @ [v3_entry method ai])) n))
      = (\<lambda>n. (n, map (\<lambda>(method, ai). v3_entry method ai) (in_namespace n (ds @ [(namespace, method, ai)]))))"
    by (auto simp: in_namespace_def)
  finally show ?thesis by (simp add: class_table_def)
qed

lemma v3_class_map_table: "v3_class_map ais (class_table ds) = class_table (ds @ dotted ais)"
proof (induction ais arbitrary: ds)
  case (Cons ai ais)
  show ?case
  proof (cases "rsplit_once CHR ''.'' (ai_name ai)")
    case (Some p)
    then show ?thesis
      using Cons.IH by (cases p) (simp add: class_table_push)
  next
    case None
    then show ?thesis by (simp add: Cons.IH del: rsplit_once_None)
  qed
qed simp

lemma v3_class_map_dotted: "v3_class_map ais [] = class_table (dotted ais)"
  using v3_class_map_table [of ais "[]"] by (simp add: class_table_def namespaces_def)

subsection \<open>Reading back what was announced\<close>

text \<open>The action a parser should see.\<close>

definition announced_action :: "string \<Rightarrow> string list \<Rightarrow> string \<Rightarrow> string \<times> action_info \<Rightarrow> action" where
  "announced_action sector envelopes namespace = (\<lambda>(method, ai).
     (let path = action_path namespace method in
      \<lparr>a_path = path, a_version = ai_version ai, a_pathver = pathver path (ai_version ai),
       a_flags = map flag_value (sort (filter announceable_flag (ai_flags ai))),
       a_sector = sector, a_envelopes = envelopes, a_section = V3\<rparr>))"

definition announced_actions :: "string \<Rightarrow> string list \<Rightarrow> action_info list \<Rightarrow> action list" where
  "announced_actions sector envelopes ais =
     concat (map (\<lambda>n. map (announced_action sector envelopes n) (in_namespace n (dotted ais)))
       (namespaces (dotted ais)))"

lemma v3_version_announced:
  assumes "0 \<le> sint (v :: i32)" and "v \<noteq> 1"
  shows "v3_version ns_i ac_i [a, b, JInt (sint v)] = Ret v"
proof -
  have "sint v < 2 ^ 64" using sint_i32_range [of v] by simp
  with assms(1) have "as_u64 (JInt (sint v)) = Some (word_of_int (sint v))"
    and "(ucast (word_of_int (sint v) :: u64) :: u32) = v"
    using ucast_u32_of_int [of "sint v"] by simp_all
  then show ?thesis
    by (simp add: v3_version_def nth_part_def del: as_u64.simps)
qed

lemma v3_action_announced:
  assumes "digits_ok digits_re" and "0 \<le> sint (ai_version ai)"
  shows "v3_action digits_re ns_i ac_i namespace sector envelopes (v3_entry method ai)
    = Ret (announced_action sector envelopes namespace (method, ai))"
proof (cases "ai_version ai = 1")
  case True
  have "v3_version ns_i ac_i [a, b] = Ret 1" for a b
    by (simp add: v3_version_def nth_part_def)
  with True show ?thesis
    by (simp add: v3_action_def v3_entry_def announced_action_def flag_list_announced [OF assms(1)] Let_def)
next
  case False
  with v3_version_announced [OF assms(2) False] show ?thesis
    by (simp add: v3_action_def v3_entry_def announced_action_def flag_list_announced [OF assms(1)] Let_def)
qed

lemma v3_methods_announced:
  assumes "digits_ok digits_re" and "\<forall>(m, ai) \<in> set ms. 0 \<le> sint (ai_version ai)"
  shows "v3_methods digits_re ns_i ac_i namespace sector envelopes
      (map (\<lambda>(m, ai). v3_entry m ai) ms) actions
    = Ret (actions @ map (announced_action sector envelopes namespace) ms)"
  using assms(2)
proof (induction ms arbitrary: ac_i actions)
  case (Cons m ms)
  then show ?case
    using v3_action_announced [OF assms(1)] by (cases m) simp
qed simp

lemma v3_namespaces_announced:
  assumes "digits_ok digits_re" and "\<forall>n \<in> set ns. \<forall>(m, ai) \<in> set (f n). 0 \<le> sint (ai_version ai)"
  shows "v3_namespaces digits_re ns_i sector envelopes
      (map (\<lambda>n. JArr (JStr n # map (\<lambda>(m, ai). v3_entry m ai) (f n))) ns) actions
    = Ret (actions @ concat (map (\<lambda>n. map (announced_action sector envelopes n) (f n)) ns))"
  using assms(2)
proof (induction ns arbitrary: ns_i actions)
  case (Cons n ns)
  then show ?case
    using v3_methods_announced [OF assms(1), of "f n"] by simp
qed simp

lemma v4_hash_empty: "parse_v4_actions digits_re
    [(''vmaj'', JInt 4), (''vmin'', JInt 0), (''acname'', JArr []), (''acns'', JArr []),
     (''acflag'', JArr []), (''acsec'', JArr []), (''acenv'', JArr []), (''acver'', JArr [])] actions
   = Ret actions"
  by (simp add: parse_v4_actions_def unrle_def obj_get_def v4_rows_def)

lemma envelopes_announced:
  "envelopes_and_v4 digits_re (map JStr es @ [v4_hash]) envs actions = Ret (envs @ es, actions)"
  by (induction es arbitrary: envs)
    (simp_all add: v4_hash_def rle_encode_strings_def rle_encode_numbers_def v4_hash_empty)

lemma as_u64_small:
  "as_u64 (JInt (uint (w :: u32))) = Some (ucast w)" "as_u64 (JInt (uint (x :: u64))) = Some x"
proof -
  have "uint w < 2 ^ 32" using unsigned_less [of w, where ?'a = int] by simp
  then show "as_u64 (JInt (uint w)) = Some (ucast w)"
    unfolding ucast_u64_uint by simp
  show "as_u64 (JInt (uint x)) = Some x" by (rule as_u64_uint)
qed

lemma dotted_versions: "(n, m, ai) \<in> set (dotted ais) \<Longrightarrow> ai \<in> set ais"
  by (induction ais) (auto split: option.splits)

lemma body_of_announced:
  assumes "digits_ok digits_re" and "\<forall>ai \<in> set ais. 0 \<le> sint (ai_version ai)" and "dotted ais \<noteq> []"
  shows "body_of_array digits_re
      (announcement_json identity sector envelopes uri ais weight interval True timestamp)
    = Ret \<lparr>ab_info = \<lparr>si_identity = identity, si_uri = uri, si_fingerprint = None\<rparr>,
           ab_params = \<lparr>ap_weight = weight, ap_interval = interval * 1000, ap_timestamp = timestamp\<rparr>,
           ab_actions = announced_actions sector envelopes ais\<rparr>"
proof -
  let ?ds = "dotted ais"
  have classes: "v3_classes (class_table ?ds)
      = map (\<lambda>n. JArr (JStr n # map (\<lambda>(m, ai). v3_entry m ai) (in_namespace n ?ds))) (namespaces ?ds)"
    by (simp add: v3_classes_def class_table_def)
  have "\<forall>n \<in> set (namespaces ?ds). \<forall>(m, ai) \<in> set (in_namespace n ?ds). 0 \<le> sint (ai_version ai)"
    using assms(2) dotted_versions by (fastforce simp: in_namespace_def)
  from v3_namespaces_announced [OF assms(1) this]
  have v3: "parse_v3_actions digits_re (v3_classes (class_table ?ds)) sector envelopes []
      = Ret (announced_actions sector envelopes ais)"
    by (simp add: parse_v3_actions_def classes announced_actions_def)
  have ne: "v3_classes (class_table ?ds) \<noteq> []"
    using assms(3) by (simp add: classes namespaces_def)
  have weight: "(ucast (ucast weight :: u64) :: u32) = weight"
    using ucast_u32_of_int [of "uint weight"] unsigned_less [of weight, where ?'a = int]
    unfolding ucast_u64_uint by simp
  have three: "as_u64 (JInt 3) = Some 3" by simp
  show ?thesis
    using v3 ne
    by (simp add: three announcement_json_def v3_class_map_dotted body_of_array_def Let_def as_u64_small
        envelopes_announced ucast_interval weight del: as_u64.simps)
qed

text \<open>
  What an active service announces is what a parser reads: identity, uri, sector, envelopes,
  weight and the interval in milliseconds (at 32 bits), and exactly its actions with a dotted name,
  class by class in name order, each with its path in lower case, its version and its announceable
  flags in order.  Needed is one such action and no negative version.
\<close>

theorem announcement_roundtrip:
  assumes "digits_ok digits_re" and "\<forall>ai \<in> set ais. 0 \<le> sint (ai_version ai)" and "dotted ais \<noteq> []"
  shows "body_of_array digits_re
      (announcement_json identity sector envelopes uri ais weight interval True timestamp)
    = Ret \<lparr>ab_info = \<lparr>si_identity = identity, si_uri = uri, si_fingerprint = None\<rparr>,
           ab_params = \<lparr>ap_weight = weight, ap_interval = interval * 1000, ap_timestamp = timestamp\<rparr>,
           ab_actions = announced_actions sector envelopes ais\<rparr>"
  using assms by (rule body_of_announced)

lemma inactive_body_rejected:
  assumes "\<not> active \<or> dotted ais = []"
  shows "body_of_array digits_re
      (announcement_json identity sector envelopes uri ais weight interval active timestamp)
    = Err (MissingField ''v3_actions'')"
proof -
  have "v3_classes (v3_class_map (if active then ais else []) []) = []"
    using assms by (auto simp: v3_class_map_dotted class_table_def namespaces_def v3_classes_def)
  moreover have "as_u64 (JInt 3) = Some 3" by simp
  ultimately show ?thesis
    by (simp add: announcement_json_def body_of_array_def Let_def as_u64_small del: as_u64.simps)
qed

text \<open>
  What an inactive service announces (as it does when it shuts down) does not parse: with
  \<open>active\<close> false, or without a dotted action, the place of the actions is JSON null, which the parser
  rejects.  The final announcements of weight 0 are therefore dropped by every receiver of this
  implementation.
\<close>

theorem inactive_announcement_rejected:
  assumes "\<not> active \<or> dotted ais = []"
  shows "body_of_array digits_re
      (announcement_json identity sector envelopes uri ais weight interval active timestamp)
    = Err (MissingField ''v3_actions'')"
  using assms by (rule inactive_body_rejected)

subsection \<open>The wrapped base64 text\<close>

lemma wrap_from_plain: "CHR 0x0A \<notin> set s \<Longrightarrow> filter (\<lambda>c. c \<noteq> CHR 0x0A) (wrap_from width i s) = s"
  by (induction s arbitrary: i) auto

lemma wrap_from_no_blank_line:
  "CHR 0x0A \<notin> set s \<Longrightarrow> wrap_from width i s = u @ CHR 0x0A # v \<Longrightarrow> v \<noteq> [] \<and> hd v \<noteq> CHR 0x0A"
proof (induction s arbitrary: i u)
  case (Cons c cs)
  show ?case
  proof (cases "0 < i \<and> i mod width = 0")
    case True
    with Cons.prems(2) have eq: "CHR 0x0A # c # wrap_from width (Suc i) cs = u @ CHR 0x0A # v" by simp
    show ?thesis
    proof (cases u)
      case Nil
      with eq Cons.prems(1) show ?thesis by auto
    next
      case u: (Cons a u')
      with eq have rest: "c # wrap_from width (Suc i) cs = u' @ CHR 0x0A # v" by simp
      with Cons.prems(1) obtain u'' where "wrap_from width (Suc i) cs = u'' @ CHR 0x0A # v"
        by (cases u') auto
      with Cons.IH Cons.prems(1) show ?thesis by simp
    qed
  next
    case False
    with Cons.prems(2) have rest: "c # wrap_from width (Suc i) cs = u @ CHR 0x0A # v" by auto
    with Cons.prems(1) obtain u'' where "wrap_from width (Suc i) cs = u'' @ CHR 0x0A # v"
      by (cases u) auto
    with Cons.IH Cons.prems(1) show ?thesis by simp
  qed
qed simp

subsection \<open>Witnesses\<close>

definition ascii_digits :: "string \<Rightarrow> bool" where
  "ascii_digits s \<longleftrightarrow> s \<noteq> [] \<and> (\<forall>c \<in> set s. is_digit c)"

lemma digits_ok_ascii [simp]: "digits_ok ascii_digits"
  by (simp add: digits_ok_def ascii_digits_def)

definition sample_actions :: "action_info list" where
  "sample_actions =
     [\<lparr>ai_name = ''Api.Status.health_check'', ai_version = 1, ai_flags = [''t600'', ''noauth'', ''x'']\<rparr>]"

lemma announcement_roundtrip_witness:
  "body_of_array ascii_digits
      (announcement_json ''svc:1'' ''main'' [''json''] ''beepish+tls://10.0.0.1:30100'' sample_actions 1 5 True 7)
    = Ret \<lparr>ab_info = \<lparr>si_identity = ''svc:1'', si_uri = ''beepish+tls://10.0.0.1:30100'', si_fingerprint = None\<rparr>,
           ab_params = \<lparr>ap_weight = 1, ap_interval = 5000, ap_timestamp = 7\<rparr>,
           ab_actions = announced_actions ''main'' [''json''] sample_actions\<rparr>"
proof -
  have dot: "rsplit_once CHR ''.'' ''Api.Status.health_check'' = Some (''Api.Status'', ''health_check'')"
    by (simp add: rsplit_once_def)
  have "dotted sample_actions \<noteq> []" by (simp add: sample_actions_def dot)
  moreover have "\<forall>ai \<in> set sample_actions. 0 \<le> sint (ai_version ai)" by (simp add: sample_actions_def)
  ultimately show ?thesis
    using announcement_roundtrip [of ascii_digits sample_actions] by simp
qed

lemma inactive_announcement_rejected_witness:
  "body_of_array ascii_digits
      (announcement_json ''svc:1'' ''main'' [''json''] ''beepish+tls://10.0.0.1:30100'' sample_actions 1 5 False 7)
    = Err (MissingField ''v3_actions'')"
  by (rule inactive_announcement_rejected) simp

end
