(* ===== verification/Announcement_Packet.thy ===== *)
theory Announcement_Packet
  imports Announce
begin

text \<open>
  Announcement packets, \<open>scamp/src/discovery/packet.rs\<close>: the text of an announcement split into its
  signed JSON, certificate and signature, the certificate's fingerprint, the check of the
  signature; with the parts of \<open>scamp/src/crypto.rs\<close> that prepare the texts for the
  cryptographic library, whose operations are arguments.
\<close>

subsection \<open>Texts for the cryptographic library (crypto.rs)\<close>

definition pem_to_der :: "(string \<Rightarrow> bytes option) \<Rightarrow> string \<Rightarrow> bytes option" where
  "pem_to_der b64_decode pem =
     b64_decode (concat (filter (\<lambda>l. \<not> prefix ''-----'' l) (lines pem)))"

definition hex_digit :: "nat \<Rightarrow> char" where
  "hex_digit n = (if n < 10 then char_of (48 + n) else char_of (55 + n))"

definition hex_byte :: "char \<Rightarrow> string" where
  "hex_byte c = [hex_digit (byte_val c div 16), hex_digit (byte_val c mod 16)]"

definition cert_sha1_fingerprint :: "(bytes \<Rightarrow> bytes) \<Rightarrow> bytes \<Rightarrow> string" where
  "cert_sha1_fingerprint sha1 cert_der = join '':'' (map hex_byte (sha1 cert_der))"

definition cert_pem_fingerprint ::
  "(string \<Rightarrow> bytes option) \<Rightarrow> (bytes \<Rightarrow> bytes) \<Rightarrow> string \<Rightarrow> string option" where
  "cert_pem_fingerprint b64_decode sha1 cert_pem =
     map_option (cert_sha1_fingerprint sha1) (pem_to_der b64_decode cert_pem)"

text \<open>The characters of a text that are not white space.\<close>

function drop_whitespace :: "string \<Rightarrow> string" where
  "drop_whitespace s =
     (case s of
        [] \<Rightarrow> []
      | c # cs \<Rightarrow>
          if ws_len s = 0 then c # drop_whitespace cs else drop_whitespace (drop (ws_len s) s))"
  by pat_completeness auto
termination
proof (relation "measure length")
  fix s c cs
  assume "s = c # cs" and "ws_len s \<noteq> 0"
  then show "(drop (ws_len s) s, s) \<in> measure length"
    using ws_len_pos_length [of s] by simp
qed auto

declare drop_whitespace.simps [simp del]

datatype crypto_error = BadCertificate | BadBase64 | VerifyError

text \<open>
  \<open>public_key\<close> reads the key of a certificate, \<open>verify\<close> checks a PKCS1v15 SHA256 signature and may
  itself fail.
\<close>

definition verify_rsa_sha256 ::
  "(string \<Rightarrow> 'key option) \<Rightarrow> (string \<Rightarrow> bytes option) \<Rightarrow> ('key \<Rightarrow> bytes \<Rightarrow> bytes \<Rightarrow> bool option)
   \<Rightarrow> string \<Rightarrow> bytes \<Rightarrow> string \<Rightarrow> crypto_error + bool" where
  "verify_rsa_sha256 public_key b64_decode verify cert_pem message signature_base64 =
     (case public_key (trim cert_pem) of
        None \<Rightarrow> Inl BadCertificate
      | Some key \<Rightarrow>
          (case b64_decode (drop_whitespace (trim signature_base64)) of
             None \<Rightarrow> Inl BadBase64
           | Some signature \<Rightarrow>
               (case verify key message signature of
                  None \<Rightarrow> Inl VerifyError
                | Some valid \<Rightarrow> Inr valid)))"

subsection \<open>The packet (packet.rs)\<close>

record announcement_packet =
  pk_json_blob :: string
  pk_body :: announcement_body
  pk_certificate :: string
  pk_signature :: string

datatype packet_error =
    MissingJson
  | MissingCertificate
  | MissingSignature
  | TooManyParts
  | ServiceInfoError info_error
  | ExpectedArray

fun packet_error_text :: "packet_error \<Rightarrow> string" where
  "packet_error_text MissingJson = ''Missing JSON''"
| "packet_error_text MissingCertificate = ''Missing certificate''"
| "packet_error_text MissingSignature = ''Missing signature''"
| "packet_error_text TooManyParts = ''Too many parts in announcement''"
| "packet_error_text (ServiceInfoError e) = ''Failed to parse service info: '' @ info_error_text e"
| "packet_error_text ExpectedArray = ''Expected a JSON array''"

fun map_err :: "('e \<Rightarrow> 'f) \<Rightarrow> ('e, 'a) outcome \<Rightarrow> ('f, 'a) outcome" where
  "map_err f (Ret x) = Ret x"
| "map_err f (Err e) = Err (f e)"
| "map_err f Panic = Panic"

definition blank_line :: string where
  "blank_line = newline @ newline"

text \<open>\<open>parse_body\<close> is the announcement body parser, \<open>fingerprint\<close> that of the certificate.\<close>

definition packet_of_text ::
  "(string \<Rightarrow> (info_error, announcement_body) outcome) \<Rightarrow> (string \<Rightarrow> string option) \<Rightarrow> string
   \<Rightarrow> (packet_error, announcement_packet) outcome" where
  "packet_of_text parse_body fingerprint v =
     (let parts = split_str blank_line v in
      bind_outcome (ok_or MissingJson (nth_part 0 parts)) (\<lambda>json_blob.
      bind_outcome (ok_or MissingCertificate (nth_part 1 parts)) (\<lambda>cert_pem.
      bind_outcome (ok_or MissingSignature (nth_part 2 parts)) (\<lambda>sig_base64.
      if (case nth_part 3 parts of None \<Rightarrow> False | Some rest \<Rightarrow> rest \<noteq> []) then Err TooManyParts
      else
        bind_outcome (map_err ServiceInfoError (parse_body json_blob)) (\<lambda>body.
          Ret \<lparr>pk_json_blob = json_blob,
               pk_body = (case fingerprint cert_pem of
                  None \<Rightarrow> body
                | Some fp \<Rightarrow> body\<lparr>ab_info := (ab_info body)\<lparr>si_fingerprint := Some fp\<rparr>\<rparr>),
               pk_certificate = cert_pem, pk_signature = sig_base64\<rparr>)))))"

text \<open>\<open>verify\<close> is \<open>verify_rsa_sha256\<close> on certificate, message and signature text.\<close>

definition signature_is_valid ::
  "(string \<Rightarrow> bytes \<Rightarrow> string \<Rightarrow> crypto_error + bool) \<Rightarrow> announcement_packet \<Rightarrow> bool" where
  "signature_is_valid verify p =
     (case verify (pk_certificate p) (pk_json_blob p) (pk_signature p) of
        Inr valid \<Rightarrow> valid
      | Inl e \<Rightarrow> False)"

subsection \<open>Splitting the text\<close>

text \<open>A text in front of a blank line: no blank line inside, no line feed at its end.\<close>

definition no_blank :: "string \<Rightarrow> bool" where
  "no_blank s \<longleftrightarrow> find_sub blank_line (s @ newline) = None"

lemma blank_line_eq: "blank_line = [CHR 0x0A, CHR 0x0A]"
  by (simp add: blank_line_def newline_def)

lemma find_sub_no_blank: "no_blank s \<Longrightarrow> find_sub blank_line (s @ blank_line @ t) = Some (length s)"
proof (induction s)
  case Nil
  then show ?case by (simp add: blank_line_eq)
next
  case (Cons c cs)
  then have np: "\<not> prefix blank_line (c # cs @ newline)" and nb: "no_blank cs"
    by (auto simp: no_blank_def split: if_splits)
  have "\<not> prefix blank_line (c # cs @ blank_line @ t)"
    using np by (cases cs) (auto simp: blank_line_eq newline_def)
  with Cons.IH [OF nb] show ?case by simp
qed

lemma split_str_blank:
  assumes "no_blank s"
  shows "split_str blank_line (s @ blank_line @ t) = s # split_str blank_line t"
proof -
  have "blank_line \<noteq> []" by (simp add: blank_line_eq)
  with find_sub_no_blank [OF assms, of t] show ?thesis
    by (subst split_str.simps) simp
qed

lemma no_blank_plain:
  assumes "CHR 0x0A \<notin> set s"
  shows "no_blank s"
  unfolding no_blank_def blank_line_eq newline_def
  using assms
proof (induction s)
  case (Cons c cs)
  then show ?case by (cases cs) auto
qed simp

lemma no_blankI:
  assumes "\<And>u v. s = u @ CHR 0x0A # v \<Longrightarrow> v \<noteq> [] \<and> hd v \<noteq> CHR 0x0A"
  shows "no_blank s"
  using assms
proof (induction s)
  case Nil
  then show ?case by (simp add: no_blank_def blank_line_eq newline_def)
next
  case (Cons c cs)
  have "no_blank cs"
  proof (rule Cons.IH)
    fix u v assume "cs = u @ CHR 0x0A # v"
    then show "v \<noteq> [] \<and> hd v \<noteq> CHR 0x0A" using Cons.prems [of "c # u" v] by simp
  qed
  moreover have "\<not> prefix blank_line (c # cs @ newline)"
    using Cons.prems [of "[]" cs] by (cases cs) (auto simp: blank_line_eq newline_def)
  ultimately show ?case by (simp add: no_blank_def)
qed

lemma no_blank_wrapped: "CHR 0x0A \<notin> set s \<Longrightarrow> no_blank (wrap_from width i s)"
  using wrap_from_no_blank_line by (intro no_blankI) blast

subsection \<open>White space in the signature\<close>

definition text_char :: "char \<Rightarrow> bool" where
  "text_char c \<longleftrightarrow> is_token_char c \<or> c = CHR 0x0A"

lemma ws_len_newline [simp]: "ws_len (CHR 0x0A # cs) = 1"
  by (simp add: ws_len_def)

lemma token_not_newline: "is_token_char c \<Longrightarrow> c \<noteq> CHR 0x0A"
  by (auto simp: is_token_char_def)

lemma drop_whitespace_Nil [simp]: "drop_whitespace [] = []"
  by (subst drop_whitespace.simps) simp

lemma drop_whitespace_text:
  "\<forall>c \<in> set s. text_char c \<Longrightarrow> drop_whitespace s = filter (\<lambda>c. c \<noteq> CHR 0x0A) s"
proof (induction s)
  case (Cons c cs)
  then show ?case
    by (subst drop_whitespace.simps) (auto simp: text_char_def token_not_newline)
qed simp

lemma trim_start_text:
  "\<forall>c \<in> set s. text_char c \<Longrightarrow> trim_start s = dropWhile (\<lambda>c. c = CHR 0x0A) s"
proof (induction s)
  case Nil
  then show ?case by (subst trim_start.simps) simp
next
  case (Cons c cs)
  then show ?case
    by (subst trim_start.simps) (auto simp: text_char_def token_not_newline)
qed

lemma trim_end_text:
  "\<forall>c \<in> set s. text_char c \<Longrightarrow> filter (\<lambda>c. c \<noteq> CHR 0x0A) (trim_end s) = filter (\<lambda>c. c \<noteq> CHR 0x0A) s
     \<and> set (trim_end s) \<subseteq> set s"
proof (induction s)
  case (Cons c cs)
  show ?case
  proof (cases "trim_start (c # cs) = []")
    case True
    then have "\<forall>x \<in> set (c # cs). x = CHR 0x0A"
      using trim_start_text [OF Cons.prems] by (simp only: dropWhile_eq_Nil_conv)
    with True show ?thesis by (auto simp: filter_empty_conv)
  next
    case False
    with Cons show ?thesis by auto
  qed
qed simp

lemma filter_dropWhile_newline:
  "filter (\<lambda>c. c \<noteq> CHR 0x0A) (dropWhile (\<lambda>c. c = CHR 0x0A) s) = filter (\<lambda>c. c \<noteq> CHR 0x0A) s"
  by (induction s) auto

lemma drop_whitespace_trim_text:
  assumes "\<forall>c \<in> set s. text_char c"
  shows "drop_whitespace (trim s) = filter (\<lambda>c. c \<noteq> CHR 0x0A) s"
proof -
  let ?d = "dropWhile (\<lambda>c. c = CHR 0x0A) s"
  have d: "\<forall>c \<in> set ?d. text_char c" using assms set_dropWhileD by fast
  then have "\<forall>c \<in> set (trim_end ?d). text_char c" using trim_end_text [OF d] by blast
  then show ?thesis
    unfolding trim_def trim_start_text [OF assms]
    using drop_whitespace_text trim_end_text [OF d] filter_dropWhile_newline by simp
qed

lemma set_wrap_from: "set (wrap_from width i s) \<subseteq> insert (CHR 0x0A) (set s)"
  by (induction s arbitrary: i) auto

lemma drop_whitespace_wrapped:
  assumes "\<forall>c \<in> set s. is_token_char c"
  shows "drop_whitespace (trim (wrap_from width i s)) = s"
proof -
  have "CHR 0x0A \<notin> set s" using assms token_not_newline by blast
  moreover have "\<forall>c \<in> set (wrap_from width i s). text_char c"
    using assms set_wrap_from [of width i s] by (auto simp: text_char_def)
  ultimately show ?thesis
    using wrap_from_plain drop_whitespace_trim_text by simp
qed

subsection \<open>What the receiver makes of a built packet\<close>

text \<open>
  What the code relies on in the libraries: base64 text is printable and decodes to its bytes, the
  certificate text holds the public key of the signing key, a signature made with the private key
  verifies.
\<close>

definition signing_laws ::
  "(string \<Rightarrow> 'key option) \<Rightarrow> (string \<Rightarrow> bytes option) \<Rightarrow> ('key \<Rightarrow> bytes \<Rightarrow> bytes \<Rightarrow> bool option)
   \<Rightarrow> (bytes \<Rightarrow> bytes option) \<Rightarrow> (bytes \<Rightarrow> string) \<Rightarrow> string \<Rightarrow> bool" where
  "signing_laws public_key b64_decode verify sign b64 cert \<longleftrightarrow>
     (\<exists>key. public_key (trim cert) = Some key
        \<and> (\<forall>m s. sign m = Some s \<longrightarrow>
              verify key m s = Some True \<and> b64_decode (b64 s) = Some s
              \<and> b64 s \<noteq> [] \<and> (\<forall>c \<in> set (b64 s). is_token_char c)))"

lemma signing_laws_verify:
  assumes "signing_laws public_key b64_decode verify sign b64 cert" and "sign m = Some s"
  shows "verify_rsa_sha256 public_key b64_decode verify cert m (wrap_from 76 0 (b64 s)) = Inr True"
proof -
  obtain key where "public_key (trim cert) = Some key" "verify key m s = Some True"
    and b: "b64_decode (b64 s) = Some s" "\<forall>c \<in> set (b64 s). is_token_char c"
    using assms unfolding signing_laws_def by blast
  then show ?thesis
    by (simp add: verify_rsa_sha256_def drop_whitespace_wrapped)
qed

lemma signing_laws_no_blank:
  assumes "signing_laws public_key b64_decode verify sign b64 cert" and "sign m = Some s"
  shows "no_blank (wrap_from 76 0 (b64 s))"
  using assms token_not_newline unfolding signing_laws_def by (blast intro: no_blank_wrapped)

text \<open>The parts of the text a receiver sees.\<close>

lemma split_packet_text:
  assumes "no_blank json" and "no_blank cert" and "no_blank sg"
  shows "split_str blank_line (json @ blank_line @ cert @ blank_line @ sg @ blank_line) = [json, cert, sg, []]"
  using split_str_blank [OF assms(1)] split_str_blank [OF assms(2)] split_str_blank [OF assms(3), of "[]"]
  by (simp add: split_str.simps [of _ "[]"] blank_line_eq)

lemma packet_of_parts:
  assumes "no_blank json" and "no_blank cert" and "no_blank sg" and "parse_body json = Ret b"
  shows "packet_of_text parse_body fingerprint
      (json @ blank_line @ cert @ blank_line @ sg @ blank_line)
    = Ret \<lparr>pk_json_blob = json,
        pk_body = (case fingerprint cert of
            None \<Rightarrow> b
          | Some fp \<Rightarrow> b\<lparr>ab_info := (ab_info b)\<lparr>si_fingerprint := Some fp\<rparr>\<rparr>),
        pk_certificate = cert, pk_signature = sg\<rparr>"
  using assms(4) by (simp add: packet_of_text_def split_packet_text [OF assms(1-3)] nth_part_def)

lemma packet_of_bad_body:
  assumes "no_blank json" and "no_blank cert" and "no_blank sg" and "parse_body json = Err e"
  shows "packet_of_text parse_body fingerprint
      (json @ blank_line @ cert @ blank_line @ sg @ blank_line) = Err (ServiceInfoError e)"
  using assms(4) by (simp add: packet_of_text_def split_packet_text [OF assms(1-3)] nth_part_def)

lemma build_announcement_text:
  assumes "from_utf8 cert_pem = Some cert"
    and "print (JArr (announcement_json identity sector envelopes uri actions weight interval active ts))
      = Some json"
    and "sign json = Some s"
  shows "build_announcement_packet print sign b64 identity sector envelopes uri actions cert_pem weight
      interval active ts
    = Ret (json @ blank_line @ cert @ newline @ wrap_from 76 0 (b64 s) @ blank_line)"
  using assms
  by (simp add: build_announcement_packet_def base64_encode_wrapped_def blank_line_def newline_def)

lemma built_packet_parses:
  assumes cert: "from_utf8 cert_pem = Some (cert @ newline)" "no_blank cert"
    and json: "print (JArr (announcement_json identity sector envelopes uri ais weight interval True ts))
        = Some json" "CHR 0x0A \<notin> set json"
      "dec json = Some (JArr (announcement_json identity sector envelopes uri ais weight interval True ts'))"
    and laws: "signing_laws public_key b64_decode verify sign b64 cert" and signed: "sign json = Some s"
    and actions: "digits_ok digits_re" "\<forall>ai \<in> set ais. 0 \<le> sint (ai_version ai)" "dotted ais \<noteq> []"
  shows "\<exists>text p.
    build_announcement_packet print sign b64 identity sector envelopes uri ais cert_pem weight interval
      True ts = Ret text
    \<and> packet_of_text (parse_announcement_body digits_re dec) (cert_pem_fingerprint b64_decode sha1) text
      = Ret p
    \<and> pk_json_blob p = json
    \<and> pk_body p = \<lparr>ab_info = \<lparr>si_identity = identity, si_uri = uri,
           si_fingerprint = cert_pem_fingerprint b64_decode sha1 cert\<rparr>,
         ab_params = \<lparr>ap_weight = weight, ap_interval = interval * 1000, ap_timestamp = ts'\<rparr>,
         ab_actions = announced_actions sector envelopes ais\<rparr>
    \<and> signature_is_valid (verify_rsa_sha256 public_key b64_decode verify) p"
proof -
  let ?sig = "wrap_from 76 0 (b64 s)"
  let ?text = "json @ blank_line @ cert @ blank_line @ ?sig @ blank_line"
  have "build_announcement_packet print sign b64 identity sector envelopes uri ais cert_pem weight
      interval True ts = Ret ?text"
    using build_announcement_text [where print = print and sign = sign, OF cert(1) json(1) signed] by (simp add: blank_line_def)
  moreover have "parse_announcement_body digits_re dec json
      = Ret \<lparr>ab_info = \<lparr>si_identity = identity, si_uri = uri, si_fingerprint = None\<rparr>,
           ab_params = \<lparr>ap_weight = weight, ap_interval = interval * 1000, ap_timestamp = ts'\<rparr>,
           ab_actions = announced_actions sector envelopes ais\<rparr>"
    using body_of_announced [OF actions] json(3) by (simp add: parse_announcement_body_def)
  note packet_of_parts [where parse_body = "parse_announcement_body digits_re dec",
      OF no_blank_plain [OF json(2)] cert(2) signing_laws_no_blank [OF laws signed] this,
      of "cert_pem_fingerprint b64_decode sha1"]
  ultimately show ?thesis
    using signing_laws_verify [OF laws signed]
    by (auto simp: signature_is_valid_def split: option.split)
qed


lemma no_blank_append:
  assumes "no_blank u" and "no_blank v" and "v \<noteq> []" and "hd v \<noteq> CHR 0x0A"
  shows "no_blank (u @ newline @ v)"
  using assms(1)
proof (induction u)
  case Nil
  then show ?case
    using assms(2-4) by (cases v) (auto simp: no_blank_def blank_line_eq newline_def)
next
  case (Cons c cs)
  then have np: "\<not> prefix blank_line (c # cs @ newline)" and nb: "no_blank cs"
    by (auto simp: no_blank_def split: if_splits)
  have "\<not> prefix blank_line (c # cs @ newline @ v @ newline)"
    using np assms(3,4) by (cases cs) (auto simp: blank_line_eq newline_def)
  with Cons.IH [OF nb] show ?case by (simp add: no_blank_def)
qed

text \<open>
  A certificate file without a line feed at its end makes the packet useless: the builder joins
  its parts with fixed separators, the blank line between certificate and signature is missing,
  and the receiver takes certificate and signature for the certificate and an empty text for the
  signature.
\<close>

theorem unterminated_certificate_loses_signature:
  assumes cert: "from_utf8 cert_pem = Some cert" "no_blank cert"
    and json: "print (JArr (announcement_json identity sector envelopes uri ais weight interval active ts))
        = Some json" "CHR 0x0A \<notin> set json" "parse_body json = Ret b"
    and laws: "signing_laws public_key b64_decode verify sign b64 cert" and signed: "sign json = Some s"
  shows "\<exists>text p.
    build_announcement_packet print sign b64 identity sector envelopes uri ais cert_pem weight interval
      active ts = Ret text
    \<and> packet_of_text parse_body fingerprint text = Ret p
    \<and> pk_certificate p = cert @ newline @ wrap_from 76 0 (b64 s) \<and> pk_signature p = []"
proof -
  let ?sig = "wrap_from 76 0 (b64 s)"
  have "b64 s \<noteq> []" "\<forall>c \<in> set (b64 s). is_token_char c"
    using laws signed unfolding signing_laws_def by blast+
  then have "?sig \<noteq> []" "hd ?sig \<noteq> CHR 0x0A"
    by (cases "b64 s"; auto dest: token_not_newline)+
  then have nb: "no_blank (cert @ newline @ ?sig)"
    using cert(2) signing_laws_no_blank [OF laws signed] by (intro no_blank_append)
  have "split_str blank_line ((cert @ newline @ ?sig) @ blank_line) = [cert @ newline @ ?sig, []]"
    using split_str_blank [OF nb, of "[]"] by (simp add: split_str.simps [of _ "[]"] blank_line_eq)
  then show ?thesis
    using build_announcement_text [where print = print and sign = sign, OF cert(1) json(1) signed]
      split_str_blank [OF no_blank_plain [OF json(2)]] json(3)
    by (simp add: packet_of_text_def nth_part_def)
qed

text \<open>
  What an accepted packet says was signed: when a text parses and its signature is valid, the body
  comes from the bytes before the first blank line, these very bytes verify under the key of the
  certificate in the packet, and the fingerprint recorded for the service is the fingerprint of
  that certificate.
\<close>

theorem accepted_announcement_is_signed:
  assumes "packet_of_text parse_body (cert_pem_fingerprint b64_decode sha1) text = Ret p"
    and "signature_is_valid (verify_rsa_sha256 public_key b64_decode verify) p"
  shows "\<exists>json cert sg key s rest b.
    split_str blank_line text = json # cert # sg # rest \<and> (rest = [] \<or> hd rest = [])
    \<and> public_key (trim cert) = Some key \<and> b64_decode (drop_whitespace (trim sg)) = Some s
    \<and> verify key json s = Some True
    \<and> parse_body json = Ret b \<and> ab_actions (pk_body p) = ab_actions b \<and> ab_params (pk_body p) = ab_params b
    \<and> si_identity (ab_info (pk_body p)) = si_identity (ab_info b)
    \<and> si_uri (ab_info (pk_body p)) = si_uri (ab_info b)
    \<and> (\<forall>fp. cert_pem_fingerprint b64_decode sha1 cert = Some fp
         \<longrightarrow> si_fingerprint (ab_info (pk_body p)) = Some fp)"
proof -
  let ?parts = "split_str blank_line text"
  have "3 \<le> length ?parts"
    using assms(1) by (cases "nth_part 2 ?parts")
      (auto simp: packet_of_text_def Let_def bind_outcome_eq_Ret nth_part_def split: if_splits)
  then obtain json cert sg rest where parts: "?parts = json # cert # sg # rest"
    by (auto simp: numeral_3_eq_3 Suc_le_length_iff)
  have rest: "rest = [] \<or> hd rest = []"
    and p: "bind_outcome (map_err ServiceInfoError (parse_body json)) (\<lambda>body.
          Ret \<lparr>pk_json_blob = json,
               pk_body = (case cert_pem_fingerprint b64_decode sha1 cert of
                  None \<Rightarrow> body
                | Some fp \<Rightarrow> body\<lparr>ab_info := (ab_info body)\<lparr>si_fingerprint := Some fp\<rparr>\<rparr>),
               pk_certificate = cert, pk_signature = sg\<rparr>) = Ret p"
    using assms(1) unfolding packet_of_text_def Let_def parts
    by (cases rest; simp add: nth_part_def split: if_splits)+
  from p obtain b where b: "parse_body json = Ret b"
    and pk: "p = \<lparr>pk_json_blob = json,
               pk_body = (case cert_pem_fingerprint b64_decode sha1 cert of
                  None \<Rightarrow> b
                | Some fp \<Rightarrow> b\<lparr>ab_info := (ab_info b)\<lparr>si_fingerprint := Some fp\<rparr>\<rparr>),
               pk_certificate = cert, pk_signature = sg\<rparr>"
    by (cases "parse_body json") auto
  from assms(2) pk obtain key s where "public_key (trim cert) = Some key"
    "b64_decode (drop_whitespace (trim sg)) = Some s" "verify key json s = Some True"
    by (auto simp: signature_is_valid_def verify_rsa_sha256_def split: sum.splits option.splits)
  with parts rest b pk show ?thesis
    by (intro exI [of _ json] exI [of _ cert] exI [of _ sg] exI [of _ key] exI [of _ s] exI [of _ rest]
        exI [of _ b]) (cases "cert_pem_fingerprint b64_decode sha1 cert"; simp)
qed


subsection \<open>Witnesses\<close>

definition sample_array :: json where
  "sample_array = JArr (announcement_json ''svc:1'' ''main'' [''json''] ''beepish+tls://10.0.0.1:30100''
     sample_actions 1 5 True 7)"

lemma sample_actions_ok: "dotted sample_actions \<noteq> []" "\<forall>ai \<in> set sample_actions. 0 \<le> sint (ai_version ai)"
  by (simp_all add: sample_actions_def rsplit_once_def)

lemma sample_laws:
  "signing_laws (\<lambda>c. Some ()) (\<lambda>t. Some ''signed'') (\<lambda>k m s. Some (s = ''signed'')) (\<lambda>m. Some ''signed'')
     (\<lambda>s. ''c2lnbmVk'') ''CERT''"
  by (simp add: signing_laws_def is_token_char_def)


lemma unterminated_certificate_loses_signature_witness:
  "\<exists>text p.
    build_announcement_packet (\<lambda>v. Some ''[3]'') (\<lambda>m. Some ''signed'') (\<lambda>s. ''c2lnbmVk'') ''svc:1'' ''main''
      [''json''] ''beepish+tls://10.0.0.1:30100'' sample_actions ''CERT'' 1 5 True 7 = Ret text
    \<and> packet_of_text (\<lambda>j. body_of_array ascii_digits (announcement_json ''svc:1'' ''main'' [''json'']
        ''beepish+tls://10.0.0.1:30100'' sample_actions 1 5 True 7)) (\<lambda>c. None) text = Ret p
    \<and> pk_certificate p = ''CERT'' @ newline @ wrap_from 76 0 ''c2lnbmVk'' \<and> pk_signature p = []"
proof -
  have "CHR 0x0A \<notin> set ''[3]''" "no_blank ''CERT''" "from_utf8 ''CERT'' = Some ''CERT''"
    by (simp_all add: no_blank_def blank_line_eq newline_def)
  then show ?thesis
    by (intro unterminated_certificate_loses_signature [where json = "''[3]''", OF _ _ _ _ _ sample_laws])
      (simp_all add: body_of_announced sample_actions_ok)
qed

definition sample_body :: announcement_body where
  "sample_body =
     \<lparr>ab_info = \<lparr>si_identity = ''svc:1'', si_uri = ''beepish+tls://10.0.0.1:30100'', si_fingerprint = None\<rparr>,
      ab_params = \<lparr>ap_weight = 1, ap_interval = 5000, ap_timestamp = 7\<rparr>, ab_actions = []\<rparr>"

definition sample_accepted :: announcement_packet where
  "sample_accepted =
     \<lparr>pk_json_blob = ''[3]'',
      pk_body = sample_body\<lparr>ab_info := (ab_info sample_body)\<lparr>si_fingerprint := Some ''64''\<rparr>\<rparr>,
      pk_certificate = ''CERT'', pk_signature = ''c2ln''\<rparr>"

lemma accepted_announcement_is_signed_witness:
  "\<exists>json cert sg key s rest b.
    split_str blank_line (''[3]'' @ blank_line @ ''CERT'' @ blank_line @ ''c2ln'' @ blank_line)
      = json # cert # sg # rest \<and> (rest = [] \<or> hd rest = [])
    \<and> (if trim cert = ''CERT'' then Some () else None) = Some key
    \<and> Some (drop_whitespace (trim sg)) = Some s \<and> Some (json = ''[3]'' \<and> s = ''c2ln'') = Some True
    \<and> Ret sample_body = (Ret b :: (info_error, announcement_body) outcome)
    \<and> ab_actions (pk_body sample_accepted) = ab_actions b
    \<and> ab_params (pk_body sample_accepted) = ab_params b
    \<and> si_identity (ab_info (pk_body sample_accepted)) = si_identity (ab_info b)
    \<and> si_uri (ab_info (pk_body sample_accepted)) = si_uri (ab_info b)
    \<and> (\<forall>fp. cert_pem_fingerprint Some (\<lambda>d. ''d'') cert = Some fp
         \<longrightarrow> si_fingerprint (ab_info (pk_body sample_accepted)) = Some fp)"
proof -
  have nb: "no_blank ''[3]''" "no_blank ''CERT''" "no_blank ''c2ln''"
    by (simp_all add: no_blank_def blank_line_eq newline_def)
  have fp: "cert_pem_fingerprint Some (\<lambda>d. ''d'') ''CERT'' = Some ''64''"
    by (simp add: cert_pem_fingerprint_def pem_to_der_def cert_sha1_fingerprint_def hex_byte_def hex_digit_def
        lines_def strip_cr_def char_of_eq_iff)
  have tok: "\<forall>c \<in> set ''CERT''. text_char c" "\<forall>c \<in> set ''c2ln''. text_char c"
    by (simp_all add: text_char_def is_token_char_def)
  have trim: "trim ''CERT'' = ''CERT''" "drop_whitespace (trim ''c2ln'') = ''c2ln''"
    using drop_whitespace_trim_text [OF tok(2)]
    by (simp_all add: trim_def trim_start.simps ws_len_def Let_def)
  have "packet_of_text (\<lambda>j. Ret sample_body) (cert_pem_fingerprint Some (\<lambda>d. ''d''))
      (''[3]'' @ blank_line @ ''CERT'' @ blank_line @ ''c2ln'' @ blank_line) = Ret sample_accepted"
    using packet_of_parts [OF nb, of "\<lambda>j. Ret sample_body" sample_body] fp
    by (simp add: sample_accepted_def)
  moreover have "signature_is_valid (verify_rsa_sha256 (\<lambda>c. if c = ''CERT'' then Some () else None) Some
      (\<lambda>k m s. Some (m = ''[3]'' \<and> s = ''c2ln''))) sample_accepted"
    using trim by (simp add: signature_is_valid_def verify_rsa_sha256_def sample_accepted_def)
  ultimately show ?thesis
    by (rule accepted_announcement_is_signed)
qed

end
