(* ===== verification/Cache_File.thy ===== *)
theory Cache_File
  imports Announcement_Packet
begin

text \<open>
  The discovery cache file, \<open>scamp/src/discovery/cache_file.rs\<close>: an iterator that cuts the buffered
  bytes of a reader into records at a delimiter line.  The reader is the list of results its reads
  give, each the content of one buffer of the \<open>BufReader\<close>; the parser of a record is an argument.

  The lemmas give the exact records for every way the bytes fall into buffers: the iterator
  searches each buffer alone, so a delimiter that crosses two buffers joins its two records.
\<close>

definition RECORD_DELIMITER :: bytes where
  "RECORD_DELIMITER = [CHR 0x0A] @ ''%%%'' @ [CHR 0x0A]"

datatype read_result = Chunk bytes | ReadFailed

datatype cache_error = CacheIo | CacheUtf8 | CachePacket packet_error

record cache_iter =
  ci_buffer :: bytes
  ci_reads :: "read_result list"

definition cache_new :: "read_result list \<Rightarrow> cache_iter" where
  "cache_new reads = \<lparr>ci_buffer = [], ci_reads = reads\<rparr>"

definition record_item ::
  "(string \<Rightarrow> (packet_error, announcement_packet) outcome) \<Rightarrow> bytes
   \<Rightarrow> (cache_error, announcement_packet) outcome" where
  "record_item parse_packet d =
     (case from_utf8 d of
        None \<Rightarrow> Err CacheUtf8
      | Some s \<Rightarrow> map_err CachePacket (parse_packet s))"

text \<open>
  \<open>next\<close>: the loop over \<open>fill_buf\<close>, with the announcement data so far.  An empty buffer is filled by
  the next read; no read left, or an empty one, is the end of the file.
\<close>

function cache_loop ::
  "(string \<Rightarrow> (packet_error, announcement_packet) outcome) \<Rightarrow> bytes \<Rightarrow> bytes \<Rightarrow> read_result list
   \<Rightarrow> (cache_error, announcement_packet) outcome option \<times> cache_iter" where
  "cache_loop pp d [] [] =
     ((if d = [] then None else Some (record_item pp d)), \<lparr>ci_buffer = [], ci_reads = []\<rparr>)"
| "cache_loop pp d [] (ReadFailed # rs) = (Some (Err CacheIo), \<lparr>ci_buffer = [], ci_reads = rs\<rparr>)"
| "cache_loop pp d [] (Chunk [] # rs) =
     ((if d = [] then None else Some (record_item pp d)), \<lparr>ci_buffer = [], ci_reads = rs\<rparr>)"
| "cache_loop pp d [] (Chunk (c # cs) # rs) = cache_loop pp d (c # cs) rs"
| "cache_loop pp d (c # cs) rs =
     (case find_sub RECORD_DELIMITER (c # cs) of
        Some i \<Rightarrow>
          (let d' = d @ take i (c # cs); rest = drop (i + length RECORD_DELIMITER) (c # cs) in
           if d' \<noteq> [] then (Some (record_item pp d'), \<lparr>ci_buffer = rest, ci_reads = rs\<rparr>)
           else cache_loop pp d' rest rs)
      | None \<Rightarrow> cache_loop pp (d @ c # cs) [] rs)"
  by pat_completeness auto
termination
  by (relation "measures [\<lambda>(pp, d, buf, rs). length rs, \<lambda>(pp, d, buf, rs). length buf]")
    (auto simp: RECORD_DELIMITER_def)

definition cache_next ::
  "(string \<Rightarrow> (packet_error, announcement_packet) outcome) \<Rightarrow> cache_iter
   \<Rightarrow> (cache_error, announcement_packet) outcome option \<times> cache_iter" where
  "cache_next pp it = cache_loop pp [] (ci_buffer it) (ci_reads it)"

text \<open>What is left of the input gets smaller with every item.\<close>

lemma cache_loop_smaller:
  "cache_loop pp d buf rs = (Some x, it) \<Longrightarrow>
     length (ci_reads it) < length rs
     \<or> length (ci_reads it) = length rs \<and> length (ci_buffer it) \<le> length buf
       \<and> (d = [] \<longrightarrow> length (ci_buffer it) < length buf)"
proof (induction pp d buf rs rule: cache_loop.induct)
  case (5 pp d c cs rs)
  show ?case
  proof (cases "find_sub RECORD_DELIMITER (c # cs)")
    case None
    with "5.IH"(1) [OF None] "5.prems" show ?thesis by auto
  next
    case (Some i)
    let ?d = "d @ take i (c # cs)" and ?rest = "drop (i + length RECORD_DELIMITER) (c # cs)"
    have smaller: "length ?rest < length (c # cs)" by (simp add: RECORD_DELIMITER_def)
    show ?thesis
    proof (cases "?d = []")
      case True
      with "5.IH"(2) [OF Some refl refl] "5.prems" Some
      have "length (ci_reads it) < length rs
        \<or> length (ci_reads it) = length rs \<and> length (ci_buffer it) \<le> length ?rest"
        by (simp add: Let_def) blast
      with smaller show ?thesis by linarith
    next
      case False
      with "5.prems" Some have "it = \<lparr>ci_buffer = ?rest, ci_reads = rs\<rparr>" by (simp add: Let_def)
      with smaller show ?thesis by simp
    qed
  qed
qed (auto split: if_splits)

text \<open>All items of the iterator.\<close>

function cache_records ::
  "(string \<Rightarrow> (packet_error, announcement_packet) outcome) \<Rightarrow> cache_iter
   \<Rightarrow> (cache_error, announcement_packet) outcome list" where
  "cache_records pp it =
     (case cache_next pp it of
        (None, it') \<Rightarrow> []
      | (Some x, it') \<Rightarrow> x # cache_records pp it')"
  by pat_completeness auto
termination
proof (relation "measures [\<lambda>(pp, it). length (ci_reads it), \<lambda>(pp, it). length (ci_buffer it)]")
  fix pp it v it' x
  assume "(v, it') = cache_next pp it" and "v = Some x"
  then have "cache_loop pp [] (ci_buffer it) (ci_reads it) = (Some x, it')" by (simp add: cache_next_def)
  from cache_loop_smaller [OF this]
  show "((pp, it'), pp, it) \<in> measures [\<lambda>(pp, it). length (ci_reads it), \<lambda>(pp, it). length (ci_buffer it)]"
    by auto
qed simp

declare cache_records.simps [simp del]

text \<open>
  The records as the code cuts them: every buffer is split at the delimiter on its own, the last
  piece of one buffer goes on with the first of the next, empty records are skipped.
\<close>

fun pieces :: "bytes \<Rightarrow> bytes list \<Rightarrow> bytes list" where
  "pieces cur [] = [cur]"
| "pieces cur (b # bs) =
     (case split_str RECORD_DELIMITER b of
        [] \<Rightarrow> pieces cur bs
      | p # ps \<Rightarrow> butlast ((cur @ p) # ps) @ pieces (last ((cur @ p) # ps)) bs)"

definition nonempty :: "bytes list \<Rightarrow> bytes list" where
  "nonempty ps = filter (\<lambda>p. p \<noteq> []) ps"

lemma split_str_not_Nil [simp]: "split_str p s \<noteq> []"
  by (subst split_str.simps) (simp split: option.split)

lemma delimiter_ne [simp]: "RECORD_DELIMITER \<noteq> []"
  by (simp add: RECORD_DELIMITER_def)

lemma split_str_None: "find_sub p s = None \<Longrightarrow> split_str p s = [s]"
  by (subst split_str.simps) simp

lemma split_str_Some:
  "p \<noteq> [] \<Longrightarrow> find_sub p s = Some i \<Longrightarrow> split_str p s = take i s # split_str p (drop (i + length p) s)"
  by (subst split_str.simps) simp

lemma pieces_empty_buffer [simp]: "pieces cur ([] # bs) = pieces cur bs"
  by (simp add: split_str.simps [of _ "[]"] RECORD_DELIMITER_def)

declare pieces.simps(2) [simp del]

lemma pieces_no_match:
  "find_sub RECORD_DELIMITER b = None \<Longrightarrow> pieces cur (b # bs) = pieces (cur @ b) bs"
  by (simp add: split_str_None pieces.simps(2))

lemma pieces_match:
  assumes "find_sub RECORD_DELIMITER b = Some i"
  shows "pieces cur (b # bs)
    = (cur @ take i b) # pieces [] (drop (i + length RECORD_DELIMITER) b # bs)"
proof -
  let ?rest = "drop (i + length RECORD_DELIMITER) b"
  obtain p ps where "split_str RECORD_DELIMITER ?rest = p # ps"
    by (cases "split_str RECORD_DELIMITER ?rest") simp_all
  with split_str_Some [OF delimiter_ne assms] show ?thesis by (simp add: pieces.simps(2))
qed

lemma cache_loop_pieces:
  "rs = map Chunk bs \<Longrightarrow> [] \<notin> set bs \<Longrightarrow>
     (case cache_loop pp d buf rs of
        (None, it) \<Rightarrow> []
      | (Some x, it) \<Rightarrow> x # cache_records pp it)
     = map (record_item pp) (nonempty (pieces d (buf # bs)))"
proof (induction "length bs" arbitrary: pp d buf rs bs rule: less_induct)
  case reads: less
  then show ?case
  proof (induction "length buf" arbitrary: d buf rule: less_induct)
    case less
    show ?case
    proof (cases buf)
      case Nil
      show ?thesis
      proof (cases bs)
        case Nil
        with \<open>buf = []\<close> less.prems show ?thesis
          by (auto simp: nonempty_def cache_records.simps [of pp] cache_next_def)
      next
        case (Cons b bs')
        then obtain c cs where b: "b = c # cs" using less.prems by (cases b) auto
        from less.prems(1) [of bs' "map Chunk bs'" pp d b] Cons \<open>buf = []\<close> less.prems b
        show ?thesis by simp
      qed
    next
      case buf: (Cons c cs)
      show ?thesis
      proof (cases "find_sub RECORD_DELIMITER buf")
        case None
        have "cache_loop pp d buf rs = cache_loop pp (d @ buf) [] rs"
          using None buf by simp
        then show ?thesis
          using less.hyps [of "[]" "d @ buf"] less.prems buf pieces_no_match [OF None, of d bs] by simp
      next
        case (Some i)
        let ?d = "d @ take i buf" and ?rest = "drop (i + length RECORD_DELIMITER) buf"
        have smaller: "length ?rest < length buf" using buf by (simp add: RECORD_DELIMITER_def)
        note IH = less.hyps [OF smaller, of "[]"]
        show ?thesis
        proof (cases "?d = []")
          case True
          with Some buf have "cache_loop pp d buf rs = cache_loop pp [] ?rest rs" by (simp add: Let_def)
          with IH True less.prems pieces_match [OF Some, of d bs] show ?thesis
            by (simp add: nonempty_def)
        next
          case False
          with Some buf have "cache_loop pp d buf rs
              = (Some (record_item pp ?d), \<lparr>ci_buffer = ?rest, ci_reads = rs\<rparr>)" by (simp add: Let_def)
          moreover have "cache_records pp \<lparr>ci_buffer = ?rest, ci_reads = rs\<rparr>
              = (case cache_loop pp [] ?rest rs of
                   (None, it) \<Rightarrow> []
                 | (Some x, it) \<Rightarrow> x # cache_records pp it)"
            by (subst cache_records.simps) (simp add: cache_next_def)
          ultimately show ?thesis
            using IH False less.prems pieces_match [OF Some, of d bs] by (simp add: nonempty_def)
        qed
      qed
    qed
  qed
qed

lemma cache_records_pieces:
  assumes "[] \<notin> set bs"
  shows "cache_records pp (cache_new (map Chunk bs)) = map (record_item pp) (nonempty (pieces [] bs))"
  using cache_loop_pieces [OF refl assms, of pp "[]" "[]"]
  by (subst cache_records.simps) (simp add: cache_next_def cache_new_def)

text \<open>
  The records of a cache file, for any way its bytes fall into buffers: every buffer is split at
  the delimiter line on its own, the last piece of a buffer is continued by the first piece of the
  next, pieces without bytes are skipped and each other piece is decoded and parsed, in order.
  For a file that fits one buffer these are the pieces of its whole text.
\<close>

theorem cache_records_exact:
  assumes "[] \<notin> set bs"
  shows "cache_records pp (cache_new (map Chunk bs)) = map (record_item pp) (nonempty (pieces [] bs))
    \<and> pieces [] [s] = split_str RECORD_DELIMITER s"
proof
  show "pieces [] [s] = split_str RECORD_DELIMITER s"
    by (cases "split_str RECORD_DELIMITER s") (simp_all add: pieces.simps(2))
qed (rule cache_records_pieces [OF assms])

lemma find_sub_at:
  "p \<noteq> [] \<Longrightarrow> find_sub p (s @ butlast p) = None \<Longrightarrow> find_sub p (s @ p @ t) = Some (length s)"
proof (induction s)
  case Nil
  then show ?case by (cases p) auto
next
  case (Cons c cs)
  have "length p \<le> length (c # cs @ butlast p)" by simp
  moreover have "prefix (c # cs @ butlast p) (c # cs @ p @ t)"
    using Cons.prems(1) append_butlast_last_id [of p] by (auto simp: prefix_def intro!: exI [of _ "last p # t"])
  ultimately have "\<not> prefix p (c # cs @ p @ t)"
    using Cons.prems prefix_length_prefix [of p "c # cs @ p @ t" "c # cs @ butlast p"]
    by (auto split: if_splits)
  with Cons show ?case by (auto split: if_splits)
qed

lemma find_sub_take_None: "find_sub p (s @ t) = None \<Longrightarrow> find_sub p s = None"
  using find_sub_append by (cases "find_sub p s") fastforce+

text \<open>The text of an announcement as the cache holds it.\<close>

definition announcement_text :: "string \<Rightarrow> string \<Rightarrow> string \<Rightarrow> string" where
  "announcement_text json cert sg = json @ blank_line @ cert @ blank_line @ sg @ blank_line"

lemma merged_too_many_parts:
  assumes "no_blank json" and "no_blank cert" and "no_blank sg"
  shows "packet_of_text parse_body fingerprint (announcement_text json cert sg @ RECORD_DELIMITER @ t)
    = Err TooManyParts"
proof -
  have "split_str blank_line (announcement_text json cert sg @ RECORD_DELIMITER @ t)
      = json # cert # sg # split_str blank_line (RECORD_DELIMITER @ t)"
    using split_str_blank [OF assms(1)] split_str_blank [OF assms(2)] split_str_blank [OF assms(3)]
    by (simp add: announcement_text_def)
  moreover obtain p ps where ps: "split_str blank_line (RECORD_DELIMITER @ t) = p # ps" "p \<noteq> []"
  proof (cases "find_sub blank_line (RECORD_DELIMITER @ t)")
    case None
    then show ?thesis using that [of "RECORD_DELIMITER @ t" "[]"] by (simp add: split_str_None)
  next
    case (Some i)
    moreover have "i \<noteq> 0" using Some find_sub_Some_prefix [OF Some]
      by (auto simp: RECORD_DELIMITER_def blank_line_eq)
    ultimately show ?thesis
      using that [of "take i (RECORD_DELIMITER @ t)"] split_str_Some [of blank_line "RECORD_DELIMITER @ t" i]
      by (simp add: blank_line_eq RECORD_DELIMITER_def)
  qed
  ultimately show ?thesis
    by (simp add: packet_of_text_def nth_part_def)
qed

lemma split_delimiter:
  assumes "find_sub RECORD_DELIMITER (a @ butlast RECORD_DELIMITER) = None"
    and "find_sub RECORD_DELIMITER b = None"
  shows "split_str RECORD_DELIMITER (a @ RECORD_DELIMITER @ b) = [a, b]"
  using split_str_Some [OF delimiter_ne find_sub_at [OF delimiter_ne assms(1), of b]] assms(2)
  by (simp add: split_str_None)

lemma no_delimiter_prefix:
  assumes "find_sub RECORD_DELIMITER (a @ butlast RECORD_DELIMITER) = None" and "k < 5"
  shows "find_sub RECORD_DELIMITER (a @ take k RECORD_DELIMITER) = None"
proof -
  have "butlast RECORD_DELIMITER = take k RECORD_DELIMITER @ take (4 - k) (drop k RECORD_DELIMITER)"
    using assms(2) by (simp add: RECORD_DELIMITER_def butlast_conv_take take_add [symmetric])
  with assms(1) find_sub_take_None [of RECORD_DELIMITER "a @ take k RECORD_DELIMITER"]
  show ?thesis by simp
qed

lemma no_delimiter_suffix:
  assumes "find_sub RECORD_DELIMITER (newline @ b) = None" and "0 < k" and "k < 5"
  shows "find_sub RECORD_DELIMITER (drop k RECORD_DELIMITER @ b) = None"
proof -
  from assms(2,3) consider "k = 1" | "k = 2" | "k = 3" | "k = 4" by fastforce
  then show ?thesis
    using assms(1) by cases (auto simp: RECORD_DELIMITER_def newline_def split: if_splits)
qed

text \<open>
  C32: A delimiter line that crosses the boundary of two buffers loses both announcements: they are
  taken for one record, which has too many parts.  In one buffer the same bytes give the two
  records.
\<close>

theorem boundary_loses_announcements:
  assumes a: "a = announcement_text json cert sg" "no_blank json" "no_blank cert" "no_blank sg"
    and ascii: "is_ascii (a @ RECORD_DELIMITER @ b)" and b: "b \<noteq> []"
    and no_delimiter: "find_sub RECORD_DELIMITER (a @ butlast RECORD_DELIMITER) = None"
      "find_sub RECORD_DELIMITER (newline @ b) = None"
    and k: "0 < k" "k < 5"
  shows "cache_records (packet_of_text parse_body fingerprint)
        (cache_new [Chunk (a @ take k RECORD_DELIMITER), Chunk (drop k RECORD_DELIMITER @ b)])
      = [Err (CachePacket TooManyParts)]
    \<and> cache_records (packet_of_text parse_body fingerprint) (cache_new [Chunk (a @ RECORD_DELIMITER @ b)])
      = [record_item (packet_of_text parse_body fingerprint) a,
         record_item (packet_of_text parse_body fingerprint) b]"
proof
  let ?pp = "packet_of_text parse_body fingerprint"
  let ?bs = "[a @ take k RECORD_DELIMITER, drop k RECORD_DELIMITER @ b]"
  have a_ne: "a \<noteq> []" using a(1) by (simp add: announcement_text_def blank_line_eq)
  have "pieces [] ?bs = [a @ RECORD_DELIMITER @ b]"
    using pieces_no_match [OF no_delimiter_prefix [OF no_delimiter(1) k(2)]]
      pieces_no_match [OF no_delimiter_suffix [OF no_delimiter(2) k]] by simp
  then show "cache_records ?pp
      (cache_new [Chunk (a @ take k RECORD_DELIMITER), Chunk (drop k RECORD_DELIMITER @ b)])
    = [Err (CachePacket TooManyParts)]"
    using cache_records_pieces [of ?bs ?pp] a_ne b merged_too_many_parts [OF a(2-4)] ascii
    by (simp add: nonempty_def record_item_def a(1))
  have "find_sub RECORD_DELIMITER b = None"
    using no_delimiter(2) by (simp add: newline_def split: if_splits)
  from split_delimiter [OF no_delimiter(1) this]
  have "pieces [] [a @ RECORD_DELIMITER @ b] = [a, b]"
    by (simp add: pieces.simps(2))
  then show "cache_records ?pp (cache_new [Chunk (a @ RECORD_DELIMITER @ b)])
    = [record_item ?pp a, record_item ?pp b]"
    using cache_records_pieces [of "[a @ RECORD_DELIMITER @ b]" ?pp] a_ne b by (simp add: nonempty_def)
qed

lemma cache_records_exact_witness:
  "cache_records (packet_of_text (\<lambda>j. Ret sample_body) (\<lambda>c. None)) (cache_new (map Chunk [''ab'', ''c'']))
      = map (record_item (packet_of_text (\<lambda>j. Ret sample_body) (\<lambda>c. None))) (nonempty (pieces [] [''ab'', ''c'']))
    \<and> pieces [] [''ab''] = split_str RECORD_DELIMITER ''ab''"
  by (rule cache_records_exact) simp

lemma boundary_loses_announcements_witness:
  "cache_records (packet_of_text (\<lambda>j. Ret sample_body) (\<lambda>c. None))
      (cache_new [Chunk (announcement_text ''[3]'' ''CERT'' ''c2ln'' @ take 2 RECORD_DELIMITER),
        Chunk (drop 2 RECORD_DELIMITER @ announcement_text ''[3]'' ''CERT'' ''c2ln'')])
    = [Err (CachePacket TooManyParts)]
  \<and> cache_records (packet_of_text (\<lambda>j. Ret sample_body) (\<lambda>c. None))
      (cache_new [Chunk (announcement_text ''[3]'' ''CERT'' ''c2ln'' @ RECORD_DELIMITER
        @ announcement_text ''[3]'' ''CERT'' ''c2ln'')])
    = [record_item (packet_of_text (\<lambda>j. Ret sample_body) (\<lambda>c. None)) (announcement_text ''[3]'' ''CERT'' ''c2ln''),
       record_item (packet_of_text (\<lambda>j. Ret sample_body) (\<lambda>c. None)) (announcement_text ''[3]'' ''CERT'' ''c2ln'')]"
  by (rule boundary_loses_announcements [OF refl])
    (simp_all add: announcement_text_def no_blank_def blank_line_eq newline_def RECORD_DELIMITER_def is_ascii_def)

end
