(* ===== verification/Config.thy ===== *)
theory Config
  imports Json_Value
begin

text \<open>
  The configuration, \<open>scamp/src/config.rs\<close>: where the file is looked for, the tree its lines build,
  lookups and the writer.  The file system, the environment and the home directory are arguments.

  The tree of children and lists is refined to a table: a lookup gives the value of the first line
  with its key, and a key with a numeric segment is never found.
\<close>

subsection \<open>Tables in key order\<close>

text \<open>\<open>BTreeMap::entry(k).or_insert(d)\<close> followed by an update of the value.\<close>

fun insert_sorted :: "'k::linorder \<Rightarrow> 'v \<Rightarrow> ('k \<times> 'v) list \<Rightarrow> ('k \<times> 'v) list" where
  "insert_sorted k v [] = [(k, v)]"
| "insert_sorted k v ((k', v') # m) =
     (if k < k' then (k, v) # (k', v') # m else (k', v') # insert_sorted k v m)"

definition btree_entry :: "'k::linorder \<Rightarrow> 'v \<Rightarrow> ('v \<Rightarrow> 'v) \<Rightarrow> ('k \<times> 'v) list \<Rightarrow> ('k \<times> 'v) list" where
  "btree_entry k d f m =
     (case map_of m k of
        None \<Rightarrow> insert_sorted k (f d) m
      | Some v \<Rightarrow> map (\<lambda>(k', v'). if k' = k then (k', f v') else (k', v')) m)"

lemma map_of_insert_sorted:
  "map_of m k = None \<Longrightarrow> map_of (insert_sorted k v m) k' = (if k' = k then Some v else map_of m k')"
  by (induction m) (auto split: if_splits)

lemma map_of_update_values:
  "map_of (map (\<lambda>(k', v'). if k' = k then (k', f v') else (k', v')) m) j
     = (if j = k then map_option f (map_of m k) else map_of m j)"
  by (induction m) auto

lemma btree_entry_lookup [lookup_simps]:
  "map_of (btree_entry k d f m) j
     = (if j = k then Some (f (case map_of m k of None \<Rightarrow> d | Some v \<Rightarrow> v)) else map_of m j)"
  by (cases "map_of m k") (simp_all add: btree_entry_def map_of_insert_sorted map_of_update_values)

lemma set_insert_sorted: "set (insert_sorted k v m) = insert (k, v) (set m)"
  by (induction m) (auto split: if_splits)

lemma sorted_insert_sorted:
  "sorted_wrt (<) (map fst m) \<Longrightarrow> k \<notin> fst ` set m \<Longrightarrow> sorted_wrt (<) (map fst (insert_sorted k v m))"
proof (induction m)
  case (Cons p m)
  then show ?case by (cases p) (auto simp: set_insert_sorted image_iff)
qed simp

text \<open>The keys stay in strict order.\<close>

lemma sorted_btree_entry:
  assumes "sorted_wrt (<) (map fst m)"
  shows "sorted_wrt (<) (map fst (btree_entry k d f m))"
proof (cases "map_of m k")
  case None
  then have "k \<notin> fst ` set m" by (simp add: map_of_eq_None_iff)
  with sorted_insert_sorted [OF assms] show ?thesis unfolding btree_entry_def None by simp
next
  case (Some v)
  have "map fst (map (\<lambda>(k', v'). if k' = k then (k', f v') else (k', v')) m) = map fst m"
    by (induction m) auto
  with Some assms show ?thesis by (simp only: btree_entry_def option.case)
qed

subsection \<open>The tree\<close>

datatype conf_element =
  ConfElement (ce_value: "string option") (ce_list: "conf_element list")
    (ce_children: "(string \<times> conf_element) list")

definition conf_default :: conf_element where
  "conf_default = ConfElement None [] []"

definition parse_usize :: "string \<Rightarrow> nat option" where
  "parse_usize s = parse_uint u64_max s"

text \<open>\<open>resize_with(n, default)\<close> when the list is shorter.\<close>

definition grow_list :: "nat \<Rightarrow> conf_element list \<Rightarrow> conf_element list" where
  "grow_list n l = l @ replicate (n - length l) conf_default"

text \<open>The walk along the segments of a key and the assignment at its end, where the first wins.\<close>

fun put_value :: "string list \<Rightarrow> string \<Rightarrow> conf_element \<Rightarrow> conf_element" where
  "put_value [] v c =
     ConfElement (case ce_value c of None \<Rightarrow> Some v | Some w \<Rightarrow> Some w) (ce_list c) (ce_children c)"
| "put_value (segment # rest) v c =
     (case parse_usize segment of
        Some num \<Rightarrow>
          (let l = grow_list (num + 1) (ce_list c) in
           ConfElement (ce_value c) (l[num := put_value rest v (l ! num)]) (ce_children c))
      | None \<Rightarrow>
          ConfElement (ce_value c) (ce_list c)
            (btree_entry segment conf_default (\<lambda>d. put_value rest v d) (ce_children c)))"

text \<open>The expressions of a rewrite are given by their functions: does it match, replace all matches.\<close>

record conf_rewrite =
  cr_key_match :: "(string \<Rightarrow> bool) option"
  cr_value_match :: "(string \<Rightarrow> string \<Rightarrow> string) option"
  cr_value_replacer :: "string option"

definition apply_rewrite :: "string \<Rightarrow> string \<Rightarrow> conf_rewrite \<Rightarrow> string" where
  "apply_rewrite key value r =
     (if (case cr_key_match r of None \<Rightarrow> False | Some matches \<Rightarrow> \<not> matches key) then value
      else case (cr_value_match r, cr_value_replacer r) of
        (Some replace_all, Some replacer) \<Rightarrow> replace_all value replacer
      | _ \<Rightarrow> value)"

definition rewrite_value :: "conf_rewrite list option \<Rightarrow> string \<Rightarrow> string \<Rightarrow> string" where
  "rewrite_value rewrites key value =
     (case rewrites of None \<Rightarrow> value | Some rs \<Rightarrow> foldl (apply_rewrite key) value rs)"

text \<open>One line: nothing, a line to skip, or key and value.\<close>

definition strip_hash :: "string \<Rightarrow> string" where
  "strip_hash line = (case find_sub ''#'' line of None \<Rightarrow> line | Some pos \<Rightarrow> take pos line)"

definition conf_line :: "string \<Rightarrow> (string \<times> string) option" where
  "conf_line raw =
     (let line = trim (strip_hash raw) in
      if line = [] then None
      else case split_once CHR ''='' line of
        None \<Rightarrow> None
      | Some (key, value) \<Rightarrow> Some (trim key, trim value))"

fun parse_lines :: "conf_rewrite list option \<Rightarrow> string list \<Rightarrow> conf_element \<Rightarrow> conf_element" where
  "parse_lines rewrites [] tree = tree"
| "parse_lines rewrites (l # ls) tree =
     parse_lines rewrites ls
       (case conf_line l of
          None \<Rightarrow> tree
        | Some (key, value) \<Rightarrow> put_value (split_char CHR ''.'' key) (rewrite_value rewrites key value) tree)"

definition parse_config :: "conf_rewrite list option \<Rightarrow> string \<Rightarrow> conf_element" where
  "parse_config rewrites config = parse_lines rewrites (lines config) conf_default"

fun element_at :: "string list \<Rightarrow> conf_element \<Rightarrow> conf_element option" where
  "element_at [] c = Some c"
| "element_at (segment # rest) c =
     (case map_of (ce_children c) segment of
        None \<Rightarrow> None
      | Some d \<Rightarrow> element_at rest d)"

definition element_get :: "conf_element \<Rightarrow> string \<Rightarrow> conf_element option" where
  "element_get tree key = element_at (split_char CHR ''.'' key) tree"

text \<open>\<open>Config::get\<close>: \<open>from_str\<close> reads the value.\<close>

definition config_get :: "(string \<Rightarrow> 'a option) \<Rightarrow> conf_element \<Rightarrow> string \<Rightarrow> 'a option option" where
  "config_get from_str tree key =
     (case element_get tree key of
        None \<Rightarrow> None
      | Some c \<Rightarrow> (case ce_value c of None \<Rightarrow> None | Some v \<Rightarrow> Some (from_str v)))"

definition config_from_content :: "string \<Rightarrow> conf_element" where
  "config_from_content content = parse_config None content"

subsection \<open>Writing the tree\<close>

definition value_line :: "string \<Rightarrow> string option \<Rightarrow> string" where
  "value_line pre value =
     (case value of None \<Rightarrow> [] | Some v \<Rightarrow> pre @ '' = '' @ v @ [CHR 0x0A])"

fun write_element :: "string \<Rightarrow> conf_element \<Rightarrow> string"
  and write_children :: "string \<Rightarrow> (string \<times> conf_element) list \<Rightarrow> string"
  and write_list :: "string \<Rightarrow> nat \<Rightarrow> conf_element list \<Rightarrow> string" where
  "write_element pre (ConfElement value list children) =
     value_line pre value @ write_children pre children @ write_list pre 0 list"
| "write_children pre [] = []"
| "write_children pre ((key, child) # rest) =
     write_element (if pre = [] then key else pre @ ''.'' @ key) child
       @ write_children pre rest"
| "write_list pre i [] = []"
| "write_list pre i (child # rest) =
     write_element (pre @ ''.'' @ dec_of_nat i) child @ write_list pre (Suc i) rest"

definition element_to_string :: "conf_element \<Rightarrow> string" where
  "element_to_string tree = write_element [] tree"

subsection \<open>Finding the file\<close>

definition path_join :: "string \<Rightarrow> string \<Rightarrow> string" where
  "path_join a b =
     (if b \<noteq> [] \<and> hd b = CHR ''/'' then b
      else if a = [] \<or> last a = CHR ''/'' then a @ b
      else a @ ''/'' @ b)"

definition DEFAULT_CONFIG_PATHS :: "string list" where
  "DEFAULT_CONFIG_PATHS = [''/etc/scamp/scamp.conf'', ''/etc/GTSOA/scamp.conf'']"

datatype config_error =
    ConfigPathMissing string
  | EnvPathMissing string
  | NoConfigFile "string list"
  | HomeFailed
  | ConfigUnreadable

text \<open>The world the search reads: existing paths, environment variables, the home directory.\<close>

record config_world =
  cw_exists :: "string \<Rightarrow> bool"
  cw_env :: "string \<rightharpoonup> string"
  cw_home :: "string option option"
  cw_read :: "string \<Rightarrow> string option"

text \<open>\<open>rewrite_regex\<close> is the function of the expression \<open>^/backplane\<close>.\<close>

definition get_config_path ::
  "(string \<Rightarrow> string \<Rightarrow> string) \<Rightarrow> config_world \<Rightarrow> string option
   \<Rightarrow> config_error + (string \<times> conf_rewrite list option)" where
  "get_config_path rewrite_regex w override_path =
     (case override_path of
        Some path \<Rightarrow> if cw_exists w path then Inr (path, None) else Inl (ConfigPathMissing path)
      | None \<Rightarrow>
     (case cw_env w ''SCAMP_CONFIG'' of
        Some path \<Rightarrow> if cw_exists w path then Inr (path, None) else Inl (EnvPathMissing path)
      | None \<Rightarrow>
     (case (case cw_env w ''GTSOA'' of
              None \<Rightarrow> None
            | Some g \<Rightarrow>
                let path = path_join g ''etc/soa.conf'' in
                if cw_exists w path then Some path else None) of
        Some path \<Rightarrow> Inr (path, None)
      | None \<Rightarrow>
     (case filter (cw_exists w) DEFAULT_CONFIG_PATHS of
        path # _ \<Rightarrow> Inr (path, None)
      | [] \<Rightarrow>
     (case cw_home w of
        None \<Rightarrow> Inl HomeFailed
      | Some None \<Rightarrow> Inl (NoConfigFile DEFAULT_CONFIG_PATHS)
      | Some (Some home) \<Rightarrow>
          let path = path_join home ''GT/backplane/etc/soa.conf'' in
          if cw_exists w path then
            Inr (path, Some [\<lparr>cr_key_match = None, cr_value_match = Some rewrite_regex,
              cr_value_replacer = Some (path_join home ''GT/backplane'')\<rparr>])
          else Inl (NoConfigFile (DEFAULT_CONFIG_PATHS @ [path])))))))"

definition config_new ::
  "(string \<Rightarrow> string \<Rightarrow> string) \<Rightarrow> config_world \<Rightarrow> string option \<Rightarrow> config_error + conf_element" where
  "config_new rewrite_regex w config_path =
     (case get_config_path rewrite_regex w config_path of
        Inl e \<Rightarrow> Inl e
      | Inr (path, rewrites) \<Rightarrow>
          (case cw_read w path of
             None \<Rightarrow> Inl ConfigUnreadable
           | Some contents \<Rightarrow> Inr (parse_config rewrites contents)))"

subsection \<open>Lookups are lookups of the first line\<close>

text \<open>The abstract view: the value at a path of names.\<close>

definition value_at :: "string list \<Rightarrow> conf_element \<Rightarrow> string option" where
  "value_at path c = (case element_at path c of None \<Rightarrow> None | Some d \<Rightarrow> ce_value d)"

definition named :: "string list \<Rightarrow> bool" where
  "named path \<longleftrightarrow> (\<forall>s \<in> set path. parse_usize s = None)"

lemma value_at_default: "value_at path conf_default = None"
  by (cases path) (simp_all add: value_at_def conf_default_def)

lemma value_at_Nil: "value_at [] c = ce_value c"
  by (simp add: value_at_def)

lemma value_at_Cons:
  "value_at (s # p) c = (case map_of (ce_children c) s of None \<Rightarrow> None | Some d \<Rightarrow> value_at p d)"
  by (simp add: value_at_def split: option.split)

lemma value_at_put_list:
  "parse_usize s = Some n \<Longrightarrow> value_at path (put_value (s # rest) v c) = value_at path c"
  by (cases path) (simp_all add: value_at_Nil value_at_Cons Let_def)

lemma value_at_put:
  "value_at path (put_value segs v c)
     = (if path = segs \<and> named segs then (case value_at path c of None \<Rightarrow> Some v | Some w \<Rightarrow> Some w)
        else value_at path c)"
proof (induction segs arbitrary: path c)
  case Nil
  show ?case
    by (cases path) (simp_all add: value_at_Nil value_at_Cons named_def)
next
  case (Cons s rest)
  show ?case
  proof (cases "parse_usize s")
    case None
    show ?thesis
    proof (cases path)
      case (Cons p ps)
      with None Cons.IH show ?thesis
        by (auto simp: value_at_Cons lookup_simps named_def value_at_default split: option.split)
    qed (simp add: None value_at_Nil)
  next
    case (Some n)
    then show ?thesis by (simp add: value_at_put_list named_def del: put_value.simps)
  qed
qed

text \<open>The lines as an association list of keys and values.\<close>

definition conf_lines :: "conf_rewrite list option \<Rightarrow> string \<Rightarrow> (string \<times> string) list" where
  "conf_lines rewrites config =
     map (\<lambda>(key, value). (key, rewrite_value rewrites key value)) (List.map_filter conf_line (lines config))"

lemma join_Cons: "xs \<noteq> [] \<Longrightarrow> join sep (x # xs) = x @ sep @ join sep xs"
  by (cases xs) auto

lemma join_split_char: "join [d] (split_char d s) = s"
proof (induction s)
  case (Cons c s)
  show ?case
  proof (cases "c = d")
    case True
    with Cons show ?thesis by (simp add: join_Cons)
  next
    case False
    obtain t ts where "split_char d s = t # ts" by (cases "split_char d s") simp_all
    with False Cons show ?thesis by (cases ts) auto
  qed
qed simp

lemma split_char_inj: "split_char d s = split_char d t \<longleftrightarrow> s = t"
  by (metis join_split_char)

lemma parse_lines_value:
  "value_at (split_char CHR ''.'' key) (parse_lines rewrites ls tree)
     = (case value_at (split_char CHR ''.'' key) tree of
          Some w \<Rightarrow> Some w
        | None \<Rightarrow>
            (if named (split_char CHR ''.'' key)
             then map_of (map (\<lambda>(k, v). (k, rewrite_value rewrites k v)) (List.map_filter conf_line ls)) key
             else None))"
proof (induction ls arbitrary: tree)
  case (Cons l ls)
  show ?case
  proof (cases "conf_line l")
    case None
    then have "List.map_filter conf_line (l # ls) = List.map_filter conf_line ls"
      by (simp add: List.map_filter_simps)
    then show ?thesis using None Cons.IH [of tree] by (simp only: parse_lines.simps option.case)
  next
    case (Some kv)
    then show ?thesis
      by (cases kv) (auto simp: Cons.IH List.map_filter_simps value_at_put split_char_inj split: option.split)
  qed
qed (simp add: List.map_filter_simps split: option.split)

lemma config_get_value_at:
  "config_get from_str tree key = map_option from_str (value_at (split_char CHR ''.'' key) tree)"
  by (simp add: config_get_def element_get_def value_at_def split: option.split)


end
