(* ===== verification/Bus_Info.thy ===== *)
theory Bus_Info
  imports Config Service_Info "HOL-Library.AList"
begin

text \<open>
  Network addresses, \<open>scamp/src/bus_info.rs\<close>: the addresses a service binds and announces from, read
  from the configuration with interface names resolved, and the private address taken by default.
  The interfaces, in the order the hash map iterates, are an argument; \<open>get_interface_addrs\<close> builds
  them from what the C library's \<open>getifaddrs\<close> reports.
\<close>

type_synonym interfaces = "(string \<times> ipv4 list) list"

record bus_info =
  bi_service_addrs :: "ipv4 list"
  bi_discovery_addrs :: "ipv4 list"
  bi_group :: ipv4
  bi_port :: nat

definition is_loopback :: "ipv4 \<Rightarrow> bool" where
  "is_loopback ip = (case ip of (a, b, c, d) \<Rightarrow> a = 127)"

definition ip_rank :: "ipv4 \<Rightarrow> nat" where
  "ip_rank ip =
     (case ip of (a, b, c, d) \<Rightarrow>
        if a = 10 then 0
        else if a = 192 \<and> b = 168 then 1
        else if a = 172 \<and> 16 \<le> b \<and> b \<le> 31 then 2
        else 3)"

definition find_default_ip :: "interfaces \<Rightarrow> ipv4 option" where
  "find_default_ip ifs =
     (case sort_key ip_rank (filter (\<lambda>ip. \<not> is_loopback ip) (concat (map snd ifs))) of
        [] \<Rightarrow> None
      | ip # _ \<Rightarrow> Some ip)"

definition strip_prefix :: "string \<Rightarrow> string \<Rightarrow> string option" where
  "strip_prefix p s = (if prefix p s then Some (drop (length p) s) else None)"

definition address_of_part :: "interfaces \<Rightarrow> string \<Rightarrow> ipv4 list" where
  "address_of_part ifs raw =
     (let part = trim raw in
      case strip_prefix ''if:'' part of
        Some iface \<Rightarrow> (case map_of ifs iface of Some ips \<Rightarrow> ips | None \<Rightarrow> [])
      | None \<Rightarrow> (case parse_ip part of Some ip \<Rightarrow> [ip] | None \<Rightarrow> []))"

definition option_list :: "'a option \<Rightarrow> 'a list" where
  "option_list v = (case v of None \<Rightarrow> [] | Some x \<Rightarrow> [x])"

definition resolve_addr_list :: "string option option \<Rightarrow> interfaces \<Rightarrow> ipv4 option \<Rightarrow> ipv4 list" where
  "resolve_addr_list config_val ifs default_ip =
     (case config_val of
        Some (Some raw) \<Rightarrow>
          (let addrs = concat (map (address_of_part ifs) (split_char CHR '','' raw)) in
           if addrs = [] then option_list default_ip else addrs)
      | _ \<Rightarrow> option_list default_ip)"

definition default_group :: ipv4 where
  "default_group = (239, 63, 248, 106)"

definition and_then :: "'a option \<Rightarrow> ('a \<Rightarrow> 'b option) \<Rightarrow> 'b option" where
  "and_then v f = (case v of None \<Rightarrow> None | Some x \<Rightarrow> f x)"

definition unwrap_or :: "'a \<Rightarrow> 'a option \<Rightarrow> 'a" where
  "unwrap_or d v = (case v of None \<Rightarrow> d | Some x \<Rightarrow> x)"

definition bus_info_from_config :: "interfaces \<Rightarrow> conf_element \<Rightarrow> bus_info" where
  "bus_info_from_config ifs config =
     (let default_ip = find_default_ip ifs in
      \<lparr>bi_service_addrs = resolve_addr_list (config_get Some config ''bus.address'') ifs default_ip,
       bi_discovery_addrs = resolve_addr_list (config_get Some config ''discovery.address'') ifs default_ip,
       bi_group = unwrap_or default_group
         (and_then (and_then (config_get Some config ''discovery.multicast_address'') id) parse_ip),
       bi_port = unwrap_or 5555
         (and_then (config_get (parse_uint u16_max) config ''discovery.port'') id)\<rparr>)"

definition service_addr :: "bus_info \<Rightarrow> ipv4" where
  "service_addr bi = (case bi_service_addrs bi of [] \<Rightarrow> (0, 0, 0, 0) | ip # _ \<Rightarrow> ip)"

subsection \<open>Enumerating the interfaces\<close>

text \<open>
  An entry of the list \<open>getifaddrs\<close> gives: the name, and the address when there is one, with whether
  it is of the family \<open>AF_INET\<close> (only then its four bytes are read).  None is the failure of the call.
\<close>

record ifaddr_entry =
  ie_name :: bytes
  ie_addr :: "(bool \<times> ipv4) option"

definition push_address :: "ifaddr_entry \<Rightarrow> interfaces \<Rightarrow> interfaces" where
  "push_address e m =
     (case ie_addr e of
        Some (True, ip) \<Rightarrow>
          (let name = utf8_lossy (ie_name e) in
           AList.update name ((case map_of m name of Some ips \<Rightarrow> ips | None \<Rightarrow> []) @ [ip]) m)
      | _ \<Rightarrow> m)"

definition get_interface_addrs :: "ifaddr_entry list option \<Rightarrow> interfaces" where
  "get_interface_addrs reported =
     (case reported of None \<Rightarrow> [] | Some es \<Rightarrow> foldl (\<lambda>m e. push_address e m) [] es)"

definition addresses_named :: "string \<Rightarrow> ifaddr_entry list \<Rightarrow> ipv4 list" where
  "addresses_named name es =
     List.map_filter (\<lambda>e. case ie_addr e of
         Some (True, ip) \<Rightarrow> if utf8_lossy (ie_name e) = name then Some ip else None
       | _ \<Rightarrow> None) es"

text \<open>An interface has all its IPv4 addresses, in the order reported, and only interfaces with one are listed.\<close>

lemma push_addresses:
  "map_of (foldl (\<lambda>m e. push_address e m) m es) name
     = (case map_of m name of
          Some ips \<Rightarrow> Some (ips @ addresses_named name es)
        | None \<Rightarrow> if addresses_named name es = [] then None else Some (addresses_named name es))"
proof (induction es arbitrary: m)
  case (Cons e es)
  show ?case
  proof (cases "\<exists>ip. ie_addr e = Some (True, ip)")
    case True
    then obtain ip where "ie_addr e = Some (True, ip)" by blast
    then show ?thesis
      using Cons.IH [of "push_address e m"]
      by (auto simp: push_address_def addresses_named_def update_conv Let_def List.map_filter_simps split: option.splits)
  next
    case False
    then have "push_address e m = m" "addresses_named name (e # es) = addresses_named name es"
      by (auto simp: push_address_def addresses_named_def List.map_filter_simps split: option.splits)
    with Cons.IH [of m] show ?thesis by (simp split: option.split)
  qed
qed (simp add: addresses_named_def List.map_filter_simps split: option.split)

lemma interface_addresses:
  "map_of (get_interface_addrs (Some es)) name
     = (if addresses_named name es = [] then None else Some (addresses_named name es))"
  using push_addresses [of "[]" es name] by (simp add: get_interface_addrs_def)

subsection \<open>The default address\<close>

lemma sort_key_hd_min:
  assumes "sort_key f xs = y # ys"
  shows "y \<in> set xs \<and> (\<forall>x \<in> set xs. f y \<le> f x)"
proof -
  have "sorted (map f (y # ys))" using sorted_sort_key [of f xs] assms by simp
  moreover have "set xs = set (y # ys)" using set_sort [of f xs] assms by simp
  ultimately show ?thesis by auto
qed

definition usable_ips :: "interfaces \<Rightarrow> ipv4 list" where
  "usable_ips ifs = filter (\<lambda>ip. \<not> is_loopback ip) (concat (map snd ifs))"

definition best_address :: "interfaces \<Rightarrow> ipv4 \<Rightarrow> bool" where
  "best_address ifs ip \<longleftrightarrow>
     ip \<in> set (usable_ips ifs) \<and> (\<forall>x \<in> set (usable_ips ifs). ip_rank ip \<le> ip_rank x)"

lemma find_default_ip_best: "find_default_ip ifs = Some ip \<Longrightarrow> best_address ifs ip"
  unfolding find_default_ip_def usable_ips_def [symmetric] best_address_def
  using sort_key_hd_min [of ip_rank "usable_ips ifs"] by (auto split: list.splits)

lemma find_default_ip_None: "find_default_ip ifs = None \<longleftrightarrow> usable_ips ifs = []"
  unfolding find_default_ip_def usable_ips_def [symmetric]
  by (cases "usable_ips ifs") (auto split: list.splits dest: arg_cong [where f = length])

text \<open>Without a usable setting the addresses are the default one.\<close>

lemma resolve_addr_list_default:
  "config_val = None \<or> config_val = Some None \<Longrightarrow> resolve_addr_list config_val ifs d = option_list d"
  by (auto simp: resolve_addr_list_def)

text \<open>With a default address the list of addresses is never empty.\<close>

lemma resolve_addr_list_nonempty:
  "d \<noteq> None \<Longrightarrow> resolve_addr_list config_val ifs d \<noteq> []"
  by (auto simp: resolve_addr_list_def option_list_def Let_def split: option.splits)

end
