(* ===== verification/Authorized_Services.thy ===== *)
theory Authorized_Services
  imports Announcement_Packet
begin

text \<open>
  The authorized services file, \<open>scamp/src/auth/authorized_services.rs\<close>: certificate fingerprints with
  the patterns of the actions they may announce.  Patterns are regular expressions of the \<open>regex\<close>
  package; its functions \<open>escape\<close>, \<open>compile\<close> (\<open>Regex::new\<close>) and \<open>is_match\<close> are arguments, grouped
  in a record.

  The lemmas say which line of the file decides about a fingerprint, what the tokens of a line
  allow, and that everything else is denied.
\<close>

subsection \<open>Reading the file\<close>

record 'rx regex_lib =
  rx_escape :: "string \<Rightarrow> string"
  rx_compile :: "string \<Rightarrow> 'rx option"
  rx_is_match :: "'rx \<Rightarrow> string \<Rightarrow> bool"

record 'rx auth_services =
  as_entries :: "string \<rightharpoonup> 'rx list"
  as_file_path :: string
  as_last_mtime :: "nat option"

definition auth_empty :: "'rx auth_services" where
  "auth_empty = \<lparr>as_entries = Map.empty, as_file_path = [], as_last_mtime = None\<rparr>"

text \<open>\<open>str::replace\<close>: every occurrence, from the left.\<close>

definition replace_str :: "string \<Rightarrow> string \<Rightarrow> string \<Rightarrow> string" where
  "replace_str p q s = join q (split_str p s)"

definition token_pattern :: "'rx regex_lib \<Rightarrow> string \<Rightarrow> string" where
  "token_pattern lib token =
     (let escaped = rx_escape lib token in
      if CHR '':'' \<in> set escaped then replace_str '':ALL'' '':.*'' escaped
      else ''main:'' @ escaped)"

definition anchored :: "string \<Rightarrow> string" where
  "anchored pattern = ''(?i)^(?:'' @ pattern @ '')(?:'' @ [CHR 0x5C] @ ''.|$)''"

definition line_tokens :: "string \<Rightarrow> string list" where
  "line_tokens s = filter (\<lambda>t. t \<noteq> []) (map trim (split_char CHR '','' s))"

definition token_patterns :: "'rx regex_lib \<Rightarrow> string \<Rightarrow> 'rx list" where
  "token_patterns lib tokens_str =
     List.map_filter (\<lambda>t. rx_compile lib (anchored (token_pattern lib t))) (line_tokens tokens_str)"

definition strip_comment :: "string \<Rightarrow> string" where
  "strip_comment line =
     trim (case nth_part 0 (split_char CHR ''#'' line) of None \<Rightarrow> [] | Some s \<Rightarrow> s)"

text \<open>What a line says: a fingerprint and its tokens, or nothing.\<close>

definition parse_auth_line :: "string \<Rightarrow> (string \<times> string) option" where
  "parse_auth_line raw =
     (let line = strip_comment raw in
      if line = [] then None
      else case split_once_ws line of
        Some (fp, rest) \<Rightarrow> Some (trim fp, trim rest)
      | None \<Rightarrow> None)"

fun insert_lines :: "'rx regex_lib \<Rightarrow> string list \<Rightarrow> (string \<rightharpoonup> 'rx list) \<Rightarrow> (string \<rightharpoonup> 'rx list)" where
  "insert_lines lib [] m = m"
| "insert_lines lib (l # ls) m =
     (case parse_auth_line l of
        None \<Rightarrow> insert_lines lib ls m
      | Some (fp, tokens_str) \<Rightarrow> insert_lines lib ls (m(fp \<mapsto> token_patterns lib tokens_str)))"

definition parse_content :: "'rx regex_lib \<Rightarrow> string \<Rightarrow> 'rx auth_services \<Rightarrow> 'rx auth_services" where
  "parse_content lib content svc = svc\<lparr>as_entries := insert_lines lib (lines content) Map.empty\<rparr>"

text \<open>The file: the text \<open>read_to_string\<close> gives and the modification time, each failing with None.\<close>

record file_view =
  fv_content :: "string option"
  fv_modified :: "nat option"

datatype io_error = ReadContent | ReadMetadata

definition reload_services ::
  "'rx regex_lib \<Rightarrow> file_view \<Rightarrow> 'rx auth_services \<Rightarrow> (io_error + unit) \<times> 'rx auth_services" where
  "reload_services lib fv svc =
     (if as_file_path svc = [] then (Inr (), svc)
      else case fv_content fv of
        None \<Rightarrow> (Inl ReadContent, svc)
      | Some content \<Rightarrow>
          (case fv_modified fv of
             None \<Rightarrow> (Inl ReadMetadata, svc)
           | Some mtime \<Rightarrow> (Inr (), parse_content lib content (svc\<lparr>as_last_mtime := Some mtime\<rparr>))))"

text \<open>\<open>before\<close> is the file as the check of its time sees it, \<open>fv\<close> as the reload after it does.\<close>

definition reload_if_changed ::
  "'rx regex_lib \<Rightarrow> file_view \<Rightarrow> file_view \<Rightarrow> 'rx auth_services \<Rightarrow> (io_error + bool) \<times> 'rx auth_services" where
  "reload_if_changed lib before fv svc =
     (if as_file_path svc = [] then (Inr False, svc)
      else case fv_modified before of
        None \<Rightarrow> (Inl ReadMetadata, svc)
      | Some mtime \<Rightarrow>
          if as_last_mtime svc = Some mtime then (Inr False, svc)
          else (case reload_services lib fv svc of
             (Inl e, svc') \<Rightarrow> (Inl e, svc')
           | (Inr u, svc') \<Rightarrow> (Inr True, svc')))"

definition load_services :: "'rx regex_lib \<Rightarrow> file_view \<Rightarrow> string \<Rightarrow> io_error + 'rx auth_services" where
  "load_services lib fv path =
     (case reload_services lib fv \<lparr>as_entries = Map.empty, as_file_path = path, as_last_mtime = None\<rparr> of
        (Inl e, svc) \<Rightarrow> Inl e
      | (Inr u, svc) \<Rightarrow> Inr svc)"

definition is_authorized :: "'rx regex_lib \<Rightarrow> 'rx auth_services \<Rightarrow> string \<Rightarrow> string \<Rightarrow> string \<Rightarrow> bool" where
  "is_authorized lib svc fingerprint sector act =
     (if prefix ''_meta.'' act then True
      else if CHR '':'' \<in> set sector \<or> CHR '':'' \<in> set act then False
      else case as_entries svc fingerprint of
        None \<Rightarrow> False
      | Some patterns \<Rightarrow> \<exists>rx \<in> set patterns. rx_is_match lib rx (sector @ '':'' @ act))"

subsection \<open>Which line decides\<close>

text \<open>The line for a fingerprint that counts is its last one.\<close>

definition auth_lines :: "string \<Rightarrow> (string \<times> string) list" where
  "auth_lines content = List.map_filter parse_auth_line (lines content)"

lemma insert_lines_lookup:
  "insert_lines lib ls m fp =
     (case map_of (rev (List.map_filter parse_auth_line ls)) fp of
        None \<Rightarrow> m fp
      | Some tokens_str \<Rightarrow> Some (token_patterns lib tokens_str))"
proof (induction ls arbitrary: m)
  case (Cons l ls)
  then show ?case
    by (auto simp: List.map_filter_simps map_add_def split: option.split)
qed (simp add: List.map_filter_simps)

lemma entries_of_content:
  "as_entries (parse_content lib content svc) fp
     = map_option (token_patterns lib) (map_of (rev (auth_lines content)) fp)"
  by (simp add: parse_content_def insert_lines_lookup auth_lines_def split: option.split)

subsection \<open>What the tokens of a line allow\<close>

text \<open>
  Documented behaviour of the library on the patterns the code builds: \<open>escape\<close> puts a backslash
  before every character that has a meaning in an expression, and an anchored literal, or a literal
  followed by \<open>.*\<close>, matches as expected on ASCII text without line feed, in either case of letters.
\<close>

definition meta_chars :: string where
  "meta_chars = [CHR 0x5C] @ ''.+*?()|[]{}^$#&-~''"

definition escape_char :: "char \<Rightarrow> string" where
  "escape_char c = (if c \<in> set meta_chars then [CHR 0x5C, c] else [c])"

definition literal_match :: "string \<Rightarrow> string \<Rightarrow> bool" where
  "literal_match t s \<longleftrightarrow>
     length t \<le> length s \<and> to_lowercase (take (length t) s) = to_lowercase t
     \<and> (length s = length t \<or> s ! length t = CHR ''.'')"

definition prefix_match :: "string \<Rightarrow> string \<Rightarrow> bool" where
  "prefix_match t s \<longleftrightarrow> length t \<le> length s \<and> to_lowercase (take (length t) s) = to_lowercase t"

definition plain_text :: "string \<Rightarrow> bool" where
  "plain_text s \<longleftrightarrow> is_ascii s \<and> CHR 0x0A \<notin> set s"

definition regex_laws :: "'rx regex_lib \<Rightarrow> bool" where
  "regex_laws lib \<longleftrightarrow>
     (\<forall>t. rx_escape lib t = concat (map escape_char t))
     \<and> (\<forall>t. plain_text t \<longrightarrow>
          (\<exists>rx. rx_compile lib (anchored (concat (map escape_char t))) = Some rx
             \<and> (\<forall>s. plain_text s \<longrightarrow> rx_is_match lib rx s = literal_match t s))
        \<and> (\<exists>rx. rx_compile lib (anchored (concat (map escape_char t) @ ''.*'')) = Some rx
             \<and> (\<forall>s. plain_text s \<longrightarrow> rx_is_match lib rx s = prefix_match t s)))"

text \<open>
  The tokens with the documented meaning: an action path, \<open>sector:path\<close>, or \<open>sector:ALL\<close>; and the
  \<open>sector:action\<close> texts they allow.
\<close>

definition simple_token :: "string \<Rightarrow> bool" where
  "simple_token t \<longleftrightarrow>
     plain_text t
     \<and> (find_sub '':ALL'' t = None
        \<or> (\<exists>sector. t = sector @ '':ALL'' \<and> CHR '':'' \<notin> set sector))"

definition token_allows :: "string \<Rightarrow> string \<Rightarrow> bool" where
  "token_allows t s \<longleftrightarrow>
     (if CHR '':'' \<notin> set t then literal_match (''main:'' @ t) s
      else if find_sub '':ALL'' t = None then literal_match t s
      else prefix_match (take (length t - 3) t) s)"

definition content_allows :: "string \<Rightarrow> string \<Rightarrow> string \<Rightarrow> bool" where
  "content_allows content fp s \<longleftrightarrow>
     (case map_of (rev (auth_lines content)) fp of
        None \<Rightarrow> False
      | Some tokens_str \<Rightarrow> \<exists>t \<in> set (line_tokens tokens_str). token_allows t s)"

definition simple_line :: "string \<Rightarrow> string \<Rightarrow> bool" where
  "simple_line content fp \<longleftrightarrow>
     (case map_of (rev (auth_lines content)) fp of
        None \<Rightarrow> True
      | Some tokens_str \<Rightarrow> \<forall>t \<in> set (line_tokens tokens_str). simple_token t)"

lemma escape_colon: "CHR '':'' \<in> set (concat (map escape_char t)) \<longleftrightarrow> CHR '':'' \<in> set t"
  by (induction t) (auto simp: escape_char_def meta_chars_def)

lemma escape_prefix_ALL:
  "prefix '':ALL'' (concat (map escape_char t)) \<longleftrightarrow> prefix '':ALL'' t"
proof -
  have step: "prefix (c # p) (concat (map escape_char t)) \<longleftrightarrow>
      (\<exists>t'. t = c # t' \<and> prefix p (concat (map escape_char t')))" if "c \<notin> set meta_chars" for c p t
    using that by (cases t) (auto simp: escape_char_def meta_chars_def)
  show ?thesis
    by (simp add: step meta_chars_def) (auto simp: prefix_def)
qed

lemma find_escape_None:
  "find_sub '':ALL'' t = None \<Longrightarrow> find_sub '':ALL'' (concat (map escape_char t)) = None"
proof (induction t)
  case (Cons c cs)
  then have IH: "find_sub '':ALL'' (concat (map escape_char cs)) = None"
    and np: "\<not> prefix '':ALL'' (c # cs)" by (auto split: if_splits)
  show ?case
  proof (cases "c \<in> set meta_chars")
    case True
    then have "c \<noteq> CHR '':''" by (auto simp: meta_chars_def)
    moreover have "escape_char c = [CHR 0x5C, c]" using True by (simp add: escape_char_def)
    ultimately show ?thesis using IH by simp
  next
    case False
    then have "escape_char c = [c]" by (simp add: escape_char_def)
    moreover have "\<not> prefix '':ALL'' (concat (map escape_char (c # cs)))"
      using np escape_prefix_ALL by blast
    ultimately show ?thesis using IH by simp
  qed
qed simp

lemma replace_ALL:
  assumes "CHR '':'' \<notin> set e"
  shows "replace_str '':ALL'' '':.*'' (e @ '':ALL'') = e @ '':.*''"
proof -
  have "find_sub '':ALL'' (e @ '':ALL'') = Some (length e)"
    using find_sub_first [OF assms, of "''ALL''" "[]"] by simp
  moreover have "split_str '':ALL'' [] = [[]]" by (simp add: split_str.simps [of _ "[]"])
  ultimately have "split_str '':ALL'' (e @ '':ALL'') = [e, []]"
    by (subst split_str.simps) simp
  then show ?thesis by (simp add: replace_str_def)
qed

lemma replace_absent: "find_sub p s = None \<Longrightarrow> replace_str p q s = s"
  by (simp add: replace_str_def split_str.simps [of p s])

lemma token_compiled:
  assumes laws: "regex_laws lib" and t: "simple_token t"
  shows "\<exists>rx. rx_compile lib (anchored (token_pattern lib t)) = Some rx
    \<and> (\<forall>s. plain_text s \<longrightarrow> rx_is_match lib rx s = token_allows t s)"
proof -
  have esc: "rx_escape lib t = concat (map escape_char t)" using laws by (simp add: regex_laws_def)
  have lit: "\<exists>rx. rx_compile lib (anchored (concat (map escape_char u))) = Some rx
      \<and> (\<forall>s. plain_text s \<longrightarrow> rx_is_match lib rx s = literal_match u s)"
    and wild: "\<exists>rx. rx_compile lib (anchored (concat (map escape_char u) @ ''.*'')) = Some rx
      \<and> (\<forall>s. plain_text s \<longrightarrow> rx_is_match lib rx s = prefix_match u s)" if "plain_text u" for u
    using laws that by (simp_all add: regex_laws_def)
  have plain: "plain_text t" using t by (simp add: simple_token_def)
  show ?thesis
  proof (cases "CHR '':'' \<in> set t")
    case False
    have main: "concat (map escape_char (''main:'' @ t)) = ''main:'' @ concat (map escape_char t)"
      by (simp add: escape_char_def meta_chars_def)
    have "CHR '':'' \<notin> set (concat (map escape_char t))" using False escape_colon by blast
    then have "token_pattern lib t = concat (map escape_char (''main:'' @ t))"
      unfolding token_pattern_def esc main Let_def by (rule if_not_P)
    moreover have "plain_text (''main:'' @ t)" using plain by (simp add: plain_text_def)
    ultimately show ?thesis
      using lit [of "''main:'' @ t"] False unfolding token_allows_def by metis
  next
    case colon: True
    show ?thesis
    proof (cases "find_sub '':ALL'' t")
      case None
      have "CHR '':'' \<in> set (concat (map escape_char t))" using colon escape_colon by blast
      then have "token_pattern lib t = concat (map escape_char t)"
        unfolding token_pattern_def esc Let_def replace_absent [OF find_escape_None [OF None]] by simp
      with lit [OF plain] colon None show ?thesis unfolding token_allows_def by metis
    next
      case (Some i)
      with t obtain sector where sector: "t = sector @ '':ALL''" "CHR '':'' \<notin> set sector"
        by (auto simp: simple_token_def)
      let ?e = "concat (map escape_char sector)"
      have all: "concat (map escape_char t) = ?e @ '':ALL''"
        and pre: "concat (map escape_char (sector @ '':'')) = ?e @ '':''"
        by (simp_all add: sector(1) escape_char_def meta_chars_def)
      have "CHR '':'' \<notin> set ?e" using sector(2) escape_colon by blast
      then have "token_pattern lib t = concat (map escape_char (sector @ '':'')) @ ''.*''"
        unfolding token_pattern_def esc all pre Let_def replace_ALL [OF \<open>CHR '':'' \<notin> set ?e\<close>] by simp
      moreover have "plain_text (sector @ '':'')" using plain by (simp add: plain_text_def sector(1))
      moreover have "take (length t - 3) t = sector @ '':''" by (simp add: sector(1))
      ultimately show ?thesis
        using wild [of "sector @ '':''"] Some colon unfolding token_allows_def by auto
    qed
  qed
qed

lemma patterns_match:
  assumes laws: "regex_laws lib" and tokens: "\<forall>t \<in> set (line_tokens tokens_str). simple_token t"
    and s: "plain_text s"
  shows "(\<exists>rx \<in> set (token_patterns lib tokens_str). rx_is_match lib rx s)
    \<longleftrightarrow> (\<exists>t \<in> set (line_tokens tokens_str). token_allows t s)"
proof
  assume "\<exists>rx \<in> set (token_patterns lib tokens_str). rx_is_match lib rx s"
  then obtain rx t where t: "t \<in> set (line_tokens tokens_str)"
    "rx_compile lib (anchored (token_pattern lib t)) = Some rx" "rx_is_match lib rx s"
    by (auto simp: token_patterns_def map_filter_def)
  with token_compiled [OF laws, of t] tokens s show "\<exists>t \<in> set (line_tokens tokens_str). token_allows t s"
    by fastforce
next
  assume "\<exists>t \<in> set (line_tokens tokens_str). token_allows t s"
  then obtain t where t: "t \<in> set (line_tokens tokens_str)" "token_allows t s" ..
  with token_compiled [OF laws, of t] tokens s obtain rx where
    "rx_compile lib (anchored (token_pattern lib t)) = Some rx" "rx_is_match lib rx s" by blast
  with t(1) show "\<exists>rx \<in> set (token_patterns lib tokens_str). rx_is_match lib rx s"
    by (force simp: token_patterns_def map_filter_def)
qed

lemma is_authorized_content:
  assumes "regex_laws lib" and "simple_line content fp" and "plain_text sector" and "plain_text act"
  shows "is_authorized lib (parse_content lib content svc) fp sector act
    \<longleftrightarrow> prefix ''_meta.'' act
      \<or> (CHR '':'' \<notin> set sector \<and> CHR '':'' \<notin> set act \<and> content_allows content fp (sector @ '':'' @ act))"
proof -
  have plain: "plain_text (sector @ '':'' @ act)" using assms(3,4) by (simp add: plain_text_def)
  show ?thesis
  proof (cases "map_of (rev (auth_lines content)) fp")
    case None
    then show ?thesis
      unfolding is_authorized_def entries_of_content content_allows_def by simp
  next
    case (Some tokens_str)
    then have "\<forall>t \<in> set (line_tokens tokens_str). simple_token t"
      using assms(2) by (simp add: simple_line_def)
    note match = patterns_match [OF assms(1) this plain]
    show ?thesis
      unfolding is_authorized_def entries_of_content content_allows_def Some option.map option.case match
      by simp
  qed
qed

text \<open>
  C26: Authorization is exact and denies by default: given the laws of the expressions the code builds
  and a deciding line of documented tokens, an action is authorized for a fingerprint exactly when
  it is a \<open>_meta.\<close> action, or neither sector nor action holds a colon and a token of the last line
  for that fingerprint allows \<open>sector:action\<close>: a path of sector main, a \<open>sector:path\<close>, each matched
  up to a dot or the end in either case, or \<open>sector:ALL\<close>.
\<close>

theorem authorization_exact:
  assumes "regex_laws lib" and "simple_line content fp" and "plain_text sector" and "plain_text act"
  shows "is_authorized lib (parse_content lib content svc) fp sector act
    \<longleftrightarrow> prefix ''_meta.'' act
      \<or> (CHR '':'' \<notin> set sector \<and> CHR '':'' \<notin> set act \<and> content_allows content fp (sector @ '':'' @ act))"
  using assms by (rule is_authorized_content)

text \<open>A small implementation of the patterns used, for the witness.\<close>

fun rx_parse :: "string \<Rightarrow> (string \<times> bool) option" where
  "rx_parse [] = Some ([], False)"
| "rx_parse (c # cs) =
     (if c = CHR 0x5C then
        (case cs of [] \<Rightarrow> None | d # ds \<Rightarrow> map_option (\<lambda>(t, w). (d # t, w)) (rx_parse ds))
      else if c # cs = ''.*'' then Some ([], True)
      else map_option (\<lambda>(t, w). (c # t, w)) (rx_parse cs))"

definition sample_regex :: "(string \<times> bool) regex_lib" where
  "sample_regex =
     \<lparr>rx_escape = (\<lambda>t. concat (map escape_char t)),
      rx_compile = (\<lambda>p. rx_parse (take (length p - 17) (drop 8 p))),
      rx_is_match = (\<lambda>(t, w) s. if w then prefix_match t s else literal_match t s)\<rparr>"

lemma rx_parse_escaped:
  "rx_parse (concat (map escape_char t)) = Some (t, False)"
  "rx_parse (concat (map escape_char t) @ ''.*'') = Some (t, True)"
  by (induction t) (auto simp: escape_char_def meta_chars_def)

lemma sample_regex_laws: "regex_laws sample_regex"
proof -
  have strip: "take (length (anchored p) - 17) (drop 8 (anchored p)) = p" for p
    by (simp add: anchored_def)
  show ?thesis
    unfolding regex_laws_def sample_regex_def by (simp add: strip rx_parse_escaped)
qed

lemma authorization_exact_witness:
  "is_authorized sample_regex (parse_content sample_regex ''AB:CD product, main:ALL'' auth_empty) ''AB:CD'' ''main'' ''order.fetch''
    \<longleftrightarrow> prefix ''_meta.'' ''order.fetch''
      \<or> (CHR '':'' \<notin> set ''main'' \<and> CHR '':'' \<notin> set ''order.fetch''
         \<and> content_allows ''AB:CD product, main:ALL'' ''AB:CD'' (''main'' @ '':'' @ ''order.fetch''))"
proof (rule authorization_exact [OF sample_regex_laws])
  have "auth_lines ''AB:CD product, main:ALL'' = [(''AB:CD'', ''product, main:ALL'')]"
    by (simp add: auth_lines_def lines_def strip_cr_def parse_auth_line_def strip_comment_def nth_part_def
        trim_def trim_start.simps ws_len_def Let_def List.map_filter_simps)
  moreover have "line_tokens ''product, main:ALL'' = [''product'', ''main:ALL'']"
    by (simp add: line_tokens_def trim_def trim_start.simps ws_len_def Let_def)
  moreover have "simple_token ''product''"
    by (simp add: simple_token_def plain_text_def is_ascii_def)
  moreover have "simple_token (''main'' @ '':ALL'')"
    unfolding simple_token_def by (auto simp: plain_text_def is_ascii_def)
  ultimately show "simple_line ''AB:CD product, main:ALL'' ''AB:CD''"
    by (simp add: simple_line_def)
qed (simp_all add: plain_text_def is_ascii_def)

end
