(* ===== verification/Registry.thy ===== *)
theory Registry
  imports Cache_File Authorized_Services Config
begin

text \<open>
  The service registry, \<open>scamp/src/discovery/service_registry.rs\<close>: accepted announcements indexed by
  action, replay protection, failure marks and the choice of a service.  Time (\<open>now_secs\<close>), random
  numbers, the signature check and the authorization check are arguments; \<open>rnd\<close> rounds a number to
  the nearest double, as each operation on \<open>f64\<close> does.
\<close>

subsection \<open>State\<close>

record action_entry =
  ae_action :: action
  ae_info :: service_info
  ae_params :: announcement_params
  ae_authorized :: bool

record failure_state =
  fs_times :: "u64 list"
  fs_reactivate_at :: u64

record registry =
  rg_actions :: "(string \<times> action_entry list) list"
  rg_seen :: "string \<rightharpoonup> f64"
  rg_failures :: "string \<rightharpoonup> failure_state"

definition registry_empty :: registry where
  "registry_empty = \<lparr>rg_actions = [], rg_seen = Map.empty, rg_failures = Map.empty\<rparr>"

fun find_timeout :: "flag list \<Rightarrow> u64 option" where
  "find_timeout [] = None"
| "find_timeout (Timeout secs # fs) = Some (ucast secs + 5)"
| "find_timeout (f # fs) = find_timeout fs"

definition timeout_secs :: "action_entry \<Rightarrow> u64 option" where
  "timeout_secs e = find_timeout (a_flags (ae_action e))"

definition make_index_key :: "string \<Rightarrow> string \<Rightarrow> u32 \<Rightarrow> string" where
  "make_index_key sector path version =
     to_lowercase (sector @ '':'' @ path @ ''.v'' @ dec_of_nat (unat version))"

definition make_crud_alias_key :: "string \<Rightarrow> string \<Rightarrow> string \<Rightarrow> u32 \<Rightarrow> string" where
  "make_crud_alias_key sector namespace tag version =
     to_lowercase (sector @ '':'' @ namespace @ ''._'' @ tag @ ''.v'' @ dec_of_nat (unat version))"

subsection \<open>Announcements\<close>

definition push_entry :: "string \<Rightarrow> action_entry \<Rightarrow> (string \<times> action_entry list) list \<Rightarrow> (string \<times> action_entry list) list" where
  "push_entry key e m = btree_entry key [] (\<lambda>es. es @ [e]) m"

fun crud_tag :: "crud_op \<Rightarrow> string" where
  "crud_tag Create = ''create''"
| "crud_tag Read = ''read''"
| "crud_tag Update = ''update''"
| "crud_tag Delete = ''destroy''"

definition namespace_of :: "string \<Rightarrow> string" where
  "namespace_of path = (case rsplit_once CHR ''.'' path of Some (ns, m) \<Rightarrow> ns | None \<Rightarrow> path)"

fun push_aliases ::
  "service_info \<Rightarrow> announcement_params \<Rightarrow> action \<Rightarrow> flag list \<Rightarrow> (string \<times> action_entry list) list
   \<Rightarrow> (string \<times> action_entry list) list" where
  "push_aliases info params a [] m = m"
| "push_aliases info params a (f # fs) m =
     push_aliases info params a fs
       (case f of
          CrudOp op \<Rightarrow>
            push_entry (make_crud_alias_key (a_sector a) (namespace_of (a_path a)) (crud_tag op) (a_version a))
              \<lparr>ae_action = a, ae_info = info, ae_params = params, ae_authorized = True\<rparr> m
        | _ \<Rightarrow> m)"

fun push_actions ::
  "(string \<Rightarrow> string \<Rightarrow> string \<Rightarrow> bool) \<Rightarrow> string \<Rightarrow> service_info \<Rightarrow> announcement_params \<Rightarrow> action list
   \<Rightarrow> (string \<times> action_entry list) list \<Rightarrow> (string \<times> action_entry list) list" where
  "push_actions auth fp info params [] m = m"
| "push_actions auth fp info params (a # as) m =
     push_actions auth fp info params as
       (push_aliases info params a (a_flags a)
          (push_entry (make_index_key (a_sector a) (a_path a) (a_version a))
             \<lparr>ae_action = a, ae_info = info, ae_params = params,
              ae_authorized = auth fp (a_sector a) (a_path a)\<rparr> m))"

definition expired :: "(rat \<Rightarrow> rat) \<Rightarrow> u64 \<Rightarrow> announcement_params \<Rightarrow> bool" where
  "expired rnd now params \<longleftrightarrow>
     rnd (ap_timestamp params + rnd (rnd (of_nat (unat (ap_interval params)) / 1000) * rnd (21 / 10)))
       < rnd (of_nat (unat now))"

definition fingerprint_of :: "service_info \<Rightarrow> string" where
  "fingerprint_of info = (case si_fingerprint info of None \<Rightarrow> [] | Some fp \<Rightarrow> fp)"

definition dedup_key :: "string \<Rightarrow> string \<Rightarrow> string" where
  "dedup_key fp identity = fp @ '' '' @ identity"

definition same_service :: "string \<Rightarrow> string \<Rightarrow> action_entry \<Rightarrow> bool" where
  "same_service identity fp e \<longleftrightarrow>
     si_identity (ae_info e) = identity \<and> si_fingerprint (ae_info e) = Some fp"

definition drop_service :: "string \<Rightarrow> string \<Rightarrow> (string \<times> action_entry list) list \<Rightarrow> (string \<times> action_entry list) list" where
  "drop_service identity fp m =
     map (\<lambda>(k, es). (k, filter (\<lambda>e. \<not> same_service identity fp e) es)) m"

definition inject_packet ::
  "(rat \<Rightarrow> rat) \<Rightarrow> (announcement_packet \<Rightarrow> bool) \<Rightarrow> (string \<Rightarrow> string \<Rightarrow> string \<Rightarrow> bool) \<Rightarrow> u64
   \<Rightarrow> announcement_packet \<Rightarrow> registry \<Rightarrow> registry" where
  "inject_packet rnd sig_valid auth now packet r =
     (if \<not> sig_valid packet then r
      else
        (let body = pk_body packet;
             info = ab_info body;
             fp = fingerprint_of info;
             key = dedup_key fp (si_identity info);
             timestamp = ap_timestamp (ab_params body) in
         if expired rnd now (ab_params body) then r
         else
           (case rg_seen r key of
              Some prev_ts \<Rightarrow>
                if timestamp \<le> prev_ts then r
                else r\<lparr>rg_actions := push_actions auth fp info (ab_params body) (ab_actions body)
                         (drop_service (si_identity info) fp (rg_actions r)),
                       rg_seen := (rg_seen r)(key \<mapsto> timestamp)\<rparr>
            | None \<Rightarrow>
                r\<lparr>rg_actions := push_actions auth fp info (ab_params body) (ab_actions body) (rg_actions r),
                  rg_seen := (rg_seen r)(key \<mapsto> timestamp)\<rparr>)))"

text \<open>The reload: \<open>clock\<close> gives the time of each packet's check.\<close>

datatype registry_error = NoCachePath | CacheOpenFailed

fun inject_all ::
  "(rat \<Rightarrow> rat) \<Rightarrow> (announcement_packet \<Rightarrow> bool) \<Rightarrow> (string \<Rightarrow> string \<Rightarrow> string \<Rightarrow> bool) \<Rightarrow> (nat \<Rightarrow> u64) \<Rightarrow> nat
   \<Rightarrow> (cache_error, announcement_packet) outcome list \<Rightarrow> registry \<Rightarrow> (registry_error, registry) outcome" where
  "inject_all rnd sig_valid auth clock i [] r = Ret r"
| "inject_all rnd sig_valid auth clock i (Ret p # items) r =
     inject_all rnd sig_valid auth clock (Suc i) items (inject_packet rnd sig_valid auth (clock i) p r)"
| "inject_all rnd sig_valid auth clock i (Err e # items) r = inject_all rnd sig_valid auth clock i items r"
| "inject_all rnd sig_valid auth clock i (Panic # items) r = Panic"

definition reload_from_cache ::
  "'rx regex_lib \<Rightarrow> (string \<Rightarrow> file_view) \<Rightarrow> (string \<Rightarrow> read_result list option)
   \<Rightarrow> (string \<Rightarrow> (packet_error, announcement_packet) outcome) \<Rightarrow> (rat \<Rightarrow> rat) \<Rightarrow> (announcement_packet \<Rightarrow> bool)
   \<Rightarrow> (nat \<Rightarrow> u64) \<Rightarrow> conf_element \<Rightarrow> registry \<Rightarrow> (registry_error, registry) outcome" where
  "reload_from_cache lib file open_file parse_packet rnd sig_valid clock config r =
     (case config_get Some config ''discovery.cache_path'' of
        Some (Some cache_path) \<Rightarrow>
          (let auth =
             (case config_get Some config ''bus.authorized_services'' of
                Some (Some path) \<Rightarrow>
                  (case load_services lib (file path) path of Inl e \<Rightarrow> auth_empty | Inr svc \<Rightarrow> svc)
              | _ \<Rightarrow> auth_empty) in
           case open_file cache_path of
             None \<Rightarrow> Err CacheOpenFailed
           | Some reads \<Rightarrow>
               inject_all rnd sig_valid (is_authorized lib auth) clock 0
                 (cache_records parse_packet (cache_new reads))
                 (r\<lparr>rg_actions := [], rg_seen := Map.empty\<rparr>))
      | _ \<Rightarrow> Err NoCachePath)"

definition registry_from_cache ::
  "'rx regex_lib \<Rightarrow> (string \<Rightarrow> file_view) \<Rightarrow> (string \<Rightarrow> read_result list option)
   \<Rightarrow> (string \<Rightarrow> (packet_error, announcement_packet) outcome) \<Rightarrow> (rat \<Rightarrow> rat) \<Rightarrow> (announcement_packet \<Rightarrow> bool)
   \<Rightarrow> (nat \<Rightarrow> u64) \<Rightarrow> conf_element \<Rightarrow> (registry_error, registry) outcome" where
  "registry_from_cache lib file open_file parse_packet rnd sig_valid clock config =
     reload_from_cache lib file open_file parse_packet rnd sig_valid clock config registry_empty"

subsection \<open>Lookups\<close>

definition actions_iter :: "registry \<Rightarrow> action_entry list" where
  "actions_iter r = concat (map snd (rg_actions r))"

definition find_actions :: "registry \<Rightarrow> string \<Rightarrow> action_entry list option" where
  "find_actions r key = map_of (rg_actions r) (to_lowercase key)"

definition is_failed :: "(string \<rightharpoonup> failure_state) \<Rightarrow> string \<Rightarrow> u64 \<Rightarrow> bool" where
  "is_failed failures identity now =
     (case failures identity of None \<Rightarrow> False | Some st \<Rightarrow> now < fs_reactivate_at st)"

definition entry_failed :: "registry \<Rightarrow> u64 \<Rightarrow> action_entry \<Rightarrow> bool" where
  "entry_failed r now e = is_failed (rg_failures r) (si_identity (ae_info e)) now"

text \<open>\<open>rand\<close> is the random \<open>usize\<close>.\<close>

definition pick_healthy :: "registry \<Rightarrow> u64 \<Rightarrow> u64 \<Rightarrow> action_entry list \<Rightarrow> action_entry option" where
  "pick_healthy r now rand candidates =
     (if candidates = [] then None
      else
        (let healthy = filter (\<lambda>e. \<not> entry_failed r now e) candidates;
             failing = filter (\<lambda>e. entry_failed r now e) candidates;
             pool = (if healthy = [] then failing else healthy) in
         if pool = [] then None else Some (pool ! (unat rand mod length pool))))"

definition routable :: "action_entry \<Rightarrow> bool" where
  "routable e \<longleftrightarrow> 0 < ap_weight (ae_params e) \<and> ae_authorized e"

definition get_action :: "registry \<Rightarrow> u64 \<Rightarrow> u64 \<Rightarrow> string \<Rightarrow> action_entry option" where
  "get_action r now rand key =
     (case map_of (rg_actions r) (to_lowercase key) of
        None \<Rightarrow> None
      | Some entries \<Rightarrow> pick_healthy r now rand (filter routable entries))"

definition find_action :: "registry \<Rightarrow> u64 \<Rightarrow> u64 \<Rightarrow> string \<Rightarrow> string \<Rightarrow> u32 \<Rightarrow> action_entry option" where
  "find_action r now rand sector act version = get_action r now rand (make_index_key sector act version)"

definition find_action_with_envelope ::
  "registry \<Rightarrow> u64 \<Rightarrow> u64 \<Rightarrow> string \<Rightarrow> string \<Rightarrow> u32 \<Rightarrow> string \<Rightarrow> action_entry option" where
  "find_action_with_envelope r now rand sector act version envelope =
     (case map_of (rg_actions r) (to_lowercase (make_index_key sector act version)) of
        None \<Rightarrow> None
      | Some entries \<Rightarrow>
          pick_healthy r now rand
            (filter (\<lambda>e. routable e \<and> envelope \<in> set (a_envelopes (ae_action e))) entries))"

definition get_action_by_pathver :: "registry \<Rightarrow> u64 \<Rightarrow> u64 \<Rightarrow> string \<Rightarrow> string \<Rightarrow> action_entry option" where
  "get_action_by_pathver r now rand pv sector =
     (let (act, version_str) =
        (case rsplit_once CHR ''~'' pv of Some (a, v) \<Rightarrow> (a, v) | None \<Rightarrow> (pv, ''1''));
          version = (case parse_u32 version_str of Some v \<Rightarrow> v | None \<Rightarrow> 1)
      in find_action r now rand sector act version)"

subsection \<open>Failures\<close>

definition saturating_sub :: "u64 \<Rightarrow> u64 \<Rightarrow> u64" where
  "saturating_sub a b = (if b \<le> a then a - b else 0)"

definition mark_failed :: "u64 \<Rightarrow> string \<Rightarrow> registry \<Rightarrow> registry" where
  "mark_failed now identity r =
     (let st = (case rg_failures r identity of
                  Some st \<Rightarrow> st
                | None \<Rightarrow> \<lparr>fs_times = [], fs_reactivate_at = 0\<rparr>);
          times = filter (\<lambda>t. saturating_sub now 86400 \<le> t) (fs_times st) @ [now];
          minutes = of_nat (min (length times) 60) :: u64
      in r\<lparr>rg_failures := (rg_failures r)(identity \<mapsto>
             \<lparr>fs_times = times, fs_reactivate_at = now + minutes * 60\<rparr>)\<rparr>)"

subsection \<open>The entries of a registry\<close>

definition table_entries :: "(string \<times> action_entry list) list \<Rightarrow> action_entry set" where
  "table_entries m = (\<Union>(k, es) \<in> set m. set es)"

lemma set_actions_iter: "set (actions_iter r) = table_entries (rg_actions r)"
  by (auto simp: actions_iter_def table_entries_def)

lemma table_entries_Cons: "table_entries ((k, es) # m) = set es \<union> table_entries m"
  by (simp add: table_entries_def)

lemma table_entries_push [simp]: "table_entries (push_entry k e m) = insert e (table_entries m)"
proof (cases "map_of m k")
  case None
  then show ?thesis
    unfolding push_entry_def btree_entry_def None option.case by (simp add: table_entries_def set_insert_sorted)
next
  case (Some es)
  have "table_entries (map (\<lambda>(k', v'). if k' = k then (k', v' @ [e]) else (k', v')) m)
      = (if k \<in> fst ` set m then insert e (table_entries m) else table_entries m)"
  proof (induction m)
    case (Cons p m)
    then show ?case by (cases p) (simp add: table_entries_Cons)
  qed (simp add: table_entries_def)
  moreover have "k \<in> fst ` set m" using map_of_SomeD [OF Some] by force
  ultimately show ?thesis unfolding push_entry_def btree_entry_def Some option.case by simp
qed

definition alias_entry :: "service_info \<Rightarrow> announcement_params \<Rightarrow> action \<Rightarrow> action_entry" where
  "alias_entry info params a = \<lparr>ae_action = a, ae_info = info, ae_params = params, ae_authorized = True\<rparr>"

lemma table_entries_aliases:
  "table_entries (push_aliases info params a fs m)
     = table_entries m \<union> (if \<exists>op. CrudOp op \<in> set fs then {alias_entry info params a} else {})"
  by (induction fs arbitrary: m) (auto simp: alias_entry_def split: flag.splits)

definition primary_entry ::
  "(string \<Rightarrow> string \<Rightarrow> string \<Rightarrow> bool) \<Rightarrow> string \<Rightarrow> service_info \<Rightarrow> announcement_params \<Rightarrow> action \<Rightarrow> action_entry" where
  "primary_entry auth fp info params a =
     \<lparr>ae_action = a, ae_info = info, ae_params = params, ae_authorized = auth fp (a_sector a) (a_path a)\<rparr>"

definition has_crud :: "action \<Rightarrow> bool" where
  "has_crud a \<longleftrightarrow> (\<exists>op. CrudOp op \<in> set (a_flags a))"

lemma table_entries_actions:
  "table_entries (push_actions auth fp info params as m)
     = table_entries m \<union> primary_entry auth fp info params ` set as
       \<union> alias_entry info params ` {a \<in> set as. has_crud a}"
  by (induction as arbitrary: m)
    (auto simp: table_entries_aliases primary_entry_def has_crud_def split: if_splits)

lemma table_entries_drop:
  "table_entries (drop_service identity fp m) = {e \<in> table_entries m. \<not> same_service identity fp e}"
  by (force simp: table_entries_def drop_service_def)

subsection \<open>One announcement for each service\<close>

text \<open>
  The states of a registry: announcements come in (a fingerprint, as computed from a certificate,
  has no blank), services are marked failed, the tables are cleared for a reload.
\<close>

definition blank_free :: "announcement_packet \<Rightarrow> bool" where
  "blank_free p \<longleftrightarrow> CHR '' '' \<notin> set (fingerprint_of (ab_info (pk_body p)))"

inductive registry_reachable ::
  "(rat \<Rightarrow> rat) \<Rightarrow> (announcement_packet \<Rightarrow> bool) \<Rightarrow> (string \<Rightarrow> string \<Rightarrow> string \<Rightarrow> bool) \<Rightarrow> registry \<Rightarrow> bool"
  for rnd sig_valid auth where
  empty: "registry_reachable rnd sig_valid auth registry_empty"
| inject: "registry_reachable rnd sig_valid auth r \<Longrightarrow> blank_free p
    \<Longrightarrow> registry_reachable rnd sig_valid auth (inject_packet rnd sig_valid auth now p r)"
| fail: "registry_reachable rnd sig_valid auth r
    \<Longrightarrow> registry_reachable rnd sig_valid auth (mark_failed now identity r)"
| clear: "registry_reachable rnd sig_valid auth r
    \<Longrightarrow> registry_reachable rnd sig_valid auth (r\<lparr>rg_actions := [], rg_seen := Map.empty\<rparr>)"

text \<open>A fingerprint is hexadecimal digits and colons.\<close>

lemma hex_digit_not_space: "n < 16 \<Longrightarrow> hex_digit n \<noteq> CHR '' ''"
proof
  assume "n < 16" and "hex_digit n = CHR '' ''"
  then have "byte_val (hex_digit n) = 32" by simp
  with \<open>n < 16\<close> show False by (simp add: hex_digit_def split: if_splits)
qed

lemma join_set: "set (join sep xs) \<subseteq> set sep \<union> \<Union> (set ` set xs)"
  by (induction sep xs rule: join.induct) auto

lemma fingerprint_no_space: "CHR '' '' \<notin> set (cert_sha1_fingerprint sha1 der)"
proof -
  have hex: "CHR '' '' \<notin> set (hex_byte c)" for c
  proof -
    have "byte_val c < 256" by simp
    then have "byte_val c div 16 < 16" by (simp only: less_mult_imp_div_less)
    moreover have "byte_val c mod 16 < 16" by simp
    ultimately show ?thesis
      using hex_digit_not_space [of "byte_val c div 16"] hex_digit_not_space [of "byte_val c mod 16"]
      by (auto simp: hex_byte_def)
  qed
  have "set (cert_sha1_fingerprint sha1 der) \<subseteq> set '':'' \<union> \<Union> (set ` set (map hex_byte (sha1 der)))"
    unfolding cert_sha1_fingerprint_def by (rule join_set)
  moreover have "CHR '' '' \<notin> set '':'' \<union> \<Union> (set ` set (map hex_byte (sha1 der)))" using hex by simp
  ultimately show ?thesis by blast
qed

text \<open>Where the body parser leaves the fingerprint open, accepted packet texts are blank free.\<close>

lemma packet_blank_free:
  assumes "packet_of_text parse_body (cert_pem_fingerprint b64_decode sha1) text = Ret p"
    and "\<And>json b. parse_body json = Ret b \<Longrightarrow> si_fingerprint (ab_info b) = None"
  shows "blank_free p"
proof -
  obtain json cert sg b where "parse_body json = Ret b"
    and p: "pk_body p = (case cert_pem_fingerprint b64_decode sha1 cert of
        None \<Rightarrow> b | Some fp \<Rightarrow> b\<lparr>ab_info := (ab_info b)\<lparr>si_fingerprint := Some fp\<rparr>\<rparr>)"
  proof -
    from assms(1) show thesis
      unfolding packet_of_text_def Let_def
      by (auto simp: bind_outcome_eq_Ret split: if_splits elim!: map_err.elims intro: that)
  qed
  moreover from this assms(2) have "si_fingerprint (ab_info b) = None" by blast
  moreover have "CHR '' '' \<notin> set fp" if "cert_pem_fingerprint b64_decode sha1 cert = Some fp" for fp
    using that fingerprint_no_space by (auto simp: cert_pem_fingerprint_def)
  ultimately show ?thesis
    by (auto simp: blank_free_def fingerprint_of_def split: option.split)
qed

lemma dedup_key_inj:
  assumes "CHR '' '' \<notin> set fp" and "CHR '' '' \<notin> set fp'"
  shows "dedup_key fp i = dedup_key fp' i' \<longleftrightarrow> fp = fp' \<and> i = i'"
proof
  assume "dedup_key fp i = dedup_key fp' i'"
  then have "split_once CHR '' '' (fp @ CHR '' '' # i) = split_once CHR '' '' (fp' @ CHR '' '' # i')"
    by (simp add: dedup_key_def)
  with assms show "fp = fp' \<and> i = i'" by simp
qed simp

definition registry_ok :: "registry \<Rightarrow> bool" where
  "registry_ok r \<longleftrightarrow> (\<forall>e \<in> table_entries (rg_actions r).
     CHR '' '' \<notin> set (fingerprint_of (ae_info e))
     \<and> (\<forall>fp. si_fingerprint (ae_info e) = Some fp \<longrightarrow>
          rg_seen r (dedup_key fp (si_identity (ae_info e))) = Some (ap_timestamp (ae_params e))))"

lemma registry_ok_inject:
  assumes ok: "registry_ok r" and blank: "blank_free p"
  shows "registry_ok (inject_packet rnd sig_valid auth now p r)"
proof -
  let ?body = "pk_body p" and ?info = "ab_info (pk_body p)"
  let ?fp = "fingerprint_of ?info"
  let ?key = "dedup_key ?fp (si_identity ?info)" and ?ts = "ap_timestamp (ab_params ?body)"
  define m where "m = (if rg_seen r ?key = None then rg_actions r
    else drop_service (si_identity ?info) ?fp (rg_actions r))"
  have sub: "table_entries m \<subseteq> table_entries (rg_actions r)"
    by (auto simp: m_def table_entries_drop)
  let ?r' = "r\<lparr>rg_actions := push_actions auth ?fp ?info (ab_params ?body) (ab_actions ?body) m,
    rg_seen := (rg_seen r)(?key \<mapsto> ?ts)\<rparr>"
  have cases: "inject_packet rnd sig_valid auth now p r = r
      \<or> inject_packet rnd sig_valid auth now p r = ?r'"
    by (auto simp: inject_packet_def m_def Let_def split: option.split)
  have "registry_ok ?r'"
    unfolding registry_ok_def
  proof (intro ballI conjI allI impI)
    fix e assume e: "e \<in> table_entries (rg_actions ?r')"
    have old_or_new: "e \<in> table_entries m \<or> (ae_info e = ?info \<and> ae_params e = ab_params ?body)"
      using e by (auto simp: table_entries_actions primary_entry_def alias_entry_def)
    show nb: "CHR '' '' \<notin> set (fingerprint_of (ae_info e))"
      using old_or_new sub ok blank by (auto simp: registry_ok_def blank_free_def)
    fix fp assume fp: "si_fingerprint (ae_info e) = Some fp"
    show "rg_seen ?r' (dedup_key fp (si_identity (ae_info e))) = Some (ap_timestamp (ae_params e))"
    proof (cases "ae_info e = ?info \<and> ae_params e = ab_params ?body")
      case True
      with fp show ?thesis by (simp add: fingerprint_of_def)
    next
      case False
      with old_or_new have em: "e \<in> table_entries m" by blast
      with sub ok fp have seen: "rg_seen r (dedup_key fp (si_identity (ae_info e)))
          = Some (ap_timestamp (ae_params e))" by (auto simp: registry_ok_def)
      have "dedup_key fp (si_identity (ae_info e)) \<noteq> ?key"
      proof
        assume eq: "dedup_key fp (si_identity (ae_info e)) = ?key"
        have "fp = ?fp \<and> si_identity (ae_info e) = si_identity ?info"
          using eq dedup_key_inj [of fp ?fp] nb blank fp by (simp add: fingerprint_of_def blank_free_def)
        then have "same_service (si_identity ?info) ?fp e" using fp by (simp add: same_service_def)
        moreover have "rg_seen r ?key \<noteq> None" using eq seen by simp
        ultimately show False using em unfolding m_def by (simp add: table_entries_drop split: if_splits)
      qed
      with seen show ?thesis by simp
    qed
  qed
  with cases ok show ?thesis by metis
qed

lemma registry_reachable_ok:
  "registry_reachable rnd sig_valid auth r \<Longrightarrow> registry_ok r"
proof (induction rule: registry_reachable.induct)
  case empty
  then show ?case by (simp add: registry_ok_def registry_empty_def table_entries_def)
next
  case (inject r p now)
  then show ?case by (intro registry_ok_inject)
next
  case (fail r now identity)
  then show ?case by (simp add: registry_ok_def mark_failed_def Let_def)
next
  case (clear r)
  then show ?case by (simp add: registry_ok_def table_entries_def)
qed



subsection \<open>The choice of a service\<close>

lemma pick_healthy_exact:
  "(pick_healthy r now rand cs = None \<longleftrightarrow> cs = [])
   \<and> (\<forall>e. pick_healthy r now rand cs = Some e \<longrightarrow>
        e \<in> set cs \<and> (entry_failed r now e \<longrightarrow> (\<forall>x \<in> set cs. entry_failed r now x)))"
proof (cases "cs = []")
  case False
  define healthy where "healthy = filter (\<lambda>e. \<not> entry_failed r now e) cs"
  define failing where "failing = filter (\<lambda>e. entry_failed r now e) cs"
  define pool where "pool = (if healthy = [] then failing else healthy)"
  obtain x where "x \<in> set cs" using False by (cases cs) auto
  then have "x \<in> set healthy \<or> x \<in> set failing" by (auto simp: healthy_def failing_def)
  then have "pool \<noteq> []" by (auto simp: pool_def)
  define e where "e = pool ! (unat rand mod length pool)"
  have e: "e \<in> set pool" using \<open>pool \<noteq> []\<close> by (simp add: e_def)
  then have "e \<in> set cs" and "entry_failed r now e \<longrightarrow> (\<forall>x \<in> set cs. entry_failed r now x)"
    by (auto simp: pool_def healthy_def failing_def filter_empty_conv split: if_splits)
  moreover have "pick_healthy r now rand cs = (if pool = [] then None else Some e)"
    using False by (simp add: pick_healthy_def Let_def pool_def healthy_def failing_def e_def)
  with \<open>pool \<noteq> []\<close> have "pick_healthy r now rand cs = Some e" by simp
  ultimately show ?thesis using False by simp
qed (simp add: pick_healthy_def)

definition candidate :: "registry \<Rightarrow> string \<Rightarrow> string \<Rightarrow> u32 \<Rightarrow> string \<Rightarrow> action_entry \<Rightarrow> bool" where
  "candidate r sector act version envelope e \<longleftrightarrow>
     (case find_actions r (make_index_key sector act version) of
        None \<Rightarrow> False
      | Some es \<Rightarrow> e \<in> set es \<and> 0 < ap_weight (ae_params e) \<and> ae_authorized e
          \<and> envelope \<in> set (a_envelopes (ae_action e)))"

definition best_choice :: "registry \<Rightarrow> u64 \<Rightarrow> (action_entry \<Rightarrow> bool) \<Rightarrow> action_entry \<Rightarrow> bool" where
  "best_choice r now cand e \<longleftrightarrow>
     cand e \<and> (entry_failed r now e \<longrightarrow> (\<forall>x. cand x \<longrightarrow> entry_failed r now x))"

text \<open>
  C28: The choice of a service is exact: a request finds no service only when no authorized entry of
  positive weight that speaks the envelope exists under its key; a chosen service is such an entry,
  and a service marked failed is chosen only when every candidate is marked failed.
\<close>

theorem service_choice_exact:
  "(case find_action_with_envelope r now rand sector act version envelope of
      None \<Rightarrow> \<not> (\<exists>e. candidate r sector act version envelope e)
    | Some e \<Rightarrow> best_choice r now (candidate r sector act version envelope) e)"
proof (cases "map_of (rg_actions r) (to_lowercase (make_index_key sector act version))")
  case None
  then show ?thesis
    unfolding find_action_with_envelope_def candidate_def find_actions_def by simp
next
  case (Some es)
  define cs where "cs = filter (\<lambda>e. routable e \<and> envelope \<in> set (a_envelopes (ae_action e))) es"
  have cand: "candidate r sector act version envelope = (\<lambda>e. e \<in> set cs)"
    unfolding candidate_def find_actions_def Some by (auto simp: cs_def routable_def)
  have "find_action_with_envelope r now rand sector act version envelope = pick_healthy r now rand cs"
    unfolding find_action_with_envelope_def Some by (simp add: cs_def)
  with pick_healthy_exact [of r now rand cs] show ?thesis
    unfolding cand best_choice_def by (cases "pick_healthy r now rand cs") auto
qed

subsection \<open>Aliases\<close>

lemma push_entry_lookup:
  "map_of (push_entry k e m) j
     = (if j = k then Some ((case map_of m k of None \<Rightarrow> [] | Some es \<Rightarrow> es) @ [e]) else map_of m j)"
  by (simp add: push_entry_def lookup_simps)

text \<open>
  C33: The alias of a CRUD action is routable whatever the authorized services file says: for an
  action tagged create that the file does not authorize, the lookup of the action itself finds
  nothing, and the lookup of its alias \<open>namespace._create\<close> finds it.
\<close>

theorem crud_alias_bypasses_authorization:
  assumes valid: "sig_valid p" "\<not> expired rnd now (ab_params (pk_body p))"
    and body: "ab_actions (pk_body p) = [a]" "a_flags a = [CrudOp Create]" "0 < ap_weight (ab_params (pk_body p))"
    and unauthorized: "\<not> auth (fingerprint_of (ab_info (pk_body p))) (a_sector a) (a_path a)"
    and name: "a_path a = ns @ ''.'' @ meth" "CHR ''.'' \<notin> set meth" "meth \<noteq> ''_create''"
      "to_lowercase (a_path a) = a_path a"
  shows "find_action (inject_packet rnd sig_valid auth now p registry_empty) now rand
        (a_sector a) (a_path a) (a_version a) = None
    \<and> (\<exists>e. find_action (inject_packet rnd sig_valid auth now p registry_empty) now rand
        (a_sector a) (ns @ ''._create'') (a_version a) = Some e \<and> ae_action e = a)"
proof -
  let ?r = "inject_packet rnd sig_valid auth now p registry_empty"
  let ?info = "ab_info (pk_body p)" and ?params = "ab_params (pk_body p)"
  let ?key = "make_index_key (a_sector a) (a_path a) (a_version a)"
  let ?akey = "make_index_key (a_sector a) (ns @ ''._create'') (a_version a)"
  have "rsplit_once CHR ''.'' (a_path a) = Some (ns, meth)"
    using name(1,2) rsplit_once_append [of "CHR ''.''" meth ns] by simp
  then have ns: "namespace_of (a_path a) = ns" by (simp add: namespace_of_def)
  have al: "make_crud_alias_key (a_sector a) ns ''create'' (a_version a) = ?akey"
    by (simp add: make_crud_alias_key_def make_index_key_def)
  have low: "to_lowercase (make_index_key s b v) = make_index_key s b v" for s b v
    by (simp add: make_index_key_def)
  have "to_lowercase meth = meth" using name(4) unfolding name(1) by (simp add: to_lowercase_def)
  moreover have "to_lowercase ''_create'' = ''_create''" by (simp add: to_lowercase_def lower_char_def)
  ultimately have ne: "?akey \<noteq> ?key" using name(3) by (simp add: make_index_key_def name(1) to_lowercase_def)
  have "rg_actions ?r = push_entry ?akey (alias_entry ?info ?params a)
      (push_entry ?key (primary_entry auth (fingerprint_of ?info) ?info ?params a) [])"
    using valid body
    by (simp add: inject_packet_def Let_def registry_empty_def ns al alias_entry_def primary_entry_def)
  with ne unauthorized body(3) show ?thesis
    by (auto simp: find_action_def get_action_def low push_entry_lookup routable_def primary_entry_def
        alias_entry_def pick_healthy_def registry_empty_def entry_failed_def is_failed_def Let_def inject_packet_def)
qed

subsection \<open>Backoff\<close>

text \<open>The failures of a service on record from the last day.\<close>

definition recent_failures :: "registry \<Rightarrow> string \<Rightarrow> u64 \<Rightarrow> nat" where
  "recent_failures r identity now =
     (case rg_failures r identity of
        None \<Rightarrow> 0
      | Some st \<Rightarrow> length (filter (\<lambda>t. unat now - 86400 \<le> unat t) (fs_times st)))"

lemma saturating_sub_unat: "unat (saturating_sub a b) = unat a - unat b"
  by (simp add: saturating_sub_def unat_sub_if' word_le_nat_alt)

lemma saturating_le: "saturating_sub now 86400 \<le> t \<longleftrightarrow> unat now - 86400 \<le> unat t"
  by (simp add: word_le_nat_alt saturating_sub_unat)

lemma reactivate_unat:
  assumes "unat now < 2 ^ 63" and "n \<le> 60"
  shows "unat (now + of_nat n * 60 :: u64) = unat now + n * 60"
proof -
  have "now + of_nat n * 60 = of_nat (unat now + n * 60)" by simp
  moreover have "unat now + n * 60 < 2 ^ 64" using assms by simp
  ultimately show ?thesis using unat_of_nat_u64 by presburger
qed

lemma backoff_at:
  assumes "unat now < 2 ^ 63"
  shows "is_failed (rg_failures (mark_failed now identity r)) identity t
    \<longleftrightarrow> unat t < unat now + 60 * min 60 (Suc (recent_failures r identity now))"
proof -
  define times where "times = (case rg_failures r identity of None \<Rightarrow> [] | Some st \<Rightarrow> fs_times st)"
  define n where "n = min (length (filter (\<lambda>t. saturating_sub now 86400 \<le> t) times @ [now])) 60"
  have st: "rg_failures (mark_failed now identity r) identity
      = Some \<lparr>fs_times = filter (\<lambda>t. saturating_sub now 86400 \<le> t) times @ [now],
              fs_reactivate_at = now + of_nat n * 60\<rparr>"
    by (simp add: mark_failed_def Let_def times_def n_def split: option.split)
  have n: "n = min 60 (Suc (recent_failures r identity now))"
    by (simp add: n_def times_def recent_failures_def saturating_le min.commute split: option.split)
  have "n \<le> 60" by (simp add: n_def)
  then show ?thesis
    using reactivate_unat [OF assms \<open>n \<le> 60\<close>] n
    by (simp add: is_failed_def st word_less_nat_alt mult.commute)
qed

lemma mark_failed_other:
  "other \<noteq> identity \<Longrightarrow> is_failed (rg_failures (mark_failed now identity r)) other t = is_failed (rg_failures r) other t"
  by (simp add: is_failed_def mark_failed_def Let_def)

text \<open>
  C29: The backoff after failures: a service marked failed is avoided for one minute for each of its
  failures in the last day, this one included, sixty minutes at most; then it is healthy again, and
  the marks of other services stay as they were.
\<close>

theorem backoff_exact:
  assumes "unat now < 2 ^ 63"
  shows "is_failed (rg_failures (mark_failed now identity r)) other t
      = (if other = identity then unat t < unat now + 60 * min 60 (Suc (recent_failures r identity now))
         else is_failed (rg_failures r) other t)"
  using backoff_at [OF assms] by (simp add: mark_failed_other)

lemma backoff_exact_witness:
  "is_failed (rg_failures (mark_failed 1000 ''svc:1'' registry_empty)) ''svc:1'' 1059
      = (if ''svc:1'' = ''svc:1'' then unat (1059 :: u64)
           < unat (1000 :: u64) + 60 * min 60 (Suc (recent_failures registry_empty ''svc:1'' 1000))
         else is_failed (rg_failures registry_empty) ''svc:1'' 1059)"
  by (rule backoff_exact) simp

subsection \<open>Witnesses\<close>

definition order_action :: action where
  "order_action =
     \<lparr>a_path = ''order.add'', a_version = 1, a_pathver = ''order.add~1'', a_flags = [CrudOp Create],
      a_sector = ''main'', a_envelopes = [''json''], a_section = V3\<rparr>"

definition order_packet :: announcement_packet where
  "order_packet = sample_accepted\<lparr>pk_body := (pk_body sample_accepted)\<lparr>ab_actions := [order_action]\<rparr>\<rparr>"

lemma order_packet_simps:
  "ab_actions (pk_body order_packet) = [order_action]" "ap_weight (ab_params (pk_body order_packet)) = 1"
  "ap_interval (ab_params (pk_body order_packet)) = 5000" "ap_timestamp (ab_params (pk_body order_packet)) = 7"
  "si_fingerprint (ab_info (pk_body order_packet)) = Some ''64''"
  "si_identity (ab_info (pk_body order_packet)) = ''svc:1''"
  by (simp_all add: order_packet_def sample_accepted_def sample_body_def)

lemma order_packet_fresh: "\<not> expired (\<lambda>x. x) 10 (ab_params (pk_body order_packet))"
  by (simp add: expired_def order_packet_simps)

lemma crud_alias_bypasses_authorization_witness:
  "find_action (inject_packet (\<lambda>x. x) (\<lambda>p. True) (\<lambda>fp s a. False) 10 order_packet registry_empty) 10 0
        (a_sector order_action) (a_path order_action) (a_version order_action) = None
    \<and> (\<exists>e. find_action (inject_packet (\<lambda>x. x) (\<lambda>p. True) (\<lambda>fp s a. False) 10 order_packet registry_empty) 10 0
        (a_sector order_action) (''order'' @ ''._create'') (a_version order_action) = Some e
        \<and> ae_action e = order_action)"
  by (rule crud_alias_bypasses_authorization [OF _ order_packet_fresh order_packet_simps(1), where meth = "''add''"])
    (simp_all add: order_action_def order_packet_simps to_lowercase_def lower_char_def)

definition order_registry :: registry where
  "order_registry = inject_packet (\<lambda>x. x) (\<lambda>p. True) (\<lambda>fp s a. True) 10 order_packet registry_empty"

definition order_entry :: action_entry where
  "order_entry = primary_entry (\<lambda>fp s a. True) ''64'' (ab_info (pk_body order_packet))
     (ab_params (pk_body order_packet)) order_action"

definition order_alias :: action_entry where
  "order_alias = alias_entry (ab_info (pk_body order_packet)) (ab_params (pk_body order_packet)) order_action"


end
