(* ===== verification/Requester.thy ===== *)
theory Requester
  imports Registry Client_Reader
begin

text \<open>
  The requester, \<open>scamp/src/requester.rs\<close>: look an action up in the registry, send the request, and try
  once more after a dispatch failure.  The client's request (\<open>BeepishClient::request\<close>), the clock and
  the random numbers are arguments, indexed by the number of the lookup or the request.
\<close>

definition REQUESTER_TIMEOUT_SECS :: u64 where
  "REQUESTER_TIMEOUT_SECS = 75"

record request_opts =
  ro_action :: string
  ro_version :: u32
  ro_body :: bytes
  ro_sector :: string
  ro_envelope :: envelope_format
  ro_ticket :: string
  ro_timeout_secs :: "u64 option"

datatype requester_error =
    ActionNotFound string string u32
  | ClientError string
  | TransportError string

text \<open>One call of the client: service, action, version, envelope, ticket, client id, body, timeout.\<close>

record client_call =
  cc_service :: service_info
  cc_action :: string
  cc_version :: i32
  cc_envelope :: envelope_format
  cc_ticket :: string
  cc_client_id :: i64
  cc_body :: bytes
  cc_timeout :: "u64 option"

record requester_env =
  re_client :: "nat \<Rightarrow> client_call \<Rightarrow> string + scamp_response"
  re_now :: "nat \<Rightarrow> u64"
  re_rand :: "nat \<Rightarrow> u64"

text \<open>The state: the registry, the lookups made so far, the calls made so far.\<close>

record requester =
  rq_registry :: registry
  rq_lookups :: nat
  rq_calls :: "client_call list"

fun envelope_str :: "envelope_format \<Rightarrow> string" where
  "envelope_str Json = ''json''"
| "envelope_str JsonStore = ''jsonstore''"
| "envelope_str (OtherFormat s) = s"

definition lookup_service :: "requester_env \<Rightarrow> request_opts \<Rightarrow> requester \<Rightarrow> action_entry option \<times> requester" where
  "lookup_service env opts q =
     (find_action_with_envelope (rq_registry q) (re_now env (rq_lookups q)) (re_rand env (rq_lookups q))
        (ro_sector opts) (ro_action opts) (ro_version opts) (envelope_str (ro_envelope opts)),
      q\<lparr>rq_lookups := Suc (rq_lookups q)\<rparr>)"

definition request_timeout :: "request_opts \<Rightarrow> action_entry \<Rightarrow> u64" where
  "request_timeout opts e =
     (case ro_timeout_secs opts of
        Some t \<Rightarrow> t
      | None \<Rightarrow> (case timeout_secs e of Some t \<Rightarrow> t | None \<Rightarrow> REQUESTER_TIMEOUT_SECS))"

definition call_of :: "request_opts \<Rightarrow> action_entry \<Rightarrow> client_call" where
  "call_of opts e =
     \<lparr>cc_service = ae_info e, cc_action = ro_action opts, cc_version = ucast (ro_version opts),
      cc_envelope = ro_envelope opts, cc_ticket = ro_ticket opts, cc_client_id = 0,
      cc_body = ro_body opts, cc_timeout = Some (request_timeout opts e)\<rparr>"

definition dispatch_once ::
  "requester_env \<Rightarrow> request_opts \<Rightarrow> requester \<Rightarrow> (requester_error + scamp_response) \<times> requester" where
  "dispatch_once env opts q =
     (case lookup_service env opts q of
        (None, q') \<Rightarrow> (Inl (ActionNotFound (ro_sector opts) (ro_action opts) (ro_version opts)), q')
      | (Some e, q') \<Rightarrow>
          (let call = call_of opts e; q'' = q'\<lparr>rq_calls := rq_calls q' @ [call]\<rparr> in
           case re_client env (length (rq_calls q')) call of
             Inl err \<Rightarrow> (Inl (ClientError err), q'')
           | Inr resp \<Rightarrow>
               (case rs_error resp of
                  Some err \<Rightarrow> (Inl (TransportError err), q'')
                | None \<Rightarrow> (Inr resp, q''))))"

definition dispatch_failed :: "scamp_response \<Rightarrow> bool" where
  "dispatch_failed resp \<longleftrightarrow>
     (case h_error_data (rs_header resp) of
        None \<Rightarrow> False
      | Some d \<Rightarrow>
          (case value_get ''dispatch_failure'' d of
             None \<Rightarrow> False
           | Some v \<Rightarrow> as_bool v = Some True))
     \<or> h_error_code (rs_header resp) = Some ''dispatch_failure''"

definition request_with_opts ::
  "requester_env \<Rightarrow> request_opts \<Rightarrow> requester \<Rightarrow> (requester_error + scamp_response) \<times> requester" where
  "request_with_opts env opts q =
     (case dispatch_once env opts q of
        (Inl err, q1) \<Rightarrow> (Inl err, q1)
      | (Inr resp, q1) \<Rightarrow>
          if dispatch_failed resp then
            (case lookup_service env opts q1 of
               (None, q2) \<Rightarrow> dispatch_once env opts q2
             | (Some e, q2) \<Rightarrow>
                 dispatch_once env opts
                   (q2\<lparr>rq_registry := mark_failed (re_now env (rq_lookups q1)) (si_identity (ae_info e))
                       (rq_registry q2)\<rparr>))
          else (Inr resp, q1))"

definition default_opts :: "string \<Rightarrow> string \<Rightarrow> u32 \<Rightarrow> bytes \<Rightarrow> request_opts" where
  "default_opts sector act version body =
     \<lparr>ro_action = act, ro_version = version, ro_body = body, ro_sector = sector, ro_envelope = Json,
      ro_ticket = [], ro_timeout_secs = None\<rparr>"

definition requester_request ::
  "requester_env \<Rightarrow> string \<Rightarrow> string \<Rightarrow> u32 \<Rightarrow> bytes \<Rightarrow> requester
   \<Rightarrow> (requester_error + scamp_response) \<times> requester" where
  "requester_request env default_sector act version body q =
     request_with_opts env (default_opts default_sector act version body) q"

definition default_sector_of :: "conf_element \<Rightarrow> string" where
  "default_sector_of config =
     (case config_get Some config ''bus.default_sector'' of
        Some (Some s) \<Rightarrow> s
      | _ \<Rightarrow> ''main'')"

text \<open>The texts of the errors.\<close>

fun requester_error_text :: "requester_error \<Rightarrow> string" where
  "requester_error_text (ActionNotFound sector act version) =
     ''Action not found: '' @ sector @ '':'' @ act @ ''.v'' @ dec_of_nat (unat version)"
| "requester_error_text (ClientError e) = e"
| "requester_error_text (TransportError e) = ''Transport error: '' @ e"

text \<open>\<open>from_config\<close>: the registry loaded from the cache and the default sector.\<close>

definition requester_from_config ::
  "(registry_error, registry) outcome \<Rightarrow> conf_element \<Rightarrow> (registry_error, requester \<times> string) outcome" where
  "requester_from_config from_cache config =
     bind_outcome from_cache (\<lambda>r.
       Ret (\<lparr>rq_registry = r, rq_lookups = 0, rq_calls = []\<rparr>, default_sector_of config))"

subsection \<open>One retry\<close>

lemma dispatch_once_calls:
  "\<exists>cs. rq_calls (snd (dispatch_once env opts q)) = rq_calls q @ cs \<and> length cs \<le> 1
     \<and> rq_registry (snd (dispatch_once env opts q)) = rq_registry q"
  by (auto simp: dispatch_once_def lookup_service_def Let_def split: option.split sum.split)

text \<open>The state the retry starts from.\<close>

definition retry_state :: "requester_env \<Rightarrow> request_opts \<Rightarrow> requester \<Rightarrow> requester" where
  "retry_state env opts q1 =
     (case lookup_service env opts q1 of
        (None, q2) \<Rightarrow> q2
      | (Some e, q2) \<Rightarrow>
          q2\<lparr>rq_registry := mark_failed (re_now env (rq_lookups q1)) (si_identity (ae_info e)) (rq_registry q2)\<rparr>)"

lemma request_done:
  "dispatch_once env opts q = (res, q1) \<Longrightarrow> \<not> (\<exists>resp. res = Inr resp \<and> dispatch_failed resp)
   \<Longrightarrow> request_with_opts env opts q = (res, q1)"
  by (auto simp: request_with_opts_def split: sum.split)

lemma request_retried:
  "dispatch_once env opts q = (Inr resp, q1) \<Longrightarrow> dispatch_failed resp
   \<Longrightarrow> request_with_opts env opts q = dispatch_once env opts (retry_state env opts q1)"
  by (cases "lookup_service env opts q1")
    (auto simp: request_with_opts_def retry_state_def split: option.split)

lemma retry_state_calls [simp]: "rq_calls (retry_state env opts q1) = rq_calls q1"
  by (auto simp: retry_state_def lookup_service_def split: option.split)

text \<open>
  A request makes at most two calls: the first call's answer is the result unless it reports a
  dispatch failure, and then the result is that of one more dispatch, whatever it is.
\<close>

theorem request_retries_once:
  "\<exists>cs. rq_calls (snd (request_with_opts env opts q)) = rq_calls q @ cs \<and> length cs \<le> 2
    \<and> (request_with_opts env opts q = dispatch_once env opts q
       \<or> (\<exists>resp q1. dispatch_once env opts q = (Inr resp, q1) \<and> dispatch_failed resp
            \<and> request_with_opts env opts q = dispatch_once env opts (retry_state env opts q1)))"
proof -
  obtain res q1 where d1: "dispatch_once env opts q = (res, q1)" by fastforce
  obtain cs where cs: "rq_calls q1 = rq_calls q @ cs" "length cs \<le> 1"
    using dispatch_once_calls [of env opts q] d1 by auto
  show ?thesis
  proof (cases "\<exists>resp. res = Inr resp \<and> dispatch_failed resp")
    case False
    with request_done [OF d1 False] d1 cs show ?thesis by (intro exI [of _ cs]) simp
  next
    case True
    then obtain resp where resp: "res = Inr resp" "dispatch_failed resp" by blast
    let ?q2 = "retry_state env opts q1"
    obtain ds where ds: "rq_calls (snd (dispatch_once env opts ?q2)) = rq_calls q1 @ ds" "length ds \<le> 1"
      using dispatch_once_calls [of env opts ?q2] by auto
    have "request_with_opts env opts q = dispatch_once env opts ?q2"
      using request_retried d1 resp by blast
    with cs ds d1 resp show ?thesis by (intro exI [of _ "cs @ ds"]) auto
  qed
qed

subsection \<open>Which service is marked\<close>

definition two_services :: "registry \<Rightarrow> request_opts \<Rightarrow> action_entry \<Rightarrow> action_entry \<Rightarrow> bool" where
  "two_services r opts a b \<longleftrightarrow>
     find_actions r (make_index_key (ro_sector opts) (ro_action opts) (ro_version opts)) = Some [a, b]
     \<and> routable a \<and> routable b \<and> si_identity (ae_info a) \<noteq> si_identity (ae_info b)
     \<and> envelope_str (ro_envelope opts) \<in> set (a_envelopes (ae_action a)) \<inter> set (a_envelopes (ae_action b))"

lemma two_services_lookup:
  assumes "two_services (rq_registry q) opts a b"
  shows "fst (lookup_service env opts q)
    = pick_healthy (rq_registry q) (re_now env (rq_lookups q)) (re_rand env (rq_lookups q)) [a, b]"
  using assms
  by (simp add: two_services_def lookup_service_def find_action_with_envelope_def find_actions_def)

lemma pick_of_two:
  assumes "\<not> entry_failed r now a" and "\<not> entry_failed r now b"
  shows "pick_healthy r now rand [a, b] = Some (if even (unat rand) then a else b)"
  using assms by (auto simp: pick_healthy_def Let_def numeral_2_eq_2 [symmetric] odd_iff_mod_2_eq_one)

lemma pick_the_other:
  assumes "\<not> entry_failed r now a" and "entry_failed r now b"
  shows "pick_healthy r now rand [a, b] = Some a"
  using assms by (simp add: pick_healthy_def)

text \<open>
  C34: After a dispatch failure the service marked failed is not the one that failed but one drawn
  afresh: with two healthy services, when the first draw gives the one that fails and the second
  draw the other, the other is marked and the retry goes to the failing service again.
\<close>

theorem retry_marks_other_service:
  assumes two: "two_services (rq_registry q) opts a b" and fresh: "rg_failures (rq_registry q) = Map.empty"
    and start: "rq_lookups q = 0" "rq_calls q = []"
    and draws: "even (unat (re_rand env 0))" "odd (unat (re_rand env 1))"
    and failure: "re_client env 0 (call_of opts a) = Inr resp" "rs_error resp = None" "dispatch_failed resp"
    and time: "unat (re_now env 1) < 2 ^ 63" "unat (re_now env 2) < unat (re_now env 1) + 60"
  shows "rq_calls (snd (request_with_opts env opts q)) = [call_of opts a, call_of opts a]
    \<and> entry_failed (rq_registry (snd (request_with_opts env opts q))) (re_now env 2) b
    \<and> \<not> entry_failed (rq_registry (snd (request_with_opts env opts q))) (re_now env 2) a"
proof -
  let ?r = "rq_registry q"
  have healthy: "\<not> entry_failed ?r now e" for now e
    using fresh by (simp add: entry_failed_def is_failed_def)
  have l0: "lookup_service env opts q = (Some a, q\<lparr>rq_lookups := 1\<rparr>)"
    using two_services_lookup [OF two, of env] pick_of_two [OF healthy healthy] draws(1) start
    by (simp add: lookup_service_def)
  let ?q1 = "q\<lparr>rq_lookups := 1, rq_calls := [call_of opts a]\<rparr>"
  have d1: "dispatch_once env opts q = (Inr resp, ?q1)"
    using l0 failure start by (simp add: dispatch_once_def Let_def)
  have two1: "two_services (rq_registry ?q1) opts a b" using two by simp
  have l1: "lookup_service env opts ?q1 = (Some b, ?q1\<lparr>rq_lookups := 2\<rparr>)"
    using two_services_lookup [OF two1, of env] pick_of_two [OF healthy healthy] draws(2)
    by (simp add: lookup_service_def numeral_2_eq_2)
  let ?r2 = "mark_failed (re_now env 1) (si_identity (ae_info b)) ?r"
  let ?q2 = "?q1\<lparr>rq_lookups := 2, rq_registry := ?r2\<rparr>"
  have q2: "retry_state env opts ?q1 = ?q2" using l1 by (simp add: retry_state_def)
  have ids: "si_identity (ae_info a) \<noteq> si_identity (ae_info b)" using two by (simp add: two_services_def)
  note marked = backoff_at [OF time(1), of "si_identity (ae_info b)" ?r]
  have b: "entry_failed ?r2 (re_now env 2) b"
    using time(2) marked by (simp add: entry_failed_def)
  have a: "\<not> entry_failed ?r2 (re_now env 2) a"
    using ids healthy [of "re_now env 2" a] by (simp add: entry_failed_def mark_failed_other)
  have two2: "two_services (rq_registry ?q2) opts a b"
    using two by (simp add: two_services_def find_actions_def mark_failed_def Let_def)
  have "fst (lookup_service env opts ?q2) = Some a"
    using two_services_lookup [OF two2, of env] pick_the_other [OF a b] by simp
  then have l2: "lookup_service env opts ?q2 = (Some a, ?q2\<lparr>rq_lookups := 3\<rparr>)"
    by (simp add: lookup_service_def numeral_3_eq_3 numeral_2_eq_2)
  have "request_with_opts env opts q = dispatch_once env opts ?q2"
    using request_retried [OF d1 failure(3)] q2 by simp
  moreover have "rq_calls (snd (dispatch_once env opts ?q2)) = [call_of opts a, call_of opts a]
      \<and> rq_registry (snd (dispatch_once env opts ?q2)) = ?r2"
    using l2 by (auto simp: dispatch_once_def Let_def split: sum.split option.split)
  ultimately show ?thesis using a b by simp
qed

subsection \<open>A witness\<close>

definition twin_entry :: "string \<Rightarrow> action_entry" where
  "twin_entry identity =
     \<lparr>ae_action = order_action, ae_info = (ab_info sample_body)\<lparr>si_identity := identity\<rparr>,
      ae_params = ab_params sample_body, ae_authorized = True\<rparr>"

definition twin_opts :: request_opts where
  "twin_opts = default_opts ''main'' ''order.add'' 1 []"

definition twin_requester :: requester where
  "twin_requester =
     \<lparr>rq_registry = registry_empty\<lparr>rg_actions :=
        [(make_index_key ''main'' ''order.add'' 1, [twin_entry ''svc:a'', twin_entry ''svc:b''])]\<rparr>,
      rq_lookups = 0, rq_calls = []\<rparr>"

definition failure_response :: scamp_response where
  "failure_response =
     \<lparr>rs_header = default_header\<lparr>h_error_code := Some ''dispatch_failure''\<rparr>, rs_body = [], rs_error = None\<rparr>"

definition twin_env :: requester_env where
  "twin_env =
     \<lparr>re_client = (\<lambda>i c. Inr failure_response), re_now = (\<lambda>i. 1000), re_rand = (\<lambda>i. if i = 1 then 1 else 0)\<rparr>"

lemma retry_marks_other_service_witness:
  "rq_calls (snd (request_with_opts twin_env twin_opts twin_requester))
      = [call_of twin_opts (twin_entry ''svc:a''), call_of twin_opts (twin_entry ''svc:a'')]
    \<and> entry_failed (rq_registry (snd (request_with_opts twin_env twin_opts twin_requester)))
        (re_now twin_env 2) (twin_entry ''svc:b'')
    \<and> \<not> entry_failed (rq_registry (snd (request_with_opts twin_env twin_opts twin_requester)))
        (re_now twin_env 2) (twin_entry ''svc:a'')"
proof (rule retry_marks_other_service)
  show "two_services (rq_registry twin_requester) twin_opts (twin_entry ''svc:a'') (twin_entry ''svc:b'')"
    by (simp add: two_services_def twin_requester_def twin_opts_def default_opts_def find_actions_def
        make_index_key_def routable_def twin_entry_def order_action_def sample_body_def)
  show "rg_failures (rq_registry twin_requester) = Map.empty"
    by (simp add: twin_requester_def registry_empty_def)
  show "dispatch_failed failure_response"
    by (simp add: dispatch_failed_def failure_response_def)
qed (simp_all add: twin_requester_def twin_env_def failure_response_def)

end
