(* ===== verification/Ticket.thy ===== *)
theory Ticket
  imports Json_Value
begin

text \<open>
  Tickets, \<open>scamp/src/auth/ticket.rs\<close>: the comma-separated text, its signature and its time of validity.
  The base64url decoder and the RSA check (key, data, signature) are arguments; \<open>checked\<close> says whether
  the build checks arithmetic for overflow (it then panics) or wraps.
\<close>

record ticket =
  tk_version :: u32
  tk_user_id :: u64
  tk_client_id :: u64
  tk_validity_start :: u64
  tk_ttl :: u64
  tk_privileges :: "u64 list"

datatype ticket_error =
    TooFewFields nat
  | InvalidVersion string
  | UnsupportedVersion u32
  | InvalidUserId string
  | InvalidClientId string
  | InvalidValidityStart string
  | InvalidTtl string
  | InvalidPrivilege string
  | InvalidSignatureText
  | MissingSignatureField
  | VerifierError string
  | SignatureMismatch
  | NotYetValid u64
  | TicketExpired

fun ticket_error_text :: "ticket_error \<Rightarrow> string" where
  "ticket_error_text (TooFewFields n) = ''Ticket has '' @ dec_of_nat n @ '' fields, expected at least 6''"
| "ticket_error_text (InvalidVersion s) = ''Invalid ticket version: '' @ s"
| "ticket_error_text (UnsupportedVersion v) = ''Unsupported ticket version: '' @ dec_of_nat (unat v)"
| "ticket_error_text (InvalidUserId s) = ''Invalid user_id: '' @ s"
| "ticket_error_text (InvalidClientId s) = ''Invalid client_id: '' @ s"
| "ticket_error_text (InvalidValidityStart s) = ''Invalid validity_start: '' @ s"
| "ticket_error_text (InvalidTtl s) = ''Invalid ttl: '' @ s"
| "ticket_error_text (InvalidPrivilege s) = ''Invalid privilege: '' @ s"
| "ticket_error_text InvalidSignatureText = ''Invalid base64url in ticket signature: ''"
| "ticket_error_text MissingSignatureField = ''Ticket missing signature field''"
| "ticket_error_text (VerifierError e) = e"
| "ticket_error_text SignatureMismatch = ''Ticket signature verification failed''"
| "ticket_error_text (NotYetValid t) = ''Ticket not yet valid (starts at '' @ dec_of_nat (unat t) @ '')''"
| "ticket_error_text TicketExpired = ''Ticket expired''"

fun parse_privileges :: "string list \<Rightarrow> (ticket_error, u64 list) outcome" where
  "parse_privileges [] = Ret []"
| "parse_privileges (s # ss) =
     bind_outcome (ok_or (InvalidPrivilege s) (parse_u64 s)) (\<lambda>p.
       bind_outcome (parse_privileges ss) (\<lambda>ps. Ret (p # ps)))"

definition privilege_list :: "string \<Rightarrow> (ticket_error, u64 list) outcome" where
  "privilege_list s = (if s = [] then Ret [] else parse_privileges (split_char CHR ''+'' s))"

definition ticket_parse ::
  "(string \<Rightarrow> bytes option) \<Rightarrow> string \<Rightarrow> (ticket_error, ticket \<times> bytes) outcome" where
  "ticket_parse b64url ticket_str =
     (let parts = split_char CHR '','' ticket_str in
      if length parts < 6 then Err (TooFewFields (length parts))
      else
        bind_outcome (ok_or (InvalidVersion (parts ! 0)) (parse_u32 (parts ! 0))) (\<lambda>version.
        if version \<noteq> 1 then Err (UnsupportedVersion version) else
        bind_outcome (ok_or (InvalidUserId (parts ! 1)) (parse_u64 (parts ! 1))) (\<lambda>user_id.
        bind_outcome (ok_or (InvalidClientId (parts ! 2)) (parse_u64 (parts ! 2))) (\<lambda>client_id.
        bind_outcome (ok_or (InvalidValidityStart (parts ! 3)) (parse_u64 (parts ! 3))) (\<lambda>validity_start.
        bind_outcome (ok_or (InvalidTtl (parts ! 4)) (parse_u64 (parts ! 4))) (\<lambda>ttl.
        bind_outcome (privilege_list (parts ! 5)) (\<lambda>privileges.
        bind_outcome (ok_or InvalidSignatureText (b64url (if 6 < length parts then parts ! 6 else [])))
          (\<lambda>signature.
          Ret (\<lparr>tk_version = version, tk_user_id = user_id, tk_client_id = client_id,
                tk_validity_start = validity_start, tk_ttl = ttl, tk_privileges = privileges\<rparr>,
               signature)))))))))"

definition add_u64 :: "bool \<Rightarrow> u64 \<Rightarrow> u64 \<Rightarrow> ('e, u64) outcome" where
  "add_u64 checked a b = (if checked \<and> 2 ^ 64 \<le> unat a + unat b then Panic else Ret (a + b))"

definition ticket_verify ::
  "bool \<Rightarrow> (string \<Rightarrow> bytes option) \<Rightarrow> (bytes \<Rightarrow> bytes \<Rightarrow> bytes \<Rightarrow> string + bool) \<Rightarrow> u64 \<Rightarrow> string \<Rightarrow> bytes
   \<Rightarrow> (ticket_error, ticket) outcome" where
  "ticket_verify checked b64url verify now ticket_str key =
     bind_outcome (ticket_parse b64url ticket_str) (\<lambda>(ticket, signature).
     bind_outcome (ok_or MissingSignatureField (map_option fst (rsplit_once CHR '','' ticket_str)))
       (\<lambda>signed_data.
     case verify key signed_data signature of
       Inl e \<Rightarrow> Err (VerifierError e)
     | Inr valid \<Rightarrow>
         if \<not> valid then Err SignatureMismatch
         else if now < tk_validity_start ticket then Err (NotYetValid (tk_validity_start ticket))
         else
           bind_outcome (add_u64 checked (tk_validity_start ticket) (tk_ttl ticket)) (\<lambda>expiry.
             if expiry \<le> now then Err TicketExpired else Ret ticket)))"

definition has_privilege :: "ticket \<Rightarrow> u64 \<Rightarrow> bool" where
  "has_privilege t p \<longleftrightarrow> p \<in> set (tk_privileges t)"

definition has_all_privileges :: "ticket \<Rightarrow> u64 list \<Rightarrow> bool" where
  "has_all_privileges t required \<longleftrightarrow> list_all (\<lambda>p. p \<in> set (tk_privileges t)) required"

subsection \<open>The text of a ticket\<close>

definition num_text :: "u64 \<Rightarrow> string" where
  "num_text w = dec_of_nat (unat w)"

definition ticket_fields :: "ticket \<Rightarrow> string list" where
  "ticket_fields t =
     [''1'', num_text (tk_user_id t), num_text (tk_client_id t), num_text (tk_validity_start t),
      num_text (tk_ttl t), join ''+'' (map num_text (tk_privileges t))]"

definition ticket_signed_text :: "ticket \<Rightarrow> string" where
  "ticket_signed_text t = join '','' (ticket_fields t)"

lemma num_text_chars: "c \<in> set (num_text w) \<Longrightarrow> is_digit c"
  unfolding num_text_def by (rule dec_of_nat_digit)

lemma num_text_plain: "CHR '','' \<notin> set (num_text w)" "CHR ''+'' \<notin> set (num_text w)"
  using num_text_chars by (auto simp: is_digit_def dest!: num_text_chars)

lemma parse_num_text [simp]: "parse_u64 (num_text w) = Some w"
  by (simp add: num_text_def)

lemma join_nums_plain: "CHR '','' \<notin> set (join ''+'' (map num_text ps))"
proof (induction ps rule: induct_list012)
  case (3 x y zs)
  then show ?case using num_text_plain by simp
qed (simp_all add: num_text_plain)

lemma parse_privileges_nums: "parse_privileges (map num_text ps) = Ret ps"
  by (induction ps) simp_all

lemma join_nums_empty: "join ''+'' (map num_text ps) = [] \<longleftrightarrow> ps = []"
  by (cases ps rule: remdups_adj.cases) (simp_all add: num_text_def)

lemma privileges_roundtrip: "privilege_list (join ''+'' (map num_text ps)) = Ret ps"
proof (cases "ps = []")
  case False
  have "split_char CHR ''+'' (join ''+'' (map num_text ps)) = map num_text ps"
    using False num_text_plain by (intro split_char_join) auto
  with False show ?thesis by (simp add: privilege_list_def join_nums_empty parse_privileges_nums)
qed (simp add: privilege_list_def)

lemma ticket_split:
  assumes "CHR '','' \<notin> set sg"
  shows "split_char CHR '','' (ticket_signed_text t @ CHR '','' # sg) = ticket_fields t @ [sg]"
proof -
  have "ticket_signed_text t @ CHR '','' # sg = join '','' (ticket_fields t @ [sg])"
    by (simp add: ticket_signed_text_def ticket_fields_def)
  moreover have "\<forall>x \<in> set (ticket_fields t @ [sg]). CHR '','' \<notin> set x"
    using assms num_text_plain join_nums_plain by (simp add: ticket_fields_def)
  ultimately show ?thesis using split_char_join [of "ticket_fields t @ [sg]" "CHR '',''"] by simp
qed

lemma parse_u32_one: "parse_u32 ''1'' = Some 1"
proof -
  have "dec_of_nat (Suc 0) = ''1''" by (subst dec_of_nat.simps) (simp add: digit_char_def char_of_eq_iff)
  then show ?thesis using parse_u32_dec [of 1] by simp
qed

lemma ticket_parse_text:
  assumes "CHR '','' \<notin> set sg" and "b64url sg = Some s" and "tk_version t = 1"
  shows "ticket_parse b64url (ticket_signed_text t @ CHR '','' # sg) = Ret (t, s)"
proof -
  have "ticket_fields t @ [sg] = [''1'', num_text (tk_user_id t), num_text (tk_client_id t),
      num_text (tk_validity_start t), num_text (tk_ttl t), join ''+'' (map num_text (tk_privileges t)), sg]"
    by (simp add: ticket_fields_def)
  with assms privileges_roundtrip [of "tk_privileges t"] show ?thesis
    by (cases t) (simp add: ticket_parse_def ticket_split parse_u32_one Let_def)
qed

text \<open>
  C24: The checks of a ticket are exact: the text of a ticket with its signature field is accepted, as
  that ticket, exactly when the signature verifies over the text of the first six fields and the
  time lies from the start of validity up to, not including, start plus lifetime (which must fit 64
  bits).
\<close>

theorem ticket_verify_exact:
  assumes "CHR '','' \<notin> set sg" and "b64url sg = Some s" and "tk_version t = 1"
    and "unat (tk_validity_start t) + unat (tk_ttl t) < 2 ^ 64"
  shows "ticket_verify checked b64url verify now (ticket_signed_text t @ CHR '','' # sg) key = Ret t
    \<longleftrightarrow> verify key (ticket_signed_text t) s = Inr True
      \<and> unat (tk_validity_start t) \<le> unat now
      \<and> unat now < unat (tk_validity_start t) + unat (tk_ttl t)"
proof -
  have sum: "unat (tk_validity_start t + tk_ttl t) = unat (tk_validity_start t) + unat (tk_ttl t)"
    using assms(4) by (simp add: unat_plus_if_size word_size)
  have data: "rsplit_once CHR '','' (ticket_signed_text t @ CHR '','' # sg) = Some (ticket_signed_text t, sg)"
    using assms(1) by simp
  show ?thesis
    using assms(4) sum
    by (auto simp: ticket_verify_def ticket_parse_text [where b64url = b64url, OF assms(1-3)] data add_u64_def
        word_less_nat_alt word_le_nat_alt split: sum.split)
qed

lemma ticket_parse_version: "ticket_parse b64url s = Ret (t, sg) \<Longrightarrow> tk_version t = 1"
  by (auto simp: ticket_parse_def Let_def bind_outcome_eq_Ret split: if_splits)

text \<open>
  Whatever text is accepted, its ticket is signed and current: the decoded signature verifies over
  everything before the last comma of the text, the version is 1, the validity has begun and has
  not ended.
\<close>

theorem accepted_ticket_is_signed:
  assumes "ticket_verify checked b64url verify now ticket_str key = Ret t"
  shows "\<exists>data rest s. ticket_str = data @ CHR '','' # rest \<and> CHR '','' \<notin> set rest
    \<and> ticket_parse b64url ticket_str = Ret (t, s) \<and> verify key data s = Inr True
    \<and> tk_version t = 1 \<and> tk_validity_start t \<le> now \<and> now < tk_validity_start t + tk_ttl t"
proof -
  from assms obtain t' s data where p': "ticket_parse b64url ticket_str = Ret (t', s)"
    and d: "map_option fst (rsplit_once CHR '','' ticket_str) = Some data"
    and rest: "(case verify key data s of
       Inl e \<Rightarrow> Err (VerifierError e)
     | Inr valid \<Rightarrow>
         if \<not> valid then Err SignatureMismatch
         else if now < tk_validity_start t' then Err (NotYetValid (tk_validity_start t'))
         else
           bind_outcome (add_u64 checked (tk_validity_start t') (tk_ttl t')) (\<lambda>expiry.
             if expiry \<le> now then Err TicketExpired else Ret t')) = Ret t"
    unfolding ticket_verify_def bind_outcome_eq_Ret split_paired_Ex prod.case ok_or_eq_Ret by blast
  from rest have "t' = t" and v: "verify key data s = Inr True" "tk_validity_start t \<le> now"
      "now < tk_validity_start t + tk_ttl t"
    by (auto simp: bind_outcome_eq_Ret add_u64_def not_less not_le split: sum.splits if_splits)
  with p' have p: "ticket_parse b64url ticket_str = Ret (t, s)" by simp
  from d obtain rest where "rsplit_once CHR '','' ticket_str = Some (data, rest)" by auto
  from rsplit_once_Some [OF this] p v ticket_parse_version [OF p] show ?thesis by blast
qed

subsection \<open>Witnesses\<close>

definition sample_ticket :: ticket where
  "sample_ticket =
     \<lparr>tk_version = 1, tk_user_id = 42, tk_client_id = 100, tk_validity_start = 1000, tk_ttl = 3600,
      tk_privileges = [1, 2]\<rparr>"

lemma ticket_verify_exact_witness:
  "ticket_verify True Some (\<lambda>k d s. Inr (s = ''sig'')) 1200 (ticket_signed_text sample_ticket @ CHR '','' # ''sig'') ''pem''
      = Ret sample_ticket
    \<longleftrightarrow> (\<lambda>k d s. Inr (s = ''sig'')) ''pem'' (ticket_signed_text sample_ticket) ''sig'' = (Inr True :: string + bool)
      \<and> unat (tk_validity_start sample_ticket) \<le> unat (1200 :: u64)
      \<and> unat (1200 :: u64) < unat (tk_validity_start sample_ticket) + unat (tk_ttl sample_ticket)"
  by (rule ticket_verify_exact) (simp_all add: sample_ticket_def)

lemma sample_ticket_accepted:
  "ticket_verify True Some (\<lambda>k d s. Inr (s = ''sig'')) 1200 (ticket_signed_text sample_ticket @ CHR '','' # ''sig'') ''pem''
     = Ret sample_ticket"
proof -
  have "ticket_parse Some (ticket_signed_text sample_ticket @ CHR '','' # ''sig'') = Ret (sample_ticket, ''sig'')"
    by (rule ticket_parse_text) (simp_all add: sample_ticket_def)
  then show ?thesis
    by (simp add: ticket_verify_def add_u64_def) (simp add: sample_ticket_def)
qed

lemma accepted_ticket_is_signed_witness:
  "\<exists>data rest s. ticket_signed_text sample_ticket @ CHR '','' # ''sig'' = data @ CHR '','' # rest
    \<and> CHR '','' \<notin> set rest
    \<and> ticket_parse Some (ticket_signed_text sample_ticket @ CHR '','' # ''sig'') = Ret (sample_ticket, s)
    \<and> (\<lambda>k d s. Inr (s = ''sig'')) ''pem'' data s = (Inr True :: string + bool)
    \<and> tk_version sample_ticket = 1 \<and> tk_validity_start sample_ticket \<le> 1200
    \<and> 1200 < tk_validity_start sample_ticket + tk_ttl sample_ticket"
  by (rule accepted_ticket_is_signed [OF sample_ticket_accepted])

end
