(* ===== verification/Authz.thy ===== *)
theory Authz
  imports Ticket Server_Connection
begin

text \<open>
  Authorization, \<open>scamp/src/auth/authz.rs\<close>: the table of the privileges an action requires, its cache,
  and the check of a ticket against it.  The JSON decoder, the request to the Auth service, the
  ticket verifier (with its key and clock) and the clock of the cache are arguments.
\<close>

definition AUTHZ_CACHE_TTL_SECS :: u64 where
  "AUTHZ_CACHE_TTL_SECS = 300"

type_synonym authz_table = "string \<rightharpoonup> u64 list"

record cached_table =
  ct_table :: authz_table
  ct_expires_at :: u64

text \<open>The source: a fixed table, or the Auth service with the table cached so far.\<close>

datatype authz_source = Static authz_table | Remote "cached_table option"

datatype authz_error =
    AuthzTicket ticket_error
  | AuthzRequest string
  | AuthzIo
  | AuthzBadJson
  | AuthzNotObject
  | MissingPrivilege u64 string
  | UnconfiguredAction string

fun authz_error_text :: "authz_error \<Rightarrow> string" where
  "authz_error_text (AuthzTicket e) = ticket_error_text e"
| "authz_error_text (AuthzRequest e) = e"
| "authz_error_text AuthzIo = []"
| "authz_error_text AuthzBadJson = ''Invalid authz table JSON: ''"
| "authz_error_text AuthzNotObject = ''Authz table is not a JSON object''"
| "authz_error_text (MissingPrivilege p a) =
     ''Missing required privilege '' @ dec_of_nat (unat p) @ '' for action '' @ a"
| "authz_error_text (UnconfiguredAction a) = ''Unconfigured action: '' @ a"

subsection \<open>The table\<close>

text \<open>The members of the object in the order of its iteration.\<close>

fun insert_privileges :: "(string \<times> json) list \<Rightarrow> authz_table \<Rightarrow> authz_table" where
  "insert_privileges [] m = m"
| "insert_privileges ((key, v) # obj) m =
     insert_privileges obj
       (if prefix ''_'' key then m
        else case as_array v of
          None \<Rightarrow> m
        | Some arr \<Rightarrow> m(to_lowercase key \<mapsto> List.map_filter as_u64 arr))"

definition parse_authz_response :: "(bytes \<Rightarrow> json option) \<Rightarrow> bytes \<Rightarrow> (authz_error, authz_table) outcome" where
  "parse_authz_response dec body =
     bind_outcome (ok_or AuthzBadJson (dec body)) (\<lambda>json.
     bind_outcome (ok_or AuthzNotObject (as_object json)) (\<lambda>obj.
       Ret (insert_privileges obj Map.empty)))"

text \<open>
  One look at the table: \<open>fetch\<close> is the answer of the Auth service, should it be asked, \<open>now\<close> the
  time of the look at the cache and \<open>later\<close> the time after the fetch.
\<close>

definition get_table ::
  "(bytes \<Rightarrow> json option) \<Rightarrow> string + bytes \<Rightarrow> u64 \<Rightarrow> u64 \<Rightarrow> authz_source
   \<Rightarrow> (authz_error, authz_table) outcome \<times> authz_source" where
  "get_table dec fetch now later source =
     (case source of
        Static table \<Rightarrow> (Ret table, source)
      | Remote cached \<Rightarrow>
          (case (case cached of None \<Rightarrow> None
                 | Some ct \<Rightarrow> if now < ct_expires_at ct then Some (ct_table ct) else None) of
             Some table \<Rightarrow> (Ret table, source)
           | None \<Rightarrow>
               (case fetch of
                  Inl e \<Rightarrow> (Err (AuthzRequest e), source)
                | Inr body \<Rightarrow>
                    (case parse_authz_response dec body of
                       Ret table \<Rightarrow>
                         (Ret table, Remote (Some \<lparr>ct_table = table,
                            ct_expires_at = later + AUTHZ_CACHE_TTL_SECS\<rparr>))
                     | Err e \<Rightarrow> (Err e, source)
                     | Panic \<Rightarrow> (Panic, source)))))"

subsection \<open>The check\<close>

fun missing_privilege :: "ticket \<Rightarrow> u64 list \<Rightarrow> u64 option" where
  "missing_privilege t [] = None"
| "missing_privilege t (p # ps) = (if \<not> has_privilege t p then Some p else missing_privilege t ps)"

definition check_table :: "authz_table \<Rightarrow> string \<Rightarrow> ticket \<Rightarrow> (authz_error, ticket) outcome" where
  "check_table table act t =
     (case table (to_lowercase act) of
        Some required \<Rightarrow>
          (case missing_privilege t required of
             Some p \<Rightarrow> Err (MissingPrivilege p act)
           | None \<Rightarrow> Ret t)
      | None \<Rightarrow> Err (UnconfiguredAction act))"

fun map_ticket_err :: "(ticket_error, 'a) outcome \<Rightarrow> (authz_error, 'a) outcome" where
  "map_ticket_err (Ret x) = Ret x"
| "map_ticket_err (Err e) = Err (AuthzTicket e)"
| "map_ticket_err Panic = Panic"

definition check_access ::
  "(string \<Rightarrow> (ticket_error, ticket) outcome) \<Rightarrow> (bytes \<Rightarrow> json option) \<Rightarrow> string + bytes \<Rightarrow> u64 \<Rightarrow> u64
   \<Rightarrow> string \<Rightarrow> string \<Rightarrow> authz_source \<Rightarrow> (authz_error, ticket) outcome \<times> authz_source" where
  "check_access verify dec fetch now later act ticket_str source =
     (case map_ticket_err (verify ticket_str) of
        Ret t \<Rightarrow>
          (case get_table dec fetch now later source of
             (res, source') \<Rightarrow> (bind_outcome res (\<lambda>table. check_table table act t), source'))
      | Err e \<Rightarrow> (Err e, source)
      | Panic \<Rightarrow> (Panic, source))"

definition checker_from_file ::
  "(bytes \<Rightarrow> json option) \<Rightarrow> bytes option \<Rightarrow> (authz_error, authz_source) outcome" where
  "checker_from_file dec content =
     bind_outcome (ok_or AuthzIo content) (\<lambda>c.
     bind_outcome (parse_authz_response dec c) (\<lambda>table. Ret (Static table)))"

text \<open>The other constructors of a checker.\<close>

definition checker_from_requester :: authz_source where
  "checker_from_requester = Remote None"

definition checker_from_table :: "authz_table \<Rightarrow> authz_source" where
  "checker_from_table table = Static table"

subsection \<open>Access is exact\<close>

lemma missing_privilege_None: "missing_privilege t ps = None \<longleftrightarrow> set ps \<subseteq> set (tk_privileges t)"
  by (induction ps) (auto simp: has_privilege_def)

lemma missing_privilege_Some:
  "missing_privilege t ps = Some p \<Longrightarrow> p \<in> set ps \<and> p \<notin> set (tk_privileges t)"
  by (induction ps) (auto simp: has_privilege_def split: if_splits)

lemma check_table_Ret:
  "check_table table act t = Ret t'
     \<longleftrightarrow> t' = t \<and> (\<exists>required. table (to_lowercase act) = Some required \<and> set required \<subseteq> set (tk_privileges t))"
  by (auto simp: check_table_def missing_privilege_None dest: missing_privilege_Some
      split: option.splits)

lemma check_access_static:
  "check_access verify dec fetch now later act ticket_str (Static table)
     = (bind_outcome (map_ticket_err (verify ticket_str)) (\<lambda>t. check_table table act t), Static table)"
  by (cases "map_ticket_err (verify ticket_str)") (simp_all add: check_access_def get_table_def)

lemma map_ticket_err_Ret [simp]: "map_ticket_err v = Ret t \<longleftrightarrow> v = Ret t"
  by (cases v) simp_all


text \<open>
  A fetched table is used for five minutes and no longer: after a fetch at a given time every look
  before that time plus 300 seconds gives the same table without asking the service, and a later
  look asks again.
\<close>

theorem authz_cache_window:
  assumes "parse_authz_response dec body = Ret table" and "unat later + 300 < 2 ^ 64"
  shows "fst (get_table dec (Inr body) now later (Remote None)) = Ret table
    \<and> (if unat now' < unat later + 300
       then get_table dec fetch now' later' (snd (get_table dec (Inr body) now later (Remote None)))
         = (Ret table, snd (get_table dec (Inr body) now later (Remote None)))
       else fst (get_table dec fetch now' later' (snd (get_table dec (Inr body) now later (Remote None))))
         = fst (get_table dec fetch now' later' (Remote None)))"
proof -
  let ?source = "Remote (Some \<lparr>ct_table = table, ct_expires_at = later + 300\<rparr>)"
  have source: "get_table dec (Inr body) now later (Remote None) = (Ret table, ?source)"
    using assms(1) by (simp add: get_table_def AUTHZ_CACHE_TTL_SECS_def)
  have "unat (later + 300) = unat later + 300"
    using assms(2) by (simp add: unat_plus_if_size word_size)
  then have "now' < later + 300 \<longleftrightarrow> unat now' < unat later + 300" by (simp add: word_less_nat_alt)
  then show ?thesis
    unfolding source by (auto simp: get_table_def split: sum.split outcome.split)
qed

text \<open>
  A requirement that is not a whole number is dropped, not denied: an action whose privileges are
  all given in another form (by name, say) is granted to every ticket that verifies.
\<close>

theorem non_integer_privileges_dropped:
  assumes "dec body = Some (JObj [(act, JArr vs)])" and "List.map_filter as_u64 vs = []"
    and "\<not> prefix ''_'' act" and "verify ticket_str = Ret t"
  shows "\<exists>table. parse_authz_response dec body = Ret table
    \<and> fst (check_access verify dec fetch now later act ticket_str (Static table)) = Ret t"
  using assms by (simp add: parse_authz_response_def check_access_static check_table_def)

subsection \<open>Witnesses\<close>

lemma authz_cache_window_witness:
  "fst (get_table (\<lambda>b. Some (JObj [])) (Inr ''{}'') 0 1000 (Remote None)) = Ret Map.empty
    \<and> (if unat (1299 :: u64) < unat (1000 :: u64) + 300
       then get_table (\<lambda>b. Some (JObj [])) (Inl ''down'') 1299 1299
           (snd (get_table (\<lambda>b. Some (JObj [])) (Inr ''{}'') 0 1000 (Remote None)))
         = (Ret Map.empty, snd (get_table (\<lambda>b. Some (JObj [])) (Inr ''{}'') 0 1000 (Remote None)))
       else fst (get_table (\<lambda>b. Some (JObj [])) (Inl ''down'') 1299 1299
           (snd (get_table (\<lambda>b. Some (JObj [])) (Inr ''{}'') 0 1000 (Remote None))))
         = fst (get_table (\<lambda>b. Some (JObj [])) (Inl ''down'') 1299 1299 (Remote None)))"
  by (rule authz_cache_window) (simp_all add: parse_authz_response_def)

lemma non_integer_privileges_dropped_witness:
  "\<exists>table. parse_authz_response (\<lambda>b. Some (JObj [(''order.add'', JArr [JStr ''admin''])])) ''{}'' = Ret table
    \<and> fst (check_access (\<lambda>s. Ret sample_ticket) (\<lambda>b. Some (JObj [(''order.add'', JArr [JStr ''admin''])]))
        (Inl ''down'') 0 0 ''order.add'' ''ticket'' (Static table)) = Ret sample_ticket"
  by (rule non_integer_privileges_dropped [where vs = "[JStr ''admin'']"]) (simp_all add: List.map_filter_simps)

subsection \<open>The check of the service\<close>

text \<open>
  The check \<open>dispatch_and_reply\<close> makes with a fixed table, for the time of each call.  A panic of the
  verifier (overflow in a checked build) ends the task of the connection before any handler runs; it
  counts as a denial here.
\<close>

definition table_check ::
  "(nat \<Rightarrow> string \<Rightarrow> (ticket_error, ticket) outcome) \<Rightarrow> authz_table \<Rightarrow> nat \<Rightarrow> string \<Rightarrow> string \<Rightarrow> string option" where
  "table_check verify table k act ticket_str =
     (case fst (check_access (verify k) (\<lambda>b. None) (Inl []) 0 0 act ticket_str (Static table)) of
        Ret t \<Rightarrow> None
      | Err e \<Rightarrow> Some (authz_error_text e)
      | Panic \<Rightarrow> Some [])"

lemma table_check_grants:
  "table_check verify table k act ticket_str = None
     \<longleftrightarrow> (\<exists>t required. verify k ticket_str = Ret t \<and> table (to_lowercase act) = Some required
          \<and> set required \<subseteq> set (tk_privileges t))"
proof -
  let ?res = "fst (check_access (verify k) (\<lambda>b. None) (Inl []) 0 0 act ticket_str (Static table))"
  have "table_check verify table k act ticket_str = None \<longleftrightarrow> (\<exists>t. ?res = Ret t)"
    by (cases ?res) (simp_all add: table_check_def)
  moreover have "(\<exists>t. ?res = Ret t) \<longleftrightarrow> (\<exists>t required. verify k ticket_str = Ret t
      \<and> table (to_lowercase act) = Some required \<and> set required \<subseteq> set (tk_privileges t))"
    by (auto simp: check_access_static bind_outcome_eq_Ret check_table_Ret)
  ultimately show ?thesis by simp
qed

end
