(* ===== verification/Remote_Authz.thy ===== *)
theory Remote_Authz
  imports Authz Requester
begin

text \<open>
  The checker of \<open>scamp/src/auth/authz.rs\<close> with its production source: the requester that fetches the table
  from the Auth service.  A check threads the cached table and the requester's state; the request itself is
  the requester's model.
\<close>

subsection \<open>The table from the Auth service\<close>

definition authz_fetch :: "requester_env \<Rightarrow> string \<Rightarrow> requester \<Rightarrow> (string + bytes) \<times> requester" where
  "authz_fetch env sector q =
     (case requester_request env sector ''Auth.getAuthzTable'' 1 ''{}'' q of
        (Inl e, q') \<Rightarrow> (Inl (requester_error_text e), q')
      | (Inr resp, q') \<Rightarrow> (Inr (rs_body resp), q'))"

definition cache_serves :: "u64 \<Rightarrow> authz_source \<Rightarrow> bool" where
  "cache_serves now source =
     (case source of
        Static table \<Rightarrow> True
      | Remote None \<Rightarrow> False
      | Remote (Some ct) \<Rightarrow> now < ct_expires_at ct)"

text \<open>One check with the requester: it is asked only after the ticket verified and when the cache does not serve.\<close>

definition check_access_remote ::
  "(string \<Rightarrow> (ticket_error, ticket) outcome) \<Rightarrow> (bytes \<Rightarrow> json option) \<Rightarrow> requester_env \<Rightarrow> string
   \<Rightarrow> u64 \<Rightarrow> u64 \<Rightarrow> string \<Rightarrow> string \<Rightarrow> authz_source \<times> requester
   \<Rightarrow> (authz_error, ticket) outcome \<times> authz_source \<times> requester" where
  "check_access_remote verify dec env sector now later act ticket_str = (\<lambda>(source, q).
     (case verify ticket_str of
        Ret t \<Rightarrow>
          (let (fetch, q') = (if cache_serves now source then (Inl [], q) else authz_fetch env sector q);
               (res, source') = check_access verify dec fetch now later act ticket_str source
           in (res, source', q'))
      | _ \<Rightarrow>
          (let (res, source') = check_access verify dec (Inl []) now later act ticket_str source
           in (res, source', q))))"

lemma served_from_cache:
  assumes "now < ct_expires_at ct"
  shows "check_access_remote verify dec env sector now later act ticket_str (Remote (Some ct), q)
    = (fst (check_access verify dec (Inl []) now later act ticket_str (Static (ct_table ct))), Remote (Some ct), q)"
  using assms
  by (simp add: check_access_remote_def cache_serves_def check_access_def get_table_def split: outcome.split)

lemma static_check: "fst (check_access verify dec fetch now later act ticket_str (Static table))
    = bind_outcome (map_ticket_err (verify ticket_str)) (\<lambda>t. check_table table act t)"
  by (simp add: check_access_static)

text \<open>
  C31: Checks against the Auth service.  After a check has fetched the table, every check of the next
  300 seconds, of any action and ticket, is the check against exactly that table, without another
  request and without changing the cache; the first check gives the same answer, and after the 300
  seconds the cache serves no more.
\<close>

theorem remote_checks_window:
  assumes request: "requester_request env sector ''Auth.getAuthzTable'' 1 ''{}'' q = (Inr resp, q')"
    and parsed: "parse_authz_response dec (rs_body resp) = Ret table"
    and verified: "verify ticket_str = Ret t" and bound: "unat later + 300 < 2 ^ 64"
  shows "\<exists>source. check_access_remote verify dec env sector now later act ticket_str (checker_from_requester, q)
      = (check_table table act t, source, q')
    \<and> (\<forall>now'. cache_serves now' source \<longleftrightarrow> unat now' < unat later + 300)
    \<and> (\<forall>now' later' act' ticket_str'. unat now' < unat later + 300 \<longrightarrow>
         check_access_remote verify dec env sector now' later' act' ticket_str' (source, q')
           = (fst (check_access verify dec (Inl []) now' later' act' ticket_str' (checker_from_table table)), source, q'))"
proof -
  let ?ct = "\<lparr>ct_table = table, ct_expires_at = later + 300\<rparr>"
  have first: "check_access_remote verify dec env sector now later act ticket_str (checker_from_requester, q)
      = (check_table table act t, Remote (Some ?ct), q')"
    by (simp add: check_access_remote_def checker_from_requester_def cache_serves_def authz_fetch_def request verified
        check_access_def get_table_def parsed AUTHZ_CACHE_TTL_SECS_def)
  have "unat (later + 300) = unat later + 300"
    using bound by (simp add: unat_plus_if_size word_size)
  then have expires: "now' < later + 300 \<longleftrightarrow> unat now' < unat later + 300" for now'
    by (simp add: word_less_nat_alt)
  then have "cache_serves now' (Remote (Some ?ct)) \<longleftrightarrow> unat now' < unat later + 300" for now'
    by (simp add: cache_serves_def)
  moreover have "check_access_remote verify dec env sector now' later' act' ticket_str' (Remote (Some ?ct), q')
      = (fst (check_access verify dec (Inl []) now' later' act' ticket_str' (checker_from_table table)),
         Remote (Some ?ct), q')" if "unat now' < unat later + 300" for now' later' act' ticket_str'
    using served_from_cache [of now' ?ct] that expires [of now'] by (simp add: checker_from_table_def)
  ultimately show ?thesis using first by blast
qed

subsection \<open>A witness\<close>

definition auth_requester :: requester where
  "auth_requester =
     \<lparr>rq_registry = registry_empty\<lparr>rg_actions :=
        [(make_index_key ''main'' ''Auth.getAuthzTable'' 1, [twin_entry ''auth:a''])]\<rparr>,
      rq_lookups = 0, rq_calls = []\<rparr>"

definition table_response :: scamp_response where
  "table_response = \<lparr>rs_header = default_header, rs_body = ''{}'', rs_error = None\<rparr>"

definition auth_env :: requester_env where
  "auth_env = \<lparr>re_client = (\<lambda>i c. Inr table_response), re_now = (\<lambda>i. 1000), re_rand = (\<lambda>i. 0)\<rparr>"

definition auth_dec :: "bytes \<Rightarrow> json option" where
  "auth_dec b = Some (JObj [(''order.add'', JArr [JInt 1])])"

lemma auth_requested:
  "requester_request auth_env ''main'' ''Auth.getAuthzTable'' 1 ''{}'' auth_requester
     = (Inr table_response, auth_requester\<lparr>rq_lookups := 1,
         rq_calls := [call_of (default_opts ''main'' ''Auth.getAuthzTable'' 1 ''{}'') (twin_entry ''auth:a'')]\<rparr>)"
proof -
  have "find_action_with_envelope (rq_registry auth_requester) 1000 0 ''main'' ''Auth.getAuthzTable'' 1 ''json''
      = Some (twin_entry ''auth:a'')"
    by (simp add: find_action_with_envelope_def auth_requester_def find_actions_def make_index_key_def
        routable_def twin_entry_def order_action_def sample_body_def pick_healthy_def entry_failed_def is_failed_def
        registry_empty_def)
  then show ?thesis
    by (simp add: requester_request_def request_with_opts_def dispatch_once_def lookup_service_def default_opts_def
        auth_env_def table_response_def dispatch_failed_def default_header_def Let_def)
      (simp add: auth_requester_def)
qed

lemma remote_checks_window_witness:
  "\<exists>source. check_access_remote (\<lambda>s. Ret sample_ticket) auth_dec auth_env ''main'' 1000 1000 ''order.add'' ''ticket''
        (checker_from_requester, auth_requester)
      = (check_table [''order.add'' \<mapsto> [1]] ''order.add'' sample_ticket, source,
         auth_requester\<lparr>rq_lookups := 1,
         rq_calls := [call_of (default_opts ''main'' ''Auth.getAuthzTable'' 1 ''{}'') (twin_entry ''auth:a'')]\<rparr>)
    \<and> cache_serves 1299 source \<and> \<not> cache_serves 1300 source"
proof -
  have lower: "to_lowercase ''order.add'' = ''order.add''" by code_simp
  have parsed: "parse_authz_response auth_dec (rs_body table_response) = Ret [''order.add'' \<mapsto> [1]]"
    by (simp add: parse_authz_response_def auth_dec_def List.map_filter_simps lower)
  have verified: "(\<lambda>s. Ret sample_ticket) ''ticket'' = (Ret sample_ticket :: (ticket_error, ticket) outcome)" by simp
  have "unat (1000 :: u64) + 300 < 2 ^ 64" by simp
  from remote_checks_window [where verify = "\<lambda>s. Ret sample_ticket", OF auth_requested parsed verified this, of 1000 "''order.add''"]
  obtain source where first: "check_access_remote (\<lambda>s. Ret sample_ticket) auth_dec auth_env ''main'' 1000 1000 ''order.add'' ''ticket''
        (checker_from_requester, auth_requester)
      = (check_table [''order.add'' \<mapsto> [1]] ''order.add'' sample_ticket, source,
         auth_requester\<lparr>rq_lookups := 1,
         rq_calls := [call_of (default_opts ''main'' ''Auth.getAuthzTable'' 1 ''{}'') (twin_entry ''auth:a'')]\<rparr>)"
    and window: "\<And>now'. cache_serves now' source \<longleftrightarrow> unat now' < unat (1000 :: u64) + 300" by blast
  have "cache_serves 1299 source \<and> \<not> cache_serves 1300 source" unfolding window by simp
  with first show ?thesis by blast
qed

end
