(* ===== verification/Service_Runtime.thy ===== *)
theory Service_Runtime
  imports Announcement_Packet Bus_Info "HOL-Library.AList"
begin

text \<open>
  The service around its connections: \<open>scamp/src/service/listener.rs\<close> (registration of actions, bind,
  the accept loop and the drain at shutdown), \<open>service/mod.rs\<close> and \<open>service/multicast.rs\<close> (the
  announcer).  Sockets, TLS, random numbers, time and compression are arguments: an accept loop is
  given by the events it sees, the announcer by what its sleeps end with.
\<close>

subsection \<open>Actions (listener.rs)\<close>

text \<open>
  Listener and TLS acceptor are set together with the address and have no state of their own here;
  the authorization checker is part of the environment of a connection.  \<open>HashMap\<close> iterates in an
  order of its own; the order of \<open>sv_actions\<close> is one of them.
\<close>

record scamp_service =
  sv_name :: string
  sv_identity :: string
  sv_sector :: string
  sv_envelopes :: "string list"
  sv_actions :: "(string \<times> registered_action) list"
  sv_address :: "(ipv4 \<times> nat) option"
  sv_key_pem :: "bytes option"
  sv_cert_pem :: "bytes option"
  sv_announce_ip :: "string option"

text \<open>\<open>rand_text\<close> is the base64 text of 18 random bytes.\<close>

definition service_new :: "string \<Rightarrow> string \<Rightarrow> string \<Rightarrow> scamp_service" where
  "service_new rand_text name sector =
     \<lparr>sv_name = name, sv_identity = name @ '':'' @ rand_text, sv_sector = sector, sv_envelopes = [''json''],
      sv_actions = [], sv_address = None, sv_key_pem = None, sv_cert_pem = None, sv_announce_ip = None\<rparr>"

definition registration_key :: "string \<Rightarrow> i32 \<Rightarrow> string" where
  "registration_key act version = to_lowercase act @ ''.v'' @ dec_of_int (sint version)"

definition register_with_flags ::
  "string \<Rightarrow> i32 \<Rightarrow> string list \<Rightarrow> action_handler \<Rightarrow> scamp_service \<Rightarrow> scamp_service" where
  "register_with_flags act version flags handler s =
     s\<lparr>sv_actions := AList.update (registration_key act version)
         \<lparr>ra_name = act, ra_version = version, ra_flags = flags, ra_handler = handler\<rparr> (sv_actions s)\<rparr>"

definition register_action :: "string \<Rightarrow> i32 \<Rightarrow> action_handler \<Rightarrow> scamp_service \<Rightarrow> scamp_service" where
  "register_action act version handler s = register_with_flags act version [] handler s"

definition set_announce_ip :: "string \<Rightarrow> scamp_service \<Rightarrow> scamp_service" where
  "set_announce_ip ip s = s\<lparr>sv_announce_ip := Some ip\<rparr>"

definition actions_snapshot :: "scamp_service \<Rightarrow> action_info list" where
  "actions_snapshot s = map (\<lambda>(key, ra). action_info_of ra) (sv_actions s)"

definition service_uri :: "scamp_service \<Rightarrow> string option" where
  "service_uri s =
     (case sv_address s of
        None \<Rightarrow> None
      | Some (ip, port) \<Rightarrow>
          (let host = (case sv_announce_ip s of Some a \<Rightarrow> a | None \<Rightarrow> ip_text ip) in
           Some (''beepish+tls://'' @ host @ '':'' @ dec_of_nat port)))"

subsection \<open>Binding (listener.rs)\<close>

definition FIRST_PORT :: nat where "FIRST_PORT = 30100"
definition LAST_PORT :: nat where "LAST_PORT = 30399"
definition BIND_TRIES :: nat where "BIND_TRIES = 20"

definition random_port :: "nat \<Rightarrow> nat" where
  "random_port r = FIRST_PORT + r mod (LAST_PORT - FIRST_PORT + 1)"

text \<open>\<open>rands\<close> are the random numbers, \<open>free i port\<close> whether try number \<open>i\<close> can bind the port.\<close>

fun bind_loop :: "(nat \<Rightarrow> nat) \<Rightarrow> (nat \<Rightarrow> nat \<Rightarrow> bool) \<Rightarrow> nat \<Rightarrow> nat \<Rightarrow> nat option" where
  "bind_loop rands free i 0 = None"
| "bind_loop rands free i (Suc n) =
     (let port = random_port (rands i) in
      if free i port then Some port else bind_loop rands free (Suc i) n)"

datatype bind_error = BadIdentity | BindFailed nat

text \<open>\<open>identity_ok\<close>: key and certificate form a TLS identity.\<close>

definition bind_pem ::
  "(bytes \<Rightarrow> bytes \<Rightarrow> bool) \<Rightarrow> (nat \<Rightarrow> nat) \<Rightarrow> (nat \<Rightarrow> nat \<Rightarrow> bool) \<Rightarrow> bytes \<Rightarrow> bytes \<Rightarrow> ipv4
   \<Rightarrow> scamp_service \<Rightarrow> (bind_error + unit) \<times> scamp_service" where
  "bind_pem identity_ok rands free key_pem cert_pem bind_ip s =
     (let s' = s\<lparr>sv_key_pem := Some key_pem, sv_cert_pem := Some cert_pem\<rparr> in
      if \<not> identity_ok cert_pem key_pem then (Inl BadIdentity, s')
      else case bind_loop rands free 0 BIND_TRIES of
        None \<Rightarrow> (Inl (BindFailed BIND_TRIES), s')
      | Some port \<Rightarrow> (Inr (), s'\<lparr>sv_address := Some (bind_ip, port)\<rparr>))"

subsection \<open>Announcements of the service (listener.rs, mod.rs)\<close>

datatype service_error = NoKey | NoCert | NotBound | BuildFailed build_error

text \<open>\<open>sign\<close> takes the private key.\<close>

definition announce_raw ::
  "(json \<Rightarrow> string option) \<Rightarrow> (bytes \<Rightarrow> bytes \<Rightarrow> bytes option) \<Rightarrow> (bytes \<Rightarrow> string) \<Rightarrow> f64
   \<Rightarrow> string \<Rightarrow> string \<Rightarrow> string list \<Rightarrow> string \<Rightarrow> action_info list \<Rightarrow> bytes \<Rightarrow> bytes \<Rightarrow> bool
   \<Rightarrow> (build_error, bytes) outcome" where
  "announce_raw print sign b64 timestamp identity sector envelopes uri actions key_pem cert_pem active =
     build_announcement_packet print (sign key_pem) b64 identity sector envelopes uri actions cert_pem 1 5
       active timestamp"

definition service_announcement ::
  "(json \<Rightarrow> string option) \<Rightarrow> (bytes \<Rightarrow> bytes \<Rightarrow> bytes option) \<Rightarrow> (bytes \<Rightarrow> string) \<Rightarrow> f64
   \<Rightarrow> scamp_service \<Rightarrow> bool \<Rightarrow> (service_error, bytes) outcome" where
  "service_announcement print sign b64 timestamp s active =
     bind_outcome (ok_or NoKey (sv_key_pem s)) (\<lambda>key_pem.
     bind_outcome (ok_or NoCert (sv_cert_pem s)) (\<lambda>cert_pem.
     bind_outcome (ok_or NotBound (service_uri s)) (\<lambda>uri.
       map_err BuildFailed
         (build_announcement_packet print (sign key_pem) b64 (sv_identity s) (sv_sector s) (sv_envelopes s)
            uri (actions_snapshot s) cert_pem 1 5 active timestamp))))"

subsection \<open>The accept loop and the drain (listener.rs)\<close>

text \<open>
  What the loop sees: a connection, a failed accept, the end of a connection's task, a change of the
  shutdown channel with the value read.
\<close>

datatype run_event = Accepted | AcceptFailed | ConnectionEnded | ShutdownChanged bool

datatype run_status = Accepting | RunFailed | ShuttingDown

fun accept_loop :: "run_event list \<Rightarrow> nat \<Rightarrow> run_status \<times> nat \<times> run_event list" where
  "accept_loop [] active = (Accepting, active, [])"
| "accept_loop (Accepted # es) active = accept_loop es (Suc active)"
| "accept_loop (AcceptFailed # es) active = (RunFailed, active, es)"
| "accept_loop (ConnectionEnded # es) active = accept_loop es (active - 1)"
| "accept_loop (ShutdownChanged v # es) active =
     (if v then (ShuttingDown, active, es) else accept_loop es active)"

text \<open>The environment of every accepted connection: the actions as they were when \<open>run\<close> started.\<close>

definition connection_env ::
  "(nat \<Rightarrow> bool) \<Rightarrow> (nat \<Rightarrow> string \<Rightarrow> string \<Rightarrow> string option) option \<Rightarrow> scamp_service \<Rightarrow> server_env" where
  "connection_env write authz s =
     \<lparr>env_write = write, env_actions = map_of (sv_actions s), env_check = authz\<rparr>"

definition DRAIN_MILLIS :: nat where "DRAIN_MILLIS = 30000"

text \<open>
  The drain looks at the number of active connections and the time since shutdown, over and over;
  its result is the number of connections given up, None while the looks have not run out.
\<close>

fun drain_loop :: "(nat \<times> nat) list \<Rightarrow> nat option" where
  "drain_loop [] = None"
| "drain_loop ((active, elapsed) # looks) =
     (if 0 < active \<and> elapsed < DRAIN_MILLIS then drain_loop looks else Some active)"

definition drain_connections :: "nat \<Rightarrow> (nat \<times> nat) list \<Rightarrow> nat option" where
  "drain_connections active looks = (if 0 < active then drain_loop looks else Some 0)"

text \<open>The whole run: its end is an error, or the number of connections given up.\<close>

datatype run_result = RunNotBound | RunUnfinished | RunError | RunOk nat

definition run_service :: "scamp_service \<Rightarrow> run_event list \<Rightarrow> (nat \<times> nat) list \<Rightarrow> run_result" where
  "run_service s events looks =
     (case sv_address s of
        None \<Rightarrow> RunNotBound
      | Some addr \<Rightarrow>
          (case accept_loop events 0 of
             (Accepting, active, rest) \<Rightarrow> RunUnfinished
           | (RunFailed, active, rest) \<Rightarrow> RunError
           | (ShuttingDown, active, rest) \<Rightarrow>
               (case drain_connections active looks of
                  None \<Rightarrow> RunUnfinished
                | Some n \<Rightarrow> RunOk n)))"

subsection \<open>The announcer (multicast.rs)\<close>

definition SHUTDOWN_ROUNDS :: nat where "SHUTDOWN_ROUNDS = 10"

record multicast_config =
  mc_group :: ipv4
  mc_port :: nat
  mc_interface :: ipv4
  mc_interval_secs :: u32

definition multicast_new :: "ipv4 \<Rightarrow> multicast_config" where
  "multicast_new interface =
     \<lparr>mc_group = (239, 63, 248, 106), mc_port = 5555, mc_interface = interface, mc_interval_secs = 5\<rparr>"

definition multicast_from_config :: "conf_element \<Rightarrow> ipv4 \<Rightarrow> multicast_config" where
  "multicast_from_config config interface =
     \<lparr>mc_group = unwrap_or (239, 63, 248, 106)
        (and_then (and_then (config_get Some config ''discovery.multicast_address'') id) parse_ip),
      mc_port = unwrap_or 5555 (and_then (config_get (parse_uint u16_max) config ''discovery.port'') id),
      mc_interface = interface, mc_interval_secs = 5\<rparr>"

text \<open>What ends the sleep after an announcement: the time, or a change of the shutdown channel.\<close>

datatype sleep_end = Elapsed | SignalChanged bool

datatype announcer_status = Announcing | AnnouncerFailed | AnnouncerDone

text \<open>\<open>build k active\<close> is the result of the \<open>k\<close>th packet build; sends that fail are only logged.\<close>

fun farewell_rounds ::
  "(nat \<Rightarrow> bool \<Rightarrow> bytes option) \<Rightarrow> (bytes \<Rightarrow> bytes option) \<Rightarrow> nat \<Rightarrow> nat \<Rightarrow> bytes list
   \<Rightarrow> announcer_status \<times> bytes list" where
  "farewell_rounds build compress k 0 sent = (AnnouncerDone, sent)"
| "farewell_rounds build compress k (Suc n) sent =
     (case build k False of
        None \<Rightarrow> (AnnouncerFailed, sent)
      | Some packet \<Rightarrow>
          (case compress packet of
             None \<Rightarrow> (AnnouncerFailed, sent)
           | Some d \<Rightarrow> farewell_rounds build compress (Suc k) n (sent @ [d])))"

fun announce_loop ::
  "(nat \<Rightarrow> bool \<Rightarrow> bytes option) \<Rightarrow> (bytes \<Rightarrow> bytes option) \<Rightarrow> nat \<Rightarrow> sleep_end list \<Rightarrow> bytes list
   \<Rightarrow> announcer_status \<times> bytes list" where
  "announce_loop build compress k ends sent =
     (case build k True of
        None \<Rightarrow> (AnnouncerFailed, sent)
      | Some packet \<Rightarrow>
          (case compress packet of
             None \<Rightarrow> (AnnouncerFailed, sent)
           | Some d \<Rightarrow>
               (case ends of
                  [] \<Rightarrow> (Announcing, sent @ [d])
                | SignalChanged True # rest \<Rightarrow>
                    farewell_rounds build compress (Suc k) SHUTDOWN_ROUNDS (sent @ [d])
                | e # rest \<Rightarrow> announce_loop build compress (Suc k) rest (sent @ [d]))))"

definition run_announcer ::
  "(nat \<Rightarrow> bool \<Rightarrow> bytes option) \<Rightarrow> (bytes \<Rightarrow> bytes option) \<Rightarrow> sleep_end list
   \<Rightarrow> announcer_status \<times> bytes list" where
  "run_announcer build compress ends = announce_loop build compress 0 ends []"

text \<open>Binding sets key, certificate and address only.\<close>

lemma bind_pem_fields:
  assumes "bind_pem identity_ok rands free key_pem cert_pem ip s = (Inr (), s')"
  shows "sv_sector s' = sv_sector s \<and> sv_envelopes s' = sv_envelopes s \<and> sv_identity s' = sv_identity s
    \<and> sv_actions s' = sv_actions s \<and> sv_key_pem s' = Some key_pem \<and> sv_cert_pem s' = Some cert_pem"
  using assms by (auto simp: bind_pem_def Let_def split: if_splits option.splits)

end
