(* ===== verification/Observer.thy ===== *)
theory Observer
  imports Registry Bus_Info
begin

text \<open>
  The multicast observer, \<open>scamp/src/discovery/observer.rs\<close>: datagrams are decompressed, parsed and
  injected into the registry.  Decompression, the packet parser and the checks of the registry are
  arguments; the socket is the list of what its receives and the shutdown channel give.
\<close>

record observer_config =
  ob_group :: ipv4
  ob_port :: nat
  ob_interface :: ipv4

definition observer_from_config :: "conf_element \<Rightarrow> ipv4 \<Rightarrow> observer_config" where
  "observer_from_config config interface =
     \<lparr>ob_group = unwrap_or (239, 63, 248, 106)
        (and_then (and_then (config_get Some config ''discovery.multicast_address'') id) parse_ip),
      ob_port = unwrap_or 5555 (and_then (config_get (parse_uint u16_max) config ''discovery.port'') id),
      ob_interface = interface\<rparr>"

datatype observe_error = DecompressFailed | DatagramUtf8 | DatagramPacket packet_error

definition skip_marker :: "bytes \<Rightarrow> bytes" where
  "skip_marker d =
     (case d of
        c # cs \<Rightarrow> if c = CHR ''R'' \<or> c = CHR ''D'' then cs else d
      | [] \<Rightarrow> d)"

definition process_datagram ::
  "(bytes \<Rightarrow> bytes option) \<Rightarrow> (string \<Rightarrow> (packet_error, announcement_packet) outcome)
   \<Rightarrow> (announcement_packet \<Rightarrow> registry \<Rightarrow> registry) \<Rightarrow> bytes \<Rightarrow> registry
   \<Rightarrow> (observe_error, registry) outcome" where
  "process_datagram decompress parse_packet inject d r =
     bind_outcome (ok_or DecompressFailed (decompress (skip_marker d))) (\<lambda>bs.
     bind_outcome (ok_or DatagramUtf8 (from_utf8 bs)) (\<lambda>text.
     bind_outcome (map_err DatagramPacket (parse_packet text)) (\<lambda>packet.
       Ret (inject packet r))))"

datatype observer_event = Datagram bytes | ReceiveFailed | ObserverSignal bool

datatype observer_status = Observing | ObserverFailed | ObserverStopped | ObserverPanicked

text \<open>The loop: errors of a datagram are logged, a panic ends the task, \<open>inject k\<close> is the injection
  at the time of the \<open>k\<close>th event.\<close>

fun observer_loop ::
  "(bytes \<Rightarrow> bytes option) \<Rightarrow> (string \<Rightarrow> (packet_error, announcement_packet) outcome)
   \<Rightarrow> (nat \<Rightarrow> announcement_packet \<Rightarrow> registry \<Rightarrow> registry) \<Rightarrow> nat \<Rightarrow> observer_event list \<Rightarrow> registry
   \<Rightarrow> observer_status \<times> registry" where
  "observer_loop decompress parse_packet inject k [] r = (Observing, r)"
| "observer_loop decompress parse_packet inject k (Datagram d # es) r =
     (case process_datagram decompress parse_packet (inject k) d r of
        Ret r' \<Rightarrow> observer_loop decompress parse_packet inject (Suc k) es r'
      | Err e \<Rightarrow> observer_loop decompress parse_packet inject (Suc k) es r
      | Panic \<Rightarrow> (ObserverPanicked, r))"
| "observer_loop decompress parse_packet inject k (ReceiveFailed # es) r = (ObserverFailed, r)"
| "observer_loop decompress parse_packet inject k (ObserverSignal v # es) r =
     (if v then (ObserverStopped, r) else observer_loop decompress parse_packet inject (Suc k) es r)"

definition run_observer ::
  "(bytes \<Rightarrow> bytes option) \<Rightarrow> (string \<Rightarrow> (packet_error, announcement_packet) outcome)
   \<Rightarrow> (nat \<Rightarrow> announcement_packet \<Rightarrow> registry \<Rightarrow> registry) \<Rightarrow> observer_event list \<Rightarrow> registry
   \<Rightarrow> observer_status \<times> registry" where
  "run_observer decompress parse_packet inject es r = observer_loop decompress parse_packet inject 0 es r"

text \<open>A datagram that does not parse leaves the registry as it is.\<close>

lemma observer_skips:
  "process_datagram decompress parse_packet (inject k) d r = Err e
   \<Longrightarrow> observer_loop decompress parse_packet inject k (Datagram d # es) r
     = observer_loop decompress parse_packet inject (Suc k) es r"
  by simp

end
