(* ===== verification/Rpc_Support.thy ===== *)
theory Rpc_Support
  imports Service_Runtime "HOL-Library.Multiset"
begin

text \<open>
  Handlers found at start: \<open>scamp/src/rpc_support.rs\<close> (names from module paths, replies from handler
  results, registration of everything found) and the attribute \<open>#[rpc]\<close> of \<open>scamp-macros/src/lib.rs\<close>.
  The syntax tree the macro reads is given by its attribute entries; the token stream it writes is
  given by the registration it stands for.  Letters are ASCII.
\<close>

subsection \<open>Names\<close>

fun capitalize_parts :: "bool \<Rightarrow> string \<Rightarrow> string" where
  "capitalize_parts next_upper [] = []"
| "capitalize_parts next_upper (c # cs) =
     (if c = CHR ''_'' then capitalize_parts True cs
      else if next_upper then upper_char c # capitalize_parts False cs
      else c # capitalize_parts False cs)"

definition snake_to_pascal :: "string \<Rightarrow> string" where
  "snake_to_pascal s = capitalize_parts True s"

definition snake_to_camel :: "string \<Rightarrow> string" where
  "snake_to_camel s = capitalize_parts False s"

fun position_of :: "'a \<Rightarrow> 'a list \<Rightarrow> nat option" where
  "position_of x [] = None"
| "position_of x (y # ys) = (if y = x then Some 0 else map_option Suc (position_of x ys))"

definition module_path_to_namespace :: "string \<Rightarrow> string" where
  "module_path_to_namespace module_path =
     (let segments = split_str ''::'' module_path;
          start = (case position_of ''actions'' segments of Some i \<Rightarrow> i + 1 | None \<Rightarrow> 1)
      in join ''.'' (map snake_to_pascal (drop start segments)))"

subsection \<open>Replies\<close>

text \<open>What a handler may return: a reply, bytes, text, JSON (None when it does not serialize), a result.\<close>

datatype handler_value =
    ReplyValue scamp_reply
  | BytesValue bytes
  | TextValue string
  | JsonValue "string + bytes"
  | OkValue handler_value
  | ErrValue string

fun into_scamp_reply :: "handler_value \<Rightarrow> scamp_reply" where
  "into_scamp_reply (ReplyValue r) = r"
| "into_scamp_reply (BytesValue b) = reply_ok b"
| "into_scamp_reply (TextValue s) = reply_ok s"
| "into_scamp_reply (JsonValue (Inr b)) = reply_ok b"
| "into_scamp_reply (JsonValue (Inl e)) = reply_error e ''serialization_error''"
| "into_scamp_reply (OkValue v) = into_scamp_reply v"
| "into_scamp_reply (ErrValue e) = reply_error e ''error''"

record request_context =
  rc_action :: string
  rc_version :: i32
  rc_client_id :: i64
  rc_ticket :: string
  rc_identifying_token :: string
  rc_body :: bytes

definition context_of :: "scamp_request \<Rightarrow> request_context" where
  "context_of req =
     \<lparr>rc_action = req_action req, rc_version = req_version req, rc_client_id = req_client_id req,
      rc_ticket = req_ticket req, rc_identifying_token = req_identifying_token req, rc_body = req_body req\<rparr>"

subsection \<open>The attribute (scamp-macros)\<close>

text \<open>The value of a name-value entry: a string literal, an integer literal (None when it is not a u32).\<close>

datatype meta_value = LitStr string | LitInt "u32 option" | OtherLit

text \<open>An entry whose path is not a single identifier carries None.\<close>

datatype rpc_meta = MetaPath "string option" | MetaNameValue "string option" meta_value | MetaOther

fun meta_str_value :: "meta_value \<Rightarrow> string option" where
  "meta_str_value (LitStr s) = Some s"
| "meta_str_value v = None"

fun meta_int_value :: "meta_value \<Rightarrow> u32 option" where
  "meta_int_value (LitInt i) = i"
| "meta_int_value v = None"

record rpc_args =
  rpc_version :: u32
  rpc_flags :: "string list"
  rpc_namespace :: "string option"
  rpc_sector :: "string option"
  rpc_name :: "string option"

definition rpc_default :: rpc_args where
  "rpc_default =
     \<lparr>rpc_version = 1, rpc_flags = [], rpc_namespace = None, rpc_sector = None, rpc_name = None\<rparr>"

fun rpc_meta_step :: "rpc_args \<Rightarrow> rpc_meta \<Rightarrow> rpc_args" where
  "rpc_meta_step a (MetaPath (Some ident)) = a\<lparr>rpc_flags := rpc_flags a @ [ident]\<rparr>"
| "rpc_meta_step a (MetaNameValue (Some key) v) =
     (if key = ''version'' then
        (case meta_int_value v of Some i \<Rightarrow> a\<lparr>rpc_version := i\<rparr> | None \<Rightarrow> a)
      else if key = ''timeout'' then
        (case meta_int_value v of
           Some t \<Rightarrow> a\<lparr>rpc_flags := rpc_flags a @ [''t'' @ dec_of_nat (unat t)]\<rparr>
         | None \<Rightarrow> a)
      else if key = ''namespace'' then a\<lparr>rpc_namespace := meta_str_value v\<rparr>
      else if key = ''sector'' then a\<lparr>rpc_sector := meta_str_value v\<rparr>
      else if key = ''name'' then a\<lparr>rpc_name := meta_str_value v\<rparr>
      else a)"
| "rpc_meta_step a m = a"

record rpc_registration =
  rr_namespace :: string
  rr_wire_name :: string
  rr_version :: u32
  rr_flags :: "string list"
  rr_sector :: "string option"
  rr_handler :: "nat \<Rightarrow> request_context \<Rightarrow> handler_value"

definition rpc_attribute ::
  "string \<Rightarrow> string \<Rightarrow> rpc_meta list \<Rightarrow> (nat \<Rightarrow> request_context \<Rightarrow> handler_value) \<Rightarrow> rpc_registration" where
  "rpc_attribute module_path fn_name metas handler =
     (let a = foldl rpc_meta_step rpc_default metas in
      \<lparr>rr_namespace = (case rpc_namespace a of
          Some ns \<Rightarrow> ns | None \<Rightarrow> module_path_to_namespace module_path),
       rr_wire_name = (case rpc_name a of Some n \<Rightarrow> n | None \<Rightarrow> snake_to_camel fn_name),
       rr_version = rpc_version a, rr_flags = rpc_flags a, rr_sector = rpc_sector a,
       rr_handler = handler\<rparr>)"

subsection \<open>Registration\<close>

definition registration_path :: "rpc_registration \<Rightarrow> string" where
  "registration_path reg =
     (if rr_namespace reg = [] then rr_wire_name reg
      else rr_namespace reg @ ''.'' @ rr_wire_name reg)"

definition registration_sector :: "string \<Rightarrow> rpc_registration \<Rightarrow> string" where
  "registration_sector default_sector reg =
     (case rr_sector reg of Some s \<Rightarrow> s | None \<Rightarrow> default_sector)"

definition register_discovered :: "scamp_service \<Rightarrow> rpc_registration \<Rightarrow> scamp_service" where
  "register_discovered s reg =
     register_with_flags (registration_path reg) (ucast (rr_version reg)) (rr_flags reg)
       (\<lambda>k req. into_scamp_reply (rr_handler reg k (context_of req))) s"

text \<open>The sector of a registration goes to the log only.\<close>

definition auto_discover_into :: "rpc_registration list \<Rightarrow> scamp_service \<Rightarrow> scamp_service" where
  "auto_discover_into regs s = foldl register_discovered s regs"

subsection \<open>Found handlers are registered\<close>

definition key_of_registration :: "rpc_registration \<Rightarrow> string" where
  "key_of_registration reg = registration_key (registration_path reg) (ucast (rr_version reg))"

lemma auto_discover_lookup:
  "map_of (sv_actions (auto_discover_into regs s)) key
     = (case find (\<lambda>reg. key_of_registration reg = key) (rev regs) of
          Some reg \<Rightarrow> Some \<lparr>ra_name = registration_path reg, ra_version = ucast (rr_version reg),
              ra_flags = rr_flags reg,
              ra_handler = (\<lambda>k req. into_scamp_reply (rr_handler reg k (context_of req)))\<rparr>
        | None \<Rightarrow> map_of (sv_actions s) key)"
proof (induction regs arbitrary: s rule: rev_induct)
  case (snoc reg regs)
  have "auto_discover_into (regs @ [reg]) s = register_discovered (auto_discover_into regs s) reg"
    by (simp add: auto_discover_into_def)
  then show ?case
    using snoc.IH [of s]
    by (auto simp: register_discovered_def register_with_flags_def key_of_registration_def update_conv)
qed (simp add: auto_discover_into_def)

lemma auto_discover_sector [simp]: "sv_sector (auto_discover_into regs s) = sv_sector s"
proof (induction regs arbitrary: s)
  case (Cons reg regs)
  then show ?case by (simp add: auto_discover_into_def register_discovered_def register_with_flags_def)
qed (simp add: auto_discover_into_def)

subsection \<open>The order of discovery does not matter\<close>

text \<open>\<open>inventory\<close> gives the registrations in an order of its own.\<close>

lemma find_distinct_key:
  assumes "distinct (map f xs)" and "x \<in> set xs"
  shows "find (\<lambda>y. f y = f x) xs = Some x"
  using assms by (induction xs) auto

lemma find_key_permuted:
  assumes "distinct (map f xs)" and "mset xs = mset ys"
  shows "find (\<lambda>y. f y = k) xs = find (\<lambda>y. f y = k) ys"
proof -
  have set: "set ys = set xs" using assms(2) by (metis set_mset_mset)
  have ys: "distinct (map f ys)" using assms by (metis mset_eq_imp_distinct_iff mset_map)
  show ?thesis
  proof (cases "\<exists>x \<in> set xs. f x = k")
    case True
    then obtain x where "x \<in> set xs" "f x = k" by blast
    with find_distinct_key [OF assms(1)] find_distinct_key [OF ys] set show ?thesis by auto
  next
    case False
    with set have "find (\<lambda>y. f y = k) xs = None" "find (\<lambda>y. f y = k) ys = None"
      by (auto simp: find_None_iff)
    then show ?thesis by simp
  qed
qed

lemma auto_discover_permuted:
  assumes "distinct (map key_of_registration regs)" and "mset regs = mset regs'"
  shows "map_of (sv_actions (auto_discover_into regs s)) = map_of (sv_actions (auto_discover_into regs' s))"
proof
  fix key
  have "distinct (map key_of_registration (rev regs))" using assms(1) by (simp flip: rev_map)
  from find_key_permuted [OF this, of "rev regs'" key] assms(2)
  show "map_of (sv_actions (auto_discover_into regs s)) key
      = map_of (sv_actions (auto_discover_into regs' s)) key"
    by (simp add: auto_discover_lookup)
qed

subsection \<open>The body of a request\<close>

text \<open>
  \<open>RequestContext::json\<close>: \<open>dec\<close> reads the text, \<open>de\<close> the type asked for; \<open>json_err\<close> is the text of the
  library's error for the body.
\<close>

definition context_json ::
  "(bytes \<Rightarrow> json option) \<Rightarrow> (bytes \<Rightarrow> string) \<Rightarrow> (json \<Rightarrow> 'a option) \<Rightarrow> request_context \<Rightarrow> string + 'a" where
  "context_json dec json_err de ctx =
     (case Option.bind (dec (rc_body ctx)) de of
        None \<Rightarrow> Inl (json_err (rc_body ctx))
      | Some x \<Rightarrow> Inr x)"

text \<open>A found handler sees the request as it came and its value becomes the reply.\<close>

lemma discovered_handler:
  assumes "distinct (map key_of_registration regs)" and "reg \<in> set regs"
  shows "map_of (sv_actions (auto_discover_into regs s)) (key_of_registration reg)
    = Some \<lparr>ra_name = registration_path reg, ra_version = ucast (rr_version reg), ra_flags = rr_flags reg,
        ra_handler = (\<lambda>k req. into_scamp_reply (rr_handler reg k (context_of req)))\<rparr>"
proof -
  have "distinct (map key_of_registration (rev regs))" using assms(1) by (simp flip: rev_map)
  from find_distinct_key [OF this, of reg] assms(2) show ?thesis by (simp add: auto_discover_lookup)
qed

end
