(* ===== verification/Discovery.thy ===== *)
theory Discovery
  imports Service_Runtime Observer Requester
begin

text \<open>
  Discovery from end to end: the announcer of a service (listener.rs, announce.rs, multicast.rs) against
  the observer and the registry of a requester (observer.rs, packet.rs, service_registry.rs).  What
  the libraries of both sides promise is stated once, as \<open>exchange_laws\<close>: JSON that is printed reads
  back (its time stamp possibly as another double), zlib data decompresses, signatures verify.
\<close>

subsection \<open>Entries under a key\<close>

definition entries_at :: "(string \<times> action_entry list) list \<Rightarrow> string \<Rightarrow> action_entry set" where
  "entries_at m k = (case map_of m k of None \<Rightarrow> {} | Some es \<Rightarrow> set es)"

lemma entries_at_push: "entries_at (push_entry k e m) j = entries_at m j \<union> (if j = k then {e} else {})"
  by (auto simp: entries_at_def push_entry_lookup split: option.split)

lemma entries_at_aliases: "entries_at m j \<subseteq> entries_at (push_aliases info params a fs m) j"
proof (induction fs arbitrary: m)
  case (Cons f fs)
  have "entries_at m j \<subseteq> entries_at (case f of
      CrudOp op \<Rightarrow> push_entry (make_crud_alias_key (a_sector a) (namespace_of (a_path a)) (crud_tag op) (a_version a))
              \<lparr>ae_action = a, ae_info = info, ae_params = params, ae_authorized = True\<rparr> m
    | _ \<Rightarrow> m) j" by (auto simp: entries_at_push split: flag.split)
  also note Cons.IH
  finally show ?case by simp
qed simp

lemma entries_at_actions_mono: "entries_at m j \<subseteq> entries_at (push_actions auth fp info params as m) j"
proof (induction as arbitrary: m)
  case (Cons a as)
  have "entries_at m j \<subseteq> entries_at (push_entry (make_index_key (a_sector a) (a_path a) (a_version a))
      (primary_entry auth fp info params a) m) j" by (simp add: entries_at_push)
  also note entries_at_aliases
  also note Cons.IH
  finally show ?case by (simp add: primary_entry_def)
qed simp

lemma entries_at_actions:
  assumes "a \<in> set as"
  shows "primary_entry auth fp info params a
    \<in> entries_at (push_actions auth fp info params as m) (make_index_key (a_sector a) (a_path a) (a_version a))"
  using assms
proof (induction as arbitrary: m)
  case (Cons b as)
  show ?case
  proof (cases "a \<in> set as")
    case True
    then show ?thesis using Cons.IH by simp
  next
    case False
    with Cons.prems have "b = a" by simp
    let ?k = "make_index_key (a_sector a) (a_path a) (a_version a)"
    let ?m = "push_entry ?k (primary_entry auth fp info params a) m"
    have "primary_entry auth fp info params a \<in> entries_at ?m ?k" by (simp add: entries_at_push)
    with entries_at_aliases entries_at_actions_mono show ?thesis
      unfolding \<open>b = a\<close> by (fastforce simp: primary_entry_def)
  qed
qed simp

lemma candidate_found:
  assumes "candidate r sector act version envelope e"
  shows "find_action_with_envelope r now rand sector act version envelope \<noteq> None"
proof -
  from assms obtain es where "map_of (rg_actions r) (to_lowercase (make_index_key sector act version)) = Some es"
    and "e \<in> set (filter (\<lambda>e. routable e \<and> envelope \<in> set (a_envelopes (ae_action e))) es)"
    by (auto simp: candidate_def find_actions_def routable_def split: option.splits)
  then show ?thesis
    using pick_healthy_exact [of r now rand "filter (\<lambda>e. routable e \<and> envelope \<in> set (a_envelopes (ae_action e))) es"]
    by (auto simp: find_action_with_envelope_def simp del: set_filter filter_False)
qed

text \<open>What an accepted announcement leaves in the registry.\<close>

lemma injected_candidate:
  assumes valid: "sig_valid p" "\<not> expired rnd now (ab_params (pk_body p))"
    and fresh: "\<forall>t. rg_seen r (dedup_key (fingerprint_of (ab_info (pk_body p))) (si_identity (ab_info (pk_body p)))) = Some t
      \<longrightarrow> t < ap_timestamp (ab_params (pk_body p))"
    and a: "a \<in> set (ab_actions (pk_body p))" "auth (fingerprint_of (ab_info (pk_body p))) (a_sector a) (a_path a)"
    and "0 < ap_weight (ab_params (pk_body p))" "envelope \<in> set (a_envelopes a)"
  shows "candidate (inject_packet rnd sig_valid auth now p r) (a_sector a) (a_path a) (a_version a) envelope
    (primary_entry auth (fingerprint_of (ab_info (pk_body p))) (ab_info (pk_body p)) (ab_params (pk_body p)) a)"
proof -
  let ?info = "ab_info (pk_body p)" and ?params = "ab_params (pk_body p)" and ?fp = "fingerprint_of (ab_info (pk_body p))"
  let ?e = "primary_entry auth ?fp ?info ?params a" and ?k = "make_index_key (a_sector a) (a_path a) (a_version a)"
  obtain m where "rg_actions (inject_packet rnd sig_valid auth now p r)
      = push_actions auth ?fp ?info ?params (ab_actions (pk_body p)) m"
  proof (cases "rg_seen r (dedup_key ?fp (si_identity ?info))")
    case None
    then show thesis using valid by (intro that) (simp add: inject_packet_def Let_def)
  next
    case (Some t)
    with fresh have "\<not> ap_timestamp ?params \<le> t" by auto
    with Some show thesis using valid by (intro that) (simp add: inject_packet_def Let_def)
  qed
  then have "?e \<in> entries_at (rg_actions (inject_packet rnd sig_valid auth now p r)) ?k"
    using entries_at_actions [OF a(1)] by simp
  moreover have "to_lowercase ?k = ?k" by (simp add: make_index_key_def)
  ultimately show ?thesis
    using assms(5-7) by (auto simp: candidate_def find_actions_def entries_at_def primary_entry_def split: option.splits)
qed

subsection \<open>What the libraries promise\<close>

definition json_laws :: "(json \<Rightarrow> string option) \<Rightarrow> (string \<Rightarrow> json option) \<Rightarrow> (f64 \<Rightarrow> f64) \<Rightarrow> bool" where
  "json_laws print dec reread \<longleftrightarrow>
     (\<forall>identity sector envelopes uri ais weight interval active ts j.
        print (JArr (announcement_json identity sector envelopes uri ais weight interval active ts)) = Some j
        \<longrightarrow> CHR 0x0A \<notin> set j \<and> utf8_valid j
          \<and> dec j = Some (JArr (announcement_json identity sector envelopes uri ais weight interval active (reread ts))))"

definition zlib_laws :: "(bytes \<Rightarrow> bytes option) \<Rightarrow> (bytes \<Rightarrow> bytes option) \<Rightarrow> bool" where
  "zlib_laws compress decompress \<longleftrightarrow>
     (\<forall>t d. compress t = Some d \<longrightarrow> d \<noteq> [] \<and> hd d = CHR ''x'' \<and> decompress d = Some t)"

definition announcement_parser ::
  "(string \<Rightarrow> bool) \<Rightarrow> (string \<Rightarrow> json option) \<Rightarrow> (string \<Rightarrow> bytes option) \<Rightarrow> (bytes \<Rightarrow> bytes) \<Rightarrow> string
   \<Rightarrow> (packet_error, announcement_packet) outcome" where
  "announcement_parser digits_re dec b64_decode sha1 text =
     packet_of_text (parse_announcement_body digits_re dec) (cert_pem_fingerprint b64_decode sha1) text"

lemma zlib_received:
  assumes "zlib_laws compress decompress" and "compress t = Some d"
  shows "decompress (skip_marker d) = Some t"
proof -
  have "d \<noteq> []" "hd d = CHR ''x''" "decompress d = Some t" using assms by (auto simp: zlib_laws_def)
  then show ?thesis by (cases d) (auto simp: skip_marker_def)
qed

lemma is_ascii_wrap_from: "is_ascii (wrap_from width i s) = is_ascii s"
  by (induction s arbitrary: i) auto

lemma token_is_ascii: "\<forall>c \<in> set s. is_token_char c \<Longrightarrow> is_ascii s"
  by (auto simp: is_ascii_def is_token_char_def)

subsection \<open>The text of an announcement\<close>

lemma announced_text:
  assumes "service_announcement print sign b64 ts s active = Ret text"
    and "sv_key_pem s = Some key" and "sv_cert_pem s = Some (cert @ newline)"
  shows "\<exists>uri json sg. utf8_valid (cert @ newline) \<and> service_uri s = Some uri
    \<and> print (JArr (announcement_json (sv_identity s) (sv_sector s) (sv_envelopes s) uri (actions_snapshot s)
        1 5 active ts)) = Some json
    \<and> sign key json = Some sg
    \<and> text = json @ blank_line @ cert @ blank_line @ wrap_from 76 0 (b64 sg) @ blank_line"
proof -
  obtain uri where uri: "service_uri s = Some uri"
    using assms by (cases "service_uri s") (auto simp: service_announcement_def)
  have valid: "utf8_valid (cert @ newline)"
    using assms uri by (cases "utf8_valid (cert @ newline)")
      (auto simp: service_announcement_def build_announcement_packet_def from_utf8_def)
  let ?v = "JArr (announcement_json (sv_identity s) (sv_sector s) (sv_envelopes s) uri (actions_snapshot s)
        1 5 active ts)"
  obtain json where json: "print ?v = Some json"
    using assms uri valid by (cases "print ?v")
      (auto simp: service_announcement_def build_announcement_packet_def from_utf8_def)
  obtain sg where sg: "sign key json = Some sg"
    using assms uri valid json by (cases "sign key json")
      (auto simp: service_announcement_def build_announcement_packet_def from_utf8_def)
  have "from_utf8 (cert @ newline) = Some (cert @ newline)" using valid by (simp add: from_utf8_def)
  from build_announcement_text [where print = print and sign = "sign key", OF this json sg]
  have "text = json @ blank_line @ cert @ blank_line @ wrap_from 76 0 (b64 sg) @ blank_line"
    using assms uri by (simp add: service_announcement_def blank_line_def)
  with uri valid json sg show ?thesis by blast
qed

lemma announced_text_valid:
  assumes "utf8_valid json" and "utf8_valid (cert @ newline)" and "is_ascii sg"
  shows "utf8_valid (json @ blank_line @ cert @ blank_line @ wrap_from 76 0 sg @ blank_line)"
proof -
  have "utf8_valid ((cert @ newline) @ newline @ wrap_from 76 0 sg @ blank_line)"
    unfolding utf8_valid_append [OF assms(2)] using assms(3)
    by (simp add: is_ascii_wrap_from blank_line_eq newline_def)
  then have "utf8_valid (blank_line @ cert @ blank_line @ wrap_from 76 0 sg @ blank_line)"
    by (simp add: blank_line_eq newline_def)
  then show ?thesis unfolding utf8_valid_append [OF assms(1)] .
qed

text \<open>The sender and the receiver use libraries that fit together.\<close>

definition exchange_laws ::
  "(json \<Rightarrow> string option) \<Rightarrow> (string \<Rightarrow> json option) \<Rightarrow> (f64 \<Rightarrow> f64) \<Rightarrow> (bytes \<Rightarrow> bytes option)
   \<Rightarrow> (bytes \<Rightarrow> bytes option) \<Rightarrow> (bytes \<Rightarrow> bytes \<Rightarrow> bytes option) \<Rightarrow> (bytes \<Rightarrow> string)
   \<Rightarrow> (string \<Rightarrow> 'key option) \<Rightarrow> (string \<Rightarrow> bytes option) \<Rightarrow> ('key \<Rightarrow> bytes \<Rightarrow> bytes \<Rightarrow> bool option)
   \<Rightarrow> (string \<Rightarrow> bool) \<Rightarrow> scamp_service \<Rightarrow> string \<Rightarrow> bool" where
  "exchange_laws print dec reread compress decompress sign b64 public_key b64_decode verify digits_re s cert \<longleftrightarrow>
     json_laws print dec reread \<and> zlib_laws compress decompress \<and> digits_ok digits_re
     \<and> sv_cert_pem s = Some (cert @ newline) \<and> no_blank cert
     \<and> (\<exists>key. sv_key_pem s = Some key \<and> signing_laws public_key b64_decode verify (sign key) b64 cert)"

definition announced_body :: "scamp_service \<Rightarrow> string option \<Rightarrow> f64 \<Rightarrow> announcement_body" where
  "announced_body s fp ts =
     \<lparr>ab_info = \<lparr>si_identity = sv_identity s, si_uri = unwrap_or [] (service_uri s), si_fingerprint = fp\<rparr>,
      ab_params = \<lparr>ap_weight = 1, ap_interval = 5000, ap_timestamp = ts\<rparr>,
      ab_actions = announced_actions (sv_sector s) (sv_envelopes s) (actions_snapshot s)\<rparr>"

text \<open>The text an active service sends parses, verifies and carries what it announces.\<close>

lemma announced_parsed:
  assumes json_law: "json_laws print dec reread" and digits: "digits_ok digits_re"
    and cert: "sv_cert_pem s = Some (cert @ newline)" "no_blank cert"
    and key: "sv_key_pem s = Some key" "signing_laws public_key b64_decode verify (sign key) b64 cert"
    and sent: "service_announcement print sign b64 ts s True = Ret text"
    and actions: "\<forall>ai \<in> set (actions_snapshot s). 0 \<le> sint (ai_version ai)" "dotted (actions_snapshot s) \<noteq> []"
  shows "\<exists>p. utf8_valid text \<and> announcement_parser digits_re dec b64_decode sha1 text = Ret p
    \<and> signature_is_valid (verify_rsa_sha256 public_key b64_decode verify) p
    \<and> pk_body p = announced_body s (cert_pem_fingerprint b64_decode sha1 cert) (reread ts)"
proof -
  from announced_text [OF sent key(1) cert(1)] obtain uri json sg where
    v: "utf8_valid (cert @ newline)" and uri: "service_uri s = Some uri"
    and json: "print (JArr (announcement_json (sv_identity s) (sv_sector s) (sv_envelopes s) uri
        (actions_snapshot s) 1 5 True ts)) = Some json"
    and sg: "sign key json = Some sg"
    and msg: "text = json @ blank_line @ cert @ blank_line @ wrap_from 76 0 (b64 sg) @ blank_line" by blast
  have j: "CHR 0x0A \<notin> set json" "utf8_valid json"
    "dec json = Some (JArr (announcement_json (sv_identity s) (sv_sector s) (sv_envelopes s) uri
        (actions_snapshot s) 1 5 True (reread ts)))"
    using json_law json unfolding json_laws_def by blast+
  have "is_ascii (b64 sg)" using key(2) sg unfolding signing_laws_def by (blast intro: token_is_ascii)
  with announced_text_valid j(2) v have valid: "utf8_valid text" unfolding msg by blast
  let ?fp = "cert_pem_fingerprint b64_decode sha1"
  have body: "parse_announcement_body digits_re dec json = Ret (announced_body s None (reread ts))"
    using body_of_announced [OF digits actions] j(3)
    by (simp add: parse_announcement_body_def announced_body_def unwrap_or_def uri)
  define p where "p = \<lparr>pk_json_blob = json,
        pk_body = (case ?fp cert of None \<Rightarrow> announced_body s None (reread ts)
          | Some fp \<Rightarrow> (announced_body s None (reread ts))\<lparr>ab_info := (ab_info (announced_body s None (reread ts)))\<lparr>si_fingerprint := Some fp\<rparr>\<rparr>),
        pk_certificate = cert, pk_signature = wrap_from 76 0 (b64 sg)\<rparr>"
  have "announcement_parser digits_re dec b64_decode sha1 text = Ret p"
    using packet_of_parts [where parse_body = "parse_announcement_body digits_re dec",
        OF no_blank_plain [OF j(1)] cert(2) signing_laws_no_blank [OF key(2) sg] body, of ?fp]
    by (simp add: announcement_parser_def msg p_def)
  moreover have "signature_is_valid (verify_rsa_sha256 public_key b64_decode verify) p"
    using signing_laws_verify [OF key(2) sg] by (simp add: signature_is_valid_def p_def)
  moreover have "pk_body p = announced_body s (?fp cert) (reread ts)"
    by (cases "?fp cert") (simp_all add: p_def announced_body_def)
  ultimately show ?thesis using valid by blast
qed

lemma received_active:
  assumes laws: "exchange_laws print dec reread compress decompress sign b64 public_key b64_decode verify digits_re s cert"
    and sent: "service_announcement print sign b64 ts s True = Ret text" "compress text = Some d"
    and actions: "\<forall>ai \<in> set (actions_snapshot s). 0 \<le> sint (ai_version ai)" "dotted (actions_snapshot s) \<noteq> []"
  shows "\<exists>p. process_datagram decompress (announcement_parser digits_re dec b64_decode sha1) inject d r = Ret (inject p r)
    \<and> signature_is_valid (verify_rsa_sha256 public_key b64_decode verify) p
    \<and> pk_body p = announced_body s (cert_pem_fingerprint b64_decode sha1 cert) (reread ts)"
proof -
  from laws obtain key where l: "json_laws print dec reread" "digits_ok digits_re"
    "sv_cert_pem s = Some (cert @ newline)" "no_blank cert" "sv_key_pem s = Some key"
    "signing_laws public_key b64_decode verify (sign key) b64 cert" and z: "zlib_laws compress decompress"
    by (auto simp: exchange_laws_def)
  obtain p where p: "utf8_valid text" "announcement_parser digits_re dec b64_decode sha1 text = Ret p"
    "signature_is_valid (verify_rsa_sha256 public_key b64_decode verify) p"
    "pk_body p = announced_body s (cert_pem_fingerprint b64_decode sha1 cert) (reread ts)"
    using announced_parsed [OF l sent(1) actions] by blast
  have "process_datagram decompress (announcement_parser digits_re dec b64_decode sha1) inject d r = Ret (inject p r)"
    using zlib_received [OF z sent(2)] p(1,2) by (simp add: process_datagram_def from_utf8_def)
  with p(3,4) show ?thesis by blast
qed

lemma received_inactive:
  assumes laws: "exchange_laws print dec reread compress decompress sign b64 public_key b64_decode verify digits_re s cert"
    and sent: "service_announcement print sign b64 ts s False = Ret text" "compress text = Some d"
  shows "process_datagram decompress (announcement_parser digits_re dec b64_decode sha1) inject d r
    = Err (DatagramPacket (ServiceInfoError (MissingField ''v3_actions'')))"
proof -
  from laws obtain key where l: "json_laws print dec reread" "zlib_laws compress decompress"
    "sv_cert_pem s = Some (cert @ newline)" "no_blank cert" "sv_key_pem s = Some key"
    and sl: "signing_laws public_key b64_decode verify (sign key) b64 cert"
    by (auto simp: exchange_laws_def)
  from announced_text [OF sent(1) l(5,3)] obtain uri json sg where
    v: "utf8_valid (cert @ newline)" and uri: "service_uri s = Some uri"
    and json: "print (JArr (announcement_json (sv_identity s) (sv_sector s) (sv_envelopes s) uri
        (actions_snapshot s) 1 5 False ts)) = Some json"
    and sg: "sign key json = Some sg"
    and msg: "text = json @ blank_line @ cert @ blank_line @ wrap_from 76 0 (b64 sg) @ blank_line" by blast
  have j: "CHR 0x0A \<notin> set json" "utf8_valid json"
    "dec json = Some (JArr (announcement_json (sv_identity s) (sv_sector s) (sv_envelopes s) uri
        (actions_snapshot s) 1 5 False (reread ts)))"
    using l(1) json unfolding json_laws_def by blast+
  have "is_ascii (b64 sg)" using sl sg unfolding signing_laws_def by (blast intro: token_is_ascii)
  with announced_text_valid j(2) v have valid: "utf8_valid text" unfolding msg by blast
  have "parse_announcement_body digits_re dec json = Err (MissingField ''v3_actions'')"
    using inactive_body_rejected [of False] j(3) by (simp add: parse_announcement_body_def)
  from packet_of_bad_body [where parse_body = "parse_announcement_body digits_re dec",
      OF no_blank_plain [OF j(1)] l(4) signing_laws_no_blank [OF sl sg] this]
  have "announcement_parser digits_re dec b64_decode sha1 text = Err (ServiceInfoError (MissingField ''v3_actions''))"
    by (simp add: announcement_parser_def msg)
  then show ?thesis
    using zlib_received [OF l(2) sent(2)] valid by (simp add: process_datagram_def from_utf8_def)
qed

subsection \<open>An announced service is found\<close>

lemma received_candidate:
  assumes laws: "exchange_laws print dec reread compress decompress sign b64 public_key b64_decode verify digits_re s cert"
    and sent: "service_announcement print sign b64 ts s True = Ret text" "compress text = Some d"
    and actions: "\<forall>ai \<in> set (actions_snapshot s). 0 \<le> sint (ai_version ai)"
      "a \<in> set (announced_actions (sv_sector s) (sv_envelopes s) (actions_snapshot s))"
    and certified: "cert_pem_fingerprint b64_decode sha1 cert = Some fp" "auth fp (sv_sector s) (a_path a)"
    and fresh: "\<not> expired rnd now (ab_params (announced_body s (Some fp) (reread ts)))"
      "\<forall>t. rg_seen r (dedup_key fp (sv_identity s)) = Some t \<longrightarrow> t < reread ts"
    and envelope: "envelope \<in> set (sv_envelopes s)"
  shows "\<exists>r'. process_datagram decompress (announcement_parser digits_re dec b64_decode sha1)
        (inject_packet rnd (signature_is_valid (verify_rsa_sha256 public_key b64_decode verify)) auth now) d r = Ret r'
    \<and> candidate r' (sv_sector s) (a_path a) (a_version a) envelope
        (primary_entry auth fp (ab_info (announced_body s (Some fp) (reread ts)))
          (ab_params (announced_body s (Some fp) (reread ts))) a)
    \<and> find_action_with_envelope r' later rand (sv_sector s) (a_path a) (a_version a) envelope \<noteq> None"
proof -
  let ?valid = "signature_is_valid (verify_rsa_sha256 public_key b64_decode verify)"
  have a: "dotted (actions_snapshot s) \<noteq> []" "a_sector a = sv_sector s" "a_envelopes a = sv_envelopes s"
    using actions(2) by (auto simp: announced_actions_def announced_action_def namespaces_def in_namespace_def Let_def)
  obtain p where p: "process_datagram decompress (announcement_parser digits_re dec b64_decode sha1)
        (inject_packet rnd ?valid auth now) d r = Ret (inject_packet rnd ?valid auth now p r)"
      "?valid p" "pk_body p = announced_body s (Some fp) (reread ts)"
    using received_active [OF laws sent actions(1) a(1), of sha1 "inject_packet rnd ?valid auth now" r]
    unfolding certified(1) by blast
  have b: "ab_info (pk_body p) = \<lparr>si_identity = sv_identity s, si_uri = unwrap_or [] (service_uri s), si_fingerprint = Some fp\<rparr>"
    "ab_params (pk_body p) = \<lparr>ap_weight = 1, ap_interval = 5000, ap_timestamp = reread ts\<rparr>"
    "ab_actions (pk_body p) = announced_actions (sv_sector s) (sv_envelopes s) (actions_snapshot s)"
    by (simp_all add: p(3) announced_body_def)
  have fp: "fingerprint_of (ab_info (pk_body p)) = fp" by (simp add: b fingerprint_of_def)
  have "candidate (inject_packet rnd ?valid auth now p r) (a_sector a) (a_path a) (a_version a) envelope
    (primary_entry auth (fingerprint_of (ab_info (pk_body p))) (ab_info (pk_body p)) (ab_params (pk_body p)) a)"
  proof (rule injected_candidate [where auth = auth])
    show "\<not> expired rnd now (ab_params (pk_body p))" using fresh(1) by (simp add: p(3))
    show "\<forall>t. rg_seen r (dedup_key (fingerprint_of (ab_info (pk_body p))) (si_identity (ab_info (pk_body p)))) = Some t
      \<longrightarrow> t < ap_timestamp (ab_params (pk_body p))" using fresh(2) by (simp add: fingerprint_of_def b)
    show "auth (fingerprint_of (ab_info (pk_body p))) (a_sector a) (a_path a)" using certified(2) a(2) by (simp add: fp)
  qed (use p(2) actions(2) a(3) envelope in \<open>simp_all add: b\<close>)
  then have c: "candidate (inject_packet rnd ?valid auth now p r) (sv_sector s) (a_path a) (a_version a) envelope
    (primary_entry auth fp (ab_info (announced_body s (Some fp) (reread ts)))
          (ab_params (announced_body s (Some fp) (reread ts))) a)" unfolding fp a(2) unfolding p(3) .
  from p(1) c candidate_found [OF c] show ?thesis by blast
qed

text \<open>
  A service that announces itself is found: the datagram an active service sends is decompressed,
  parsed and injected by the observer, and for each announced action that the authorized services
  file allows, the registry then has the entry of this service as a candidate and a lookup of the
  action finds a service.  Needed is that the announcement is not expired and newer than the last
  one of the same service, and that no version is negative.
\<close>

theorem announced_service_found:
  assumes laws: "exchange_laws print dec reread compress decompress sign b64 public_key b64_decode verify digits_re s cert"
    and sent: "service_announcement print sign b64 ts s True = Ret text" "compress text = Some d"
    and actions: "\<forall>ai \<in> set (actions_snapshot s). 0 \<le> sint (ai_version ai)"
      "a \<in> set (announced_actions (sv_sector s) (sv_envelopes s) (actions_snapshot s))"
    and certified: "cert_pem_fingerprint b64_decode sha1 cert = Some fp" "auth fp (sv_sector s) (a_path a)"
    and fresh: "\<not> expired rnd now (ab_params (announced_body s (Some fp) (reread ts)))"
      "\<forall>t. rg_seen r (dedup_key fp (sv_identity s)) = Some t \<longrightarrow> t < reread ts"
    and envelope: "envelope \<in> set (sv_envelopes s)"
  shows "\<exists>r'. process_datagram decompress (announcement_parser digits_re dec b64_decode sha1)
        (inject_packet rnd (signature_is_valid (verify_rsa_sha256 public_key b64_decode verify)) auth now) d r = Ret r'
    \<and> candidate r' (sv_sector s) (a_path a) (a_version a) envelope
        (primary_entry auth fp (ab_info (announced_body s (Some fp) (reread ts)))
          (ab_params (announced_body s (Some fp) (reread ts))) a)
    \<and> find_action_with_envelope r' later rand (sv_sector s) (a_path a) (a_version a) envelope \<noteq> None"
  using assms by (rule received_candidate)

subsection \<open>The announcer's datagrams\<close>

definition ok_value :: "('e, 'a) outcome \<Rightarrow> 'a option" where
  "ok_value x = (case x of Ret v \<Rightarrow> Some v | _ \<Rightarrow> None)"

lemma ok_value_Some [simp]: "ok_value x = Some v \<longleftrightarrow> x = Ret v"
  by (cases x) (auto simp: ok_value_def)

definition sent_by :: "(nat \<Rightarrow> bool \<Rightarrow> bytes option) \<Rightarrow> (bytes \<Rightarrow> bytes option) \<Rightarrow> bool \<Rightarrow> bytes \<Rightarrow> bool" where
  "sent_by build compress active d \<longleftrightarrow> (\<exists>k p. build k active = Some p \<and> compress p = Some d)"

lemma farewell_sends:
  "farewell_rounds build compress k n sent = (AnnouncerDone, out)
   \<Longrightarrow> \<exists>ds. out = sent @ ds \<and> length ds = n \<and> (\<forall>d \<in> set ds. sent_by build compress False d)"
proof (induction n arbitrary: k sent)
  case (Suc n)
  then obtain p d where b: "build k False = Some p" "compress p = Some d"
    by (auto split: option.splits)
  with Suc.prems have "farewell_rounds build compress (Suc k) n (sent @ [d]) = (AnnouncerDone, out)" by simp
  from Suc.IH [OF this] obtain ds where "out = sent @ d # ds" "length ds = n" "\<forall>d \<in> set ds. sent_by build compress False d"
    by auto
  moreover have "sent_by build compress False d" using b by (auto simp: sent_by_def)
  ultimately show ?case by (intro exI [of _ "d # ds"]) simp
qed simp

lemma announcer_sends:
  "announce_loop build compress k (replicate n Elapsed @ [SignalChanged True]) sent = (AnnouncerDone, out)
   \<Longrightarrow> \<exists>as ds. out = sent @ as @ ds \<and> length as = Suc n \<and> length ds = SHUTDOWN_ROUNDS
       \<and> (\<forall>d \<in> set as. sent_by build compress True d) \<and> (\<forall>d \<in> set ds. sent_by build compress False d)"
proof (induction n arbitrary: k sent)
  case 0
  then obtain p d where b: "build k True = Some p" "compress p = Some d"
    and f: "farewell_rounds build compress (Suc k) SHUTDOWN_ROUNDS (sent @ [d]) = (AnnouncerDone, out)"
    by (auto split: option.splits)
  from farewell_sends [OF f] obtain ds where "out = sent @ [d] @ ds" "length ds = SHUTDOWN_ROUNDS"
    "\<forall>d \<in> set ds. sent_by build compress False d" by auto
  moreover have "sent_by build compress True d" using b by (auto simp: sent_by_def)
  ultimately show ?case by (intro exI [of _ "[d]"] exI [of _ ds]) simp
next
  case (Suc n)
  then obtain p d where b: "build k True = Some p" "compress p = Some d"
    and f: "announce_loop build compress (Suc k) (replicate n Elapsed @ [SignalChanged True]) (sent @ [d]) = (AnnouncerDone, out)"
    by (auto split: option.splits)
  from Suc.IH [OF f] obtain as ds where "out = sent @ (d # as) @ ds" "length as = Suc n" "length ds = SHUTDOWN_ROUNDS"
    "\<forall>d \<in> set as. sent_by build compress True d" "\<forall>d \<in> set ds. sent_by build compress False d" by auto
  moreover have "sent_by build compress True d" using b by (auto simp: sent_by_def)
  ultimately show ?case by (intro exI [of _ "d # as"] exI [of _ ds]) simp
qed

lemma observer_skips_all:
  assumes "\<And>d k r. d \<in> set ds \<Longrightarrow> \<exists>e. process_datagram decompress parse_packet (inject k) d r = Err e"
  shows "observer_loop decompress parse_packet inject k (map Datagram ds) r = (Observing, r)"
  using assms
proof (induction ds arbitrary: k)
  case (Cons d ds)
  then obtain e where "process_datagram decompress parse_packet (inject k) d r = Err e" by (meson list.set_intros(1))
  with Cons show ?case by simp
qed simp


subsection \<open>An announced action is dispatched\<close>

inductive service_reachable :: "scamp_service \<Rightarrow> bool" where
  created: "service_reachable (service_new rand_text name sector)"
| registered: "service_reachable s \<Longrightarrow> service_reachable (register_with_flags act version flags handler s)"
| addressed: "service_reachable s \<Longrightarrow> service_reachable (set_announce_ip ip s)"
| bound: "service_reachable s
    \<Longrightarrow> service_reachable (snd (bind_pem identity_ok rands free key_pem cert_pem bind_ip s))"

definition service_ok :: "scamp_service \<Rightarrow> bool" where
  "service_ok s \<longleftrightarrow> distinct (map fst (sv_actions s))
     \<and> (\<forall>(key, ra) \<in> set (sv_actions s). key = registration_key (ra_name ra) (ra_version ra))"

lemma bind_keeps_actions: "sv_actions (snd (bind_pem identity_ok rands free key_pem cert_pem ip s)) = sv_actions s"
  by (simp add: bind_pem_def Let_def split: option.split)

lemma service_reachable_ok: "service_reachable s \<Longrightarrow> service_ok s"
proof (induction rule: service_reachable.induct)
  case (registered s act version flags handler)
  have "x = registration_key act version \<and> ra = \<lparr>ra_name = act, ra_version = version, ra_flags = flags, ra_handler = handler\<rparr>
      \<or> (x, ra) \<in> set (sv_actions s)"
    if "(x, ra) \<in> set (AList.update (registration_key act version)
         \<lparr>ra_name = act, ra_version = version, ra_flags = flags, ra_handler = handler\<rparr> (sv_actions s))" for x ra
  proof -
    let ?ra = "\<lparr>ra_name = act, ra_version = version, ra_flags = flags, ra_handler = handler\<rparr>"
    have "distinct (map fst (AList.update (registration_key act version) ?ra (sv_actions s)))"
      using registered.IH by (simp add: service_ok_def distinct_update)
    with that have "map_of (AList.update (registration_key act version) ?ra (sv_actions s)) x = Some ra" by simp
    then show ?thesis by (auto simp: update_conv split: if_splits dest: map_of_SomeD)
  qed
  with registered.IH show ?case
    by (fastforce simp: service_ok_def register_with_flags_def distinct_update)
next
  case (bound s identity_ok rands free key_pem cert_pem bind_ip)
  then show ?case by (simp add: service_ok_def bind_keeps_actions)
qed (simp_all add: service_ok_def service_new_def set_announce_ip_def)

lemma dotted_name: "(n, m, ai) \<in> set (dotted ais) \<Longrightarrow> ai \<in> set ais \<and> ai_name ai = n @ ''.'' @ m"
  by (induction ais) (auto split: option.splits dest: rsplit_once_Some)

lemma announced_from:
  assumes "a \<in> set (announced_actions sector envelopes ais)"
  obtains ai where "ai \<in> set ais" "a_path a = replace_char CHR ''/'' CHR ''.'' (to_lowercase (ai_name ai))"
    "a_version a = ai_version ai" "a_flags a = map flag_value (sort (filter announceable_flag (ai_flags ai)))"
proof -
  from assms obtain n m ai where "(n, m, ai) \<in> set (dotted ais)" "a = announced_action sector envelopes n (m, ai)"
    by (auto simp: announced_actions_def in_namespace_def)
  with dotted_name [of n m ai ais] show thesis
    by (intro that [of ai]) (simp_all add: announced_action_def Let_def action_path_def)
qed

lemma dotted_of:
  assumes "ai \<in> set ais" and "CHR ''.'' \<in> set (ai_name ai)"
  shows "\<exists>n m. (n, m, ai) \<in> set (dotted ais)"
  using assms by (induction ais) (auto split: option.split)

lemma announced_of:
  assumes "ai \<in> set ais" and "CHR ''.'' \<in> set (ai_name ai)"
  shows "\<exists>a \<in> set (announced_actions sector envelopes ais).
    a_path a = replace_char CHR ''/'' CHR ''.'' (to_lowercase (ai_name ai)) \<and> a_version a = ai_version ai"
proof -
  obtain n m where d: "(n, m, ai) \<in> set (dotted ais)" using dotted_of [OF assms] by blast
  then have "announced_action sector envelopes n (m, ai) \<in> set (announced_actions sector envelopes ais)"
    by (force simp: announced_actions_def in_namespace_def namespaces_def)
  moreover have "ai_name ai = n @ ''.'' @ m" using dotted_name [OF d] by blast
  ultimately show ?thesis
    by (intro bexI [of _ "announced_action sector envelopes n (m, ai)"])
      (simp_all add: announced_action_def Let_def action_path_def)
qed

lemma announced_sector: "a \<in> set (announced_actions sector envelopes ais) \<Longrightarrow> a_sector a = sector"
  by (auto simp: announced_actions_def announced_action_def Let_def)

lemma replace_char_absent: "a \<notin> set s \<Longrightarrow> replace_char a b s = s"
  by (auto simp: replace_char_def intro: map_idI)

lemma announced_registered:
  assumes "service_reachable s" and "\<forall>ai \<in> set (actions_snapshot s). CHR ''/'' \<notin> set (to_lowercase (ai_name ai))"
    and a: "a \<in> set (announced_actions (sv_sector s) (sv_envelopes s) (actions_snapshot s))"
    and h: "to_lowercase (h_action h) = a_path a" "h_version h = a_version a"
    and env: "env_actions env = map_of (sv_actions s)"
  shows "\<exists>ra. map_of (sv_actions s) (action_key h) = Some ra
    \<and> to_lowercase (ra_name ra) = a_path a \<and> ra_version ra = a_version a
    \<and> a_flags a = map flag_value (sort (filter announceable_flag (ra_flags ra)))
    \<and> run_action env \<lparr>in_header = h, in_body = body, in_received = received\<rparr> c
      = send_reply env (ra_handler ra (c_calls c) (request_of h body)) (h_request_id h) (count_call c)"
proof -
  from a obtain ai where ai: "ai \<in> set (actions_snapshot s)"
    "a_path a = replace_char CHR ''/'' CHR ''.'' (to_lowercase (ai_name ai))" "a_version a = ai_version ai"
    "a_flags a = map flag_value (sort (filter announceable_flag (ai_flags ai)))"
    by (rule announced_from)
  then have path: "a_path a = to_lowercase (ai_name ai)" using assms(2) replace_char_absent by simp
  from ai(1) obtain key ra where ra: "(key, ra) \<in> set (sv_actions s)" "ai = action_info_of ra"
    by (auto simp: actions_snapshot_def)
  have "service_ok s" using assms(1) by (rule service_reachable_ok)
  with ra(1) have "key = registration_key (ra_name ra) (ra_version ra)" "map_of (sv_actions s) key = Some ra"
    by (auto simp: service_ok_def)
  moreover have "action_key h = registration_key (ra_name ra) (ra_version ra)"
    using h path ai(3) ra(2) by (simp add: action_key_def registration_key_def action_info_of_def)
  ultimately have "map_of (sv_actions s) (action_key h) = Some ra" by simp
  then show ?thesis
    using path ai ra(2) env by (intro exI [of _ ra]) (simp add: action_info_of_def run_action_def Let_def)
qed

text \<open>
  C37: What a service announces it also serves: in every service built by registrations, binding and
  the setting of its address, a request that names the path (in any case) and the version of an
  announced action meets exactly one registered action, of this name, version and these flags, and
  is answered by its handler.  Needed is that no action name has a slash, which the announcement
  turns into a dot and the dispatch does not.
\<close>

theorem announced_action_dispatched:
  assumes "service_reachable s" and "\<forall>ai \<in> set (actions_snapshot s). CHR ''/'' \<notin> set (to_lowercase (ai_name ai))"
    and a: "a \<in> set (announced_actions (sv_sector s) (sv_envelopes s) (actions_snapshot s))"
    and h: "to_lowercase (h_action h) = a_path a" "h_version h = a_version a"
    and env: "env_actions env = map_of (sv_actions s)"
  shows "\<exists>ra. map_of (sv_actions s) (action_key h) = Some ra
    \<and> to_lowercase (ra_name ra) = a_path a \<and> ra_version ra = a_version a
    \<and> a_flags a = map flag_value (sort (filter announceable_flag (ra_flags ra)))
    \<and> run_action env \<lparr>in_header = h, in_body = body, in_received = received\<rparr> c
      = send_reply env (ra_handler ra (c_calls c) (request_of h body)) (h_request_id h) (count_call c)"
  using assms by (rule announced_registered)

subsection \<open>The drain ends\<close>

lemma drain_loop_ends:
  assumes "\<exists>l \<in> set looks. fst l = 0 \<or> DRAIN_MILLIS \<le> snd l"
  shows "\<exists>(n, t) \<in> set looks. drain_loop looks = Some n \<and> (n = 0 \<or> DRAIN_MILLIS \<le> t)"
  using assms
proof (induction looks)
  case (Cons l looks)
  then show ?case by (cases l) auto
qed simp

text \<open>
  C40: The drain at shutdown ends: with sleeps of at least 100 milliseconds between its looks it returns
  within 301 looks, whatever the connections do, and connections are given up only after the
  30 seconds of the deadline.
\<close>

theorem drain_terminates:
  assumes "\<forall>i. 100 * i \<le> elapsed i"
  shows "\<exists>i < 301. drain_connections (active 0) (map (\<lambda>i. (active i, elapsed i)) [0..<301]) = Some (active i)
    \<and> (active i = 0 \<or> DRAIN_MILLIS \<le> elapsed i)"
proof (cases "active 0 = 0")
  case True
  then show ?thesis by (intro exI [of _ 0]) (simp add: drain_connections_def)
next
  case False
  have "(active 300, elapsed 300) \<in> set (map (\<lambda>i. (active i, elapsed i)) [0..<301])" by (auto intro!: image_eqI)
  moreover have "DRAIN_MILLIS \<le> elapsed 300" using assms [rule_format, of 300] by (simp add: DRAIN_MILLIS_def)
  ultimately have "\<exists>l \<in> set (map (\<lambda>i. (active i, elapsed i)) [0..<301]). fst l = 0 \<or> DRAIN_MILLIS \<le> snd l"
    by (intro bexI [of _ "(active 300, elapsed 300)"]) auto
  from drain_loop_ends [OF this] False show ?thesis by (auto simp: drain_connections_def simp del: upt_Suc upt_rec_numeral)
qed

subsection \<open>Witnesses\<close>

definition sample_service :: scamp_service where
  "sample_service =
     snd (bind_pem (\<lambda>c k. True) (\<lambda>i. 5) (\<lambda>i p. True) ''KEY'' (''CERT'' @ newline) (10, 0, 0, 1)
       (register_action ''Api.Status.health_check'' 1 (\<lambda>k r. reply_ok ''OK'') (service_new ''abc'' ''svc'' ''main'')))"

definition sample_json :: "bool \<Rightarrow> json" where
  "sample_json active =
     JArr (announcement_json ''svc:abc'' ''main'' [''json''] ''beepish+tls://10.0.0.1:30105''
       [\<lparr>ai_name = ''Api.Status.health_check'', ai_version = 1, ai_flags = []\<rparr>] 1 5 active 7)"

definition sample_print :: "json \<Rightarrow> string option" where
  "sample_print v =
     (if v = sample_json True then Some ''[3]'' else if v = sample_json False then Some ''[4]'' else None)"

definition sample_reader :: "string \<Rightarrow> json option" where
  "sample_reader j =
     (if j = ''[3]'' then Some (sample_json True) else if j = ''[4]'' then Some (sample_json False) else None)"

definition sample_compress :: "bytes \<Rightarrow> bytes option" where
  "sample_compress t = Some (CHR ''x'' # t)"

definition sample_decompress :: "bytes \<Rightarrow> bytes option" where
  "sample_decompress d = (case d of [] \<Rightarrow> None | c # cs \<Rightarrow> Some cs)"

definition sample_announcement :: "bool \<Rightarrow> (service_error, bytes) outcome" where
  "sample_announcement active =
     service_announcement sample_print (\<lambda>k m. Some ''signed'') (\<lambda>s. ''c2lnbmVk'') 7 sample_service active"

definition sample_action :: action where
  "sample_action =
     \<lparr>a_path = ''api.status.health_check'', a_version = 1, a_pathver = ''api.status.health_check~1'',
      a_flags = [], a_sector = ''main'', a_envelopes = [''json''], a_section = V3\<rparr>"

lemma bind_loop_first: "0 < n \<Longrightarrow> free i (random_port (rands i))
    \<Longrightarrow> bind_loop rands free i n = Some (random_port (rands i))"
  by (cases n) (simp_all add: Let_def)

lemma sample_service_simps [simp]:
  "sv_identity sample_service = ''svc:abc''" "sv_sector sample_service = ''main''"
  "sv_envelopes sample_service = [''json'']" "sv_key_pem sample_service = Some ''KEY''"
  "sv_cert_pem sample_service = Some (''CERT'' @ newline)"
  "sv_actions sample_service = [(''api.status.health_check.v1'',
     \<lparr>ra_name = ''Api.Status.health_check'', ra_version = 1, ra_flags = [], ra_handler = (\<lambda>k r. reply_ok ''OK'')\<rparr>)]"
  by (simp_all add: sample_service_def bind_pem_def Let_def register_action_def register_with_flags_def
      service_new_def registration_key_def to_lowercase_def lower_char_def dec_of_int_def dec_of_nat.simps
      BIND_TRIES_def bind_loop_first digit_char_def char_of_eq_iff)

lemma sample_uri [simp]: "service_uri sample_service = Some ''beepish+tls://10.0.0.1:30105''"
  by (simp add: service_uri_def sample_service_def bind_pem_def Let_def register_action_def
      register_with_flags_def service_new_def BIND_TRIES_def bind_loop_first random_port_def FIRST_PORT_def
      LAST_PORT_def dec_of_nat.simps digit_char_def char_of_eq_iff)

lemma sample_snapshot [simp]: "actions_snapshot sample_service
    = [\<lparr>ai_name = ''Api.Status.health_check'', ai_version = 1, ai_flags = []\<rparr>]"
  by (simp add: actions_snapshot_def action_info_of_def)

lemma sample_announced: "announced_actions ''main'' [''json'']
    [\<lparr>ai_name = ''Api.Status.health_check'', ai_version = 1, ai_flags = []\<rparr>] = [sample_action]"
  by code_simp

lemma sample_exchange:
  "exchange_laws sample_print sample_reader (\<lambda>t. t) sample_compress sample_decompress (\<lambda>k m. Some ''signed'')
     (\<lambda>s. ''c2lnbmVk'') (\<lambda>c. Some ()) (\<lambda>t. Some ''signed'') (\<lambda>k m s. Some (s = ''signed'')) ascii_digits
     sample_service ''CERT''"
  using sample_laws
  by (auto simp: exchange_laws_def json_laws_def zlib_laws_def sample_print_def sample_reader_def sample_compress_def
      sample_decompress_def no_blank_def blank_line_eq newline_def split: if_splits)

lemma sample_sent: "\<exists>text. sample_announcement active = Ret text"
proof -
  have "sample_print (sample_json active) = Some (if sample_json active = sample_json True then ''[3]'' else ''[4]'')"
    by (cases active) (simp_all add: sample_print_def)
  then show ?thesis
    by (simp add: sample_announcement_def service_announcement_def build_announcement_packet_def newline_def
        flip: sample_json_def)
qed

definition sample_datagram :: "bool \<Rightarrow> bytes" where
  "sample_datagram active =
     (case sample_announcement active of Ret msg \<Rightarrow> CHR ''x'' # msg | _ \<Rightarrow> [])"

lemma sample_datagram_sent:
  "\<exists>msg. service_announcement sample_print (\<lambda>k m. Some ''signed'') (\<lambda>s. ''c2lnbmVk'') 7 sample_service active = Ret msg
    \<and> sample_compress msg = Some (sample_datagram active)"
  using sample_sent [of active] unfolding sample_announcement_def
  by (auto simp: sample_datagram_def sample_announcement_def sample_compress_def)

lemma sample_fingerprint: "cert_pem_fingerprint (\<lambda>t. Some ''signed'') (\<lambda>d. ''d'') ''CERT'' = Some ''64''"
  by (simp add: cert_pem_fingerprint_def pem_to_der_def cert_sha1_fingerprint_def hex_byte_def hex_digit_def
      lines_def strip_cr_def char_of_eq_iff)

lemma sample_fresh: "\<not> expired (\<lambda>x. x) 10 (ab_params (announced_body sample_service (Some ''64'') 7))"
  by (simp add: expired_def announced_body_def)

lemma sample_reachable: "service_reachable sample_service"
  unfolding sample_service_def register_action_def by (intro service_reachable.intros)

lemma sample_lower: "to_lowercase ''Api.Status.health_check'' = ''api.status.health_check''"
  by (simp add: to_lowercase_def lower_char_def char_of_eq_iff)

lemma announced_service_found_witness:
  "\<exists>r'. process_datagram sample_decompress
        (announcement_parser ascii_digits sample_reader (\<lambda>t. Some ''signed'') (\<lambda>d. ''d''))
        (inject_packet (\<lambda>x. x) (signature_is_valid (verify_rsa_sha256 (\<lambda>c. Some ()) (\<lambda>t. Some ''signed'')
           (\<lambda>k m s. Some (s = ''signed'')))) (\<lambda>fp sector path. sector = ''main'') 10)
        (sample_datagram True) registry_empty = Ret r'
    \<and> candidate r' (sv_sector sample_service) (a_path sample_action) (a_version sample_action) ''json''
        (primary_entry (\<lambda>fp sector path. sector = ''main'') ''64'' (ab_info (announced_body sample_service (Some ''64'') 7))
          (ab_params (announced_body sample_service (Some ''64'') 7)) sample_action)
    \<and> find_action_with_envelope r' 11 0 (sv_sector sample_service) (a_path sample_action)
        (a_version sample_action) ''json'' \<noteq> None"
proof -
  obtain msg where sent: "service_announcement sample_print (\<lambda>k m. Some ''signed'') (\<lambda>s. ''c2lnbmVk'') 7
      sample_service True = Ret msg" "sample_compress msg = Some (sample_datagram True)"
    using sample_datagram_sent by blast
  show ?thesis
    by (rule announced_service_found [OF sample_exchange sent _ _ sample_fingerprint _ sample_fresh])
      (simp_all add: sample_announced registry_empty_def)
qed

lemma sample_announcer_done:
  "fst (run_announcer (\<lambda>k active. ok_value (service_announcement sample_print (\<lambda>k m. Some ''signed'')
      (\<lambda>s. ''c2lnbmVk'') 7 sample_service active)) sample_compress (replicate 2 Elapsed @ [SignalChanged True]))
    = AnnouncerDone"
proof -
  obtain m1 m2 where "service_announcement sample_print (\<lambda>k m. Some ''signed'') (\<lambda>s. ''c2lnbmVk'') 7 sample_service True = Ret m1"
    "service_announcement sample_print (\<lambda>k m. Some ''signed'') (\<lambda>s. ''c2lnbmVk'') 7 sample_service False = Ret m2"
    using sample_datagram_sent by blast
  then show ?thesis
    by (simp add: run_announcer_def ok_value_def sample_compress_def SHUTDOWN_ROUNDS_def numeral_2_eq_2
        eval_nat_numeral)
qed


lemma announced_action_dispatched_witness:
  "\<exists>ra. map_of (sv_actions sample_service) (action_key (echo_header\<lparr>h_action := ''API.Status.health_check''\<rparr>)) = Some ra
    \<and> to_lowercase (ra_name ra) = a_path sample_action \<and> ra_version ra = a_version sample_action
    \<and> a_flags sample_action = map flag_value (sort (filter announceable_flag (ra_flags ra)))
    \<and> run_action (guarded_env\<lparr>env_actions := map_of (sv_actions sample_service)\<rparr>)
        \<lparr>in_header = echo_header\<lparr>h_action := ''API.Status.health_check''\<rparr>, in_body = ''?'', in_received = 1\<rparr> conn_init
      = send_reply (guarded_env\<lparr>env_actions := map_of (sv_actions sample_service)\<rparr>)
          (ra_handler ra (c_calls conn_init) (request_of (echo_header\<lparr>h_action := ''API.Status.health_check''\<rparr>) ''?''))
          (h_request_id (echo_header\<lparr>h_action := ''API.Status.health_check''\<rparr>)) (count_call conn_init)"
proof (rule announced_action_dispatched)
  show "service_reachable sample_service" by (rule sample_reachable)
  have "to_lowercase ''API.Status.health_check'' = ''api.status.health_check''"
    by (simp add: to_lowercase_def lower_char_def char_of_eq_iff)
  then show "to_lowercase (h_action (echo_header\<lparr>h_action := ''API.Status.health_check''\<rparr>)) = a_path sample_action"
    by (simp add: sample_action_def)
  show "h_version (echo_header\<lparr>h_action := ''API.Status.health_check''\<rparr>) = a_version sample_action"
    by (simp add: sample_action_def echo_header_def default_header_def)
next
  show "\<forall>ai \<in> set (actions_snapshot sample_service). CHR ''/'' \<notin> set (to_lowercase (ai_name ai))"
    by (simp add: sample_lower)
qed (simp_all add: sample_announced)

lemma drain_terminates_witness:
  "\<exists>i < 301. drain_connections ((\<lambda>i. 3 - i div 2) 0) (map (\<lambda>i. ((\<lambda>i. 3 - i div 2) i, 100 * i)) [0..<301])
      = Some ((\<lambda>i. 3 - i div 2) i)
    \<and> ((\<lambda>i. 3 - i div 2) i = 0 \<or> DRAIN_MILLIS \<le> 100 * i)"
  by (rule drain_terminates [where active = "\<lambda>i. 3 - i div 2"]) simp

end
