(* ===== verification/Client_Run.thy ===== *)
theory Client_Run
  imports Client_Connection
begin

text \<open>
  Runs of one client connection (src/scamp/src/transport/beepish/client/connection.rs): the first
  request of a fresh connection is sent in full when its body is at most 65536 bytes (the flow
  control then never stops it for long enough to matter: no acknowledgement is needed), the packets
  that come in are routed one by one while the writer task makes room, and a request whose response
  has come in completes with it.  Every run is a path of the step relation \<open>client_step\<close>.
\<close>

subsection \<open>A request alone on its connection\<close>

text \<open>The first request of a connection, at a program counter, with \<open>n\<close> bytes counted as sent.\<close>

definition lone_task :: "request_args \<Rightarrow> pc \<Rightarrow> task" where
  "lone_task a pc = \<lparr>t_args = a, t_pc = pc, t_id = 1, t_no = 0\<rparr>"

definition lone :: "request_args \<Rightarrow> pc \<Rightarrow> nat \<Rightarrow> packet list \<Rightarrow> connection" where
  "lone a pc n ps =
     \<lparr>cn_client = client_init\<lparr>cl_pending := [(1, 0)],
        cl_outgoing := [0 \<mapsto> \<lparr>os_sent = n, os_acknowledged = 0\<rparr>], cl_sent := ps\<rparr>,
      cn_tasks = [0 \<mapsto> lone_task a pc], cn_next_id = 2, cn_next_no = 1, cn_reader = Reading, cn_written = 0\<rparr>"

definition lone_sent :: "request_args \<Rightarrow> nat \<Rightarrow> packet list" where
  "lone_sent a k = sent_upto (lone_task a Await) k"

lemma lone_sent_eq: "sent_upto (lone_task a pc) k = lone_sent a k"
  by (simp add: lone_sent_def sent_upto_def lone_task_def request_header_def)

lemma length_lone_sent: "k \<le> 65536 \<Longrightarrow> length (lone_sent a k) \<le> 34"
proof -
  assume "k \<le> 65536"
  then have "min (length (rq_body a)) k div 2048 \<le> 65536 div 2048" by (intro div_le_mono) simp
  with length_chunks_of [of 2048 "take k (rq_body a)"] show ?thesis
    by (simp add: lone_sent_def sent_upto_def data_packets_def DATA_CHUNK_SIZE_def lone_task_def)
qed

lemma lone_start:
  "fold run_task [0, 0, 0, 0, 0, 0] (call 0 a connection_init) = lone a (loop_pc (lone_task a SendHeader) 0) 0 (lone_sent a 0)"
  by (simp add: call_def connection_init_def client_init_def new_task_def run_simps lone_def lone_task_def
      outgoing_default_def numeral_2_eq_2 lone_sent_def sent_upto_def data_packets_def request_header_def)

lemma lone_chunk:
  assumes "at_chunk (lone_task a (FlowCheck k)) k" and "k < 65536"
  shows "fold run_task [0, 0, 0] (lone a (FlowCheck k) k (lone_sent a k))
    = (let e = chunk_end (lone_task a (FlowCheck k)) k in lone a (loop_pc (lone_task a (FlowCheck k)) e) e (lone_sent a e))"
proof -
  have len: "length (lone_sent a k) < 256" using length_lone_sent [of k a] assms(2) by simp
  have sent: "lone_sent a (chunk_end (lone_task a (FlowCheck k)) k) = lone_sent a k
      @ [data_packet 0 (take (chunk_end (lone_task a (FlowCheck k)) k - k) (drop k (rq_body a)))]"
    using sent_upto_chunk [OF assms(1)] unfolding lone_sent_eq by (simp add: lone_task_def)
  have e: "k \<le> chunk_end (lone_task a (FlowCheck k)) k"
    using assms(1) by (simp add: at_chunk_def chunk_end_def)
  show ?thesis
    unfolding Let_def sent using len assms(2) e
    by (simp add: lone_def lone_task_def client_init_def run_simps over_watermark_def FLOW_CONTROL_WATERMARK_def
        chunk_end_def loop_pc_def add_sent_def)
qed

lemma lone_loop_pc: "loop_pc (lone_task a pc) k = (if k < length (rq_body a) then FlowCheck k else SendEof)"
  by (simp add: loop_pc_def lone_task_def)

lemma lone_to_eof:
  assumes "length (rq_body a) \<le> 65536" and "k \<le> length (rq_body a)"
    and "k < length (rq_body a) \<longrightarrow> DATA_CHUNK_SIZE dvd k"
  shows "\<exists>ts. fold run_task ts (lone a (loop_pc (lone_task a pc) k) k (lone_sent a k))
    = lone a SendEof (length (rq_body a)) (lone_sent a (length (rq_body a)))"
  using assms(2,3)
proof (induction "length (rq_body a) - k" arbitrary: k pc rule: less_induct)
  case less
  show ?case
  proof (cases "k < length (rq_body a)")
    case False
    with less.prems show ?thesis by (intro exI [of _ "[]"]) (simp add: lone_loop_pc)
  next
    case True
    let ?e = "chunk_end (lone_task a (FlowCheck k)) k"
    have e: "k < ?e" "?e \<le> length (rq_body a)" "?e < length (rq_body a) \<longrightarrow> DATA_CHUNK_SIZE dvd ?e"
      using True less.prems by (auto simp: chunk_end_def lone_task_def DATA_CHUNK_SIZE_def min_def)
    have chunk: "at_chunk (lone_task a (FlowCheck k)) k"
      using True less.prems by (simp add: at_chunk_def lone_task_def)
    have "length (rq_body a) - ?e < length (rq_body a) - k" using e(1) True by simp
    from less.hyps [OF this e(2,3), of "FlowCheck k"] obtain ts where
      ts: "fold run_task ts (lone a (loop_pc (lone_task a (FlowCheck k)) ?e) ?e (lone_sent a ?e))
        = lone a SendEof (length (rq_body a)) (lone_sent a (length (rq_body a)))" by blast
    have pc: "loop_pc (lone_task a pc) k = FlowCheck k" using True by (simp add: lone_loop_pc)
    have "k < 65536" using True assms(1) by simp
    note step = lone_chunk [OF chunk this, unfolded Let_def]
    have "fold run_task ([0, 0, 0] @ ts) (lone a (loop_pc (lone_task a pc) k) k (lone_sent a k))
      = lone a SendEof (length (rq_body a)) (lone_sent a (length (rq_body a)))"
      unfolding pc fold_append comp_apply step by (rule ts)
    then show ?thesis by blast
  qed
qed

lemma lone_request_sent:
  assumes "length (rq_body a) \<le> 65536"
  shows "client_reachable (lone a Await (length (rq_body a)) (request_packets (lone_task a Await)))"
proof -
  obtain ts where ts: "fold run_task ts (lone a (loop_pc (lone_task a SendHeader) 0) 0 (lone_sent a 0))
      = lone a SendEof (length (rq_body a)) (lone_sent a (length (rq_body a)))"
    using lone_to_eof [OF assms, of 0] by auto
  have all: "request_packets (lone_task a Await) = lone_sent a (length (rq_body a)) @ [eof_packet 0]"
    using sent_upto_all [of "lone_task a Await"] by (simp add: lone_sent_def lone_task_def)
  have "run_task 0 (lone a SendEof (length (rq_body a)) (lone_sent a (length (rq_body a))))
      = lone a Await (length (rq_body a)) (request_packets (lone_task a Await))"
    unfolding all using length_lone_sent [OF assms, of a]
    by (simp add: lone_def lone_task_def client_init_def run_simps)
  then have "lone a Await (length (rq_body a)) (request_packets (lone_task a Await))
      = fold run_task ([0, 0, 0, 0, 0, 0] @ ts @ [0]) (call 0 a connection_init)"
    using ts lone_start [of a] by (simp only: fold_append comp_apply fold_simps id_apply)
  moreover have "client_reachable (call 0 a connection_init)"
    by (rule call_reachable) (simp_all add: connection_init_def [THEN arg_cong, of cn_tasks])
  ultimately show ?thesis using run_tasks_reachable by metis
qed

subsection \<open>Packets coming in\<close>

lemma client_route_alive [simp]: "cl_writer_alive (client_route p s) = cl_writer_alive s"
  by (cases "p_type p")
    (auto simp: client_route_def Let_def writer_send_def client_ack_def notify_one_def deliver_def
      split: option.split list.split prod.split)

lemma writer_drained:
  assumes "cl_writer_alive (cn_client s)" and "cn_written s \<le> length (cl_sent (cn_client s))"
  shows "client_steps s (s\<lparr>cn_written := length (cl_sent (cn_client s))\<rparr>)"
  using assms
proof (induction "length (cl_sent (cn_client s)) - cn_written s" arbitrary: s)
  case 0
  then have "s\<lparr>cn_written := length (cl_sent (cn_client s))\<rparr> = s" by simp
  then show ?case by simp
next
  case (Suc n)
  let ?s = "s\<lparr>cn_written := Suc (cn_written s)\<rparr>"
  have "client_step s ?s" using Suc by (intro client_step.write_out) simp_all
  moreover have "client_steps ?s (?s\<lparr>cn_written := length (cl_sent (cn_client ?s))\<rparr>)"
    using Suc.hyps(2) Suc.prems by (intro Suc.hyps(1)) simp_all
  ultimately show ?case by simp
qed

lemma packets_received:
  assumes "cn_reader s = Reading" and "cl_writer_alive (cn_client s)"
    and "cn_written s \<le> length (cl_sent (cn_client s))"
  shows "\<exists>w. client_steps s (s\<lparr>cn_client := fold client_route ps (cn_client s), cn_written := w\<rparr>)"
  using assms
proof (induction ps arbitrary: s)
  case Nil
  have "s = s\<lparr>cn_client := cn_client s, cn_written := cn_written s\<rparr>" by simp
  then show ?case by (metis fold_simps(1) rtranclp.rtrancl_refl)
next
  case (Cons p ps)
  let ?s1 = "s\<lparr>cn_written := length (cl_sent (cn_client s))\<rparr>"
  let ?s2 = "?s1\<lparr>cn_client := client_route p (cn_client ?s1)\<rparr>"
  have 1: "client_steps s ?s1" using Cons.prems by (intro writer_drained)
  have 2: "client_step ?s1 ?s2"
    using Cons.prems by (intro client_step.receive) (simp_all add: writer_room_def WRITER_CAPACITY_def)
  obtain q where q: "cl_sent (client_route p (cn_client s)) = cl_sent (cn_client s) @ q"
    using client_route_sent by blast
  have "cn_written ?s2 \<le> length (cl_sent (cn_client ?s2))" by (simp add: q)
  then obtain w where "client_steps ?s2 (?s2\<lparr>cn_client := fold client_route ps (cn_client ?s2), cn_written := w\<rparr>)"
    using Cons.IH [of ?s2] Cons.prems by auto
  then have "client_steps s (s\<lparr>cn_client := fold client_route (p # ps) (cn_client s), cn_written := w\<rparr>)"
    using 1 2 by (simp add: converse_rtranclp_into_rtranclp)
  then show ?case by blast
qed

text \<open>A request whose response has come in completes with it.\<close>

lemma answered_completes:
  assumes "cn_tasks s t = Some tk" and "t_pc tk = Await" and "cl_answers (cn_client s) t = Some r"
  shows "\<exists>s' tk'. client_steps s s' \<and> cn_tasks s' t = Some tk' \<and> t_args tk' = t_args tk
    \<and> t_pc tk' = Done (Response r) \<and> cl_sent (cn_client s') = cl_sent (cn_client s)"
proof -
  let ?tk1 = "tk\<lparr>t_pc := DropOutgoing (Response r)\<rparr>"
  let ?s1 = "s\<lparr>cn_tasks := (cn_tasks s)(t \<mapsto> ?tk1)\<rparr>"
  let ?tk2 = "?tk1\<lparr>t_pc := Done (Response r)\<rparr>"
  let ?s2 = "(?s1\<lparr>cn_client := remove_outgoing (wire_no ?tk1) (cn_client ?s1)\<rparr>)
    \<lparr>cn_tasks := (cn_tasks ?s1)(t \<mapsto> ?tk2)\<rparr>"
  have "client_step s ?s1"
    using client_step.run [OF assms(1), of ?tk1 s] assms by (simp add: task_step_def)
  moreover have "client_step ?s1 ?s2"
    using client_step.run [of ?s1 t ?tk1 ?tk2 "?s1\<lparr>cn_client := remove_outgoing (wire_no ?tk1) (cn_client ?s1)\<rparr>"]
    by (simp add: task_step_def)
  ultimately have "client_steps s ?s2" by simp
  moreover have "cl_sent (cn_client ?s2) = cl_sent (cn_client s)" by (simp add: remove_outgoing_def)
  ultimately show ?thesis by (intro exI [of _ ?s2] exI [of _ ?tk2]) simp
qed

end
