(* ===== verification/End_To_End.thy ===== *)
theory End_To_End
  imports Client_Run Discovery Requester
begin

text \<open>
  The client and the service together: the bytes a client writes are the reads of the service's
  connection and the other way round, cut into reads in any way.  Builds up from one exchange over
  an open connection, over a call that runs to its end in the concurrent client, to a requester that
  calls an action it knows from an announcement only.
\<close>

subsection \<open>A request and its reply\<close>

lemma server_route_data:
  assumes "reliable env"
    and "c_incoming c no = Some \<lparr>in_header = h, in_body = b0, in_received = length b0\<rparr>"
  shows "\<exists>c'. route_all (server_route env) (map (data_packet no) bs) c = (True, c')
    \<and> c_written c' = c_written c @ acks_for no (length b0) bs \<and> c_next_out c' = c_next_out c
    \<and> c_incoming c' no = Some \<lparr>in_header = h, in_body = b0 @ concat bs, in_received = length (b0 @ concat bs)\<rparr>"
  using assms(2)
proof (induction bs arbitrary: c b0)
  case (Cons b bs)
  obtain c1 where c1: "server_route env (data_packet no b) c = (True, c1)"
    "c_written c1 = c_written c @ [ack_packet no (length b0 + length b)]" "c_next_out c1 = c_next_out c"
    "c_incoming c1 no = Some \<lparr>in_header = h, in_body = b0 @ b, in_received = length (b0 @ b)\<rparr>"
    using Cons.prems assms(1) by (simp add: server_route_def)
  from Cons.IH [OF c1(4)] c1 show ?case by auto
qed simp

lemma request_served:
  assumes env: "reliable env" and granted: "\<And>k. denial env h k = None"
  shows "\<exists>k c. route_all (server_route env) (message_packets 0 h body) conn_init = (True, c)
    \<and> c_written c = acks_for 0 0 (chunks_of DATA_CHUNK_SIZE body) @ reply_packets env h body k 0"
proof -
  let ?bs = "chunks_of DATA_CHUNK_SIZE body"
  let ?c0 = "conn_init\<lparr>c_next_in := 1, c_incoming := [0 \<mapsto> \<lparr>in_header = h, in_body = [], in_received = 0\<rparr>]\<rparr>"
  have hdr: "server_route env (header_packet 0 h) conn_init = (True, ?c0)"
    by (simp add: server_route_def conn_init_def)
  have "c_incoming ?c0 0 = Some \<lparr>in_header = h, in_body = [], in_received = length []\<rparr>" by simp
  from server_route_data [OF env this, of ?bs] obtain c1 where
    c1: "route_all (server_route env) (map (data_packet 0) ?bs) ?c0 = (True, c1)"
    "c_written c1 = acks_for 0 0 ?bs" "c_next_out c1 = 0"
    "c_incoming c1 0 = Some \<lparr>in_header = h, in_body = body, in_received = length body\<rparr>"
    by (auto simp: conn_init_def)
  let ?msg = "\<lparr>in_header = h, in_body = body, in_received = length body\<rparr>"
  let ?c2 = "c1\<lparr>c_incoming := (c_incoming c1)(0 := None)\<rparr>"
  have eof: "server_route env (eof_packet 0) c1 = (True, dispatch_and_reply env ?msg ?c2)"
    using c1(4) by (simp add: server_route_def)
  have "route_all (server_route env) (message_packets 0 h body) conn_init
      = (True, dispatch_and_reply env ?msg ?c2)"
    using hdr c1(1) eof by (simp add: message_packets_def data_packets_def route_all_append)
  moreover obtain k where "c_written (dispatch_and_reply env ?msg ?c2)
      = c_written ?c2 @ reply_packets env h body k 0"
    using dispatch_written [of env ?msg ?c2] env granted c1(3) by auto
  ultimately show ?thesis using c1(2) by auto
qed

text \<open>Acknowledgements leave what the reader needs for the reply.\<close>

definition same_reader :: "client \<Rightarrow> client \<Rightarrow> bool" where
  "same_reader s s' \<longleftrightarrow>
     cl_incoming s' = cl_incoming s \<and> cl_next_in s' = cl_next_in s \<and> cl_pending s' = cl_pending s
     \<and> cl_answers s' = cl_answers s \<and> cl_writer_alive s' = cl_writer_alive s"

lemma client_route_acks: "same_reader s (fold client_route (acks_for no n bs) s)"
proof (induction no n bs arbitrary: s rule: acks_for.induct)
  case (2 no n b bs)
  have "same_reader s (client_route (ack_packet no (n + length b)) s)"
    by (simp add: same_reader_def client_route_def)
  with "2.IH" show ?case by (simp add: same_reader_def)
qed (simp add: same_reader_def)

lemma client_route_message:
  assumes "no = cl_next_in s" and "cl_writer_alive s"
    and "map_of (cl_pending s) (h_request_id h) = Some t"
  shows "cl_answers (fold client_route (message_packets no h body) s) t
    = Some \<lparr>rs_header = h, rs_body = body, rs_error = None\<rparr>"
  using client_message_routed [OF assms, of body] client_route_all [of "message_packets no h body" s] by simp

lemma request_bytes_served:
  assumes "reliable env" and "\<And>k. denial env h k = None" and "header_fits enc dec h"
    and "concat reads = stream_bytes enc (message_packets 0 h body)"
    and "\<forall>c \<in> set reads. c \<noteq> [] \<and> length c \<le> READ_SIZE"
  shows "\<exists>c k. handle_connection env dec (map Got reads) = ReadEnd c
    \<and> c_written c = acks_for 0 0 (chunks_of DATA_CHUNK_SIZE body) @ reply_packets env h body k 0"
proof -
  obtain k c where c: "route_all (server_route env) (message_packets 0 h body) conn_init = (True, c)"
    and written: "c_written c = acks_for 0 0 (chunks_of DATA_CHUNK_SIZE body) @ reply_packets env h body k 0"
    using request_served [OF assms(1,2)] by blast
  have "handle_connection env dec (map Got reads) = read_loop dec (server_route env) [] conn_init reads"
    using assms(5) by (simp add: handle_connection_def serve_reads)
  also have "\<dots> = (case route_all (server_route env) (message_packets 0 h body) conn_init of
      (ok, s') \<Rightarrow> if ok then ReadEnd s' else Closed s')"
    by (rule read_loop_stream [OF assms(4) message_receivable [OF assms(3)]]) (use assms(5) in blast)
  finally have "handle_connection env dec (map Got reads) = ReadEnd c" using c by simp
  with written show ?thesis by blast
qed

text \<open>The reply as the client gets it.\<close>

definition response_to :: "server_env \<Rightarrow> packet_header \<Rightarrow> bytes \<Rightarrow> nat \<Rightarrow> scamp_response" where
  "response_to env h body k =
     \<lparr>rs_header = reply_header (reply_to env h body k) (h_request_id h), rs_body = rep_body (reply_to env h body k),
      rs_error = None\<rparr>"

lemma reply_routed:
  assumes "ps = acks_for 0 0 bs @ reply_packets env h body k 0"
    and "cl_next_in s = 0" and "cl_writer_alive s" and "map_of (cl_pending s) (h_request_id h) = Some t"
  shows "cl_answers (fold client_route ps s) t = Some (response_to env h body k)"
proof -
  let ?s1 = "fold client_route (acks_for 0 0 bs) s"
  have "same_reader s ?s1" by (rule client_route_acks)
  then show ?thesis
    unfolding assms(1) reply_packets_def response_to_def
    using assms(2-4) by (simp only: fold_append comp_apply, intro client_route_message)
      (simp_all add: same_reader_def reply_header_def)
qed

lemma reply_bytes_received:
  assumes "ps = acks_for 0 0 (chunks_of DATA_CHUNK_SIZE body) @ reply_packets env h body k 0"
    and "length body \<le> u64_max"
    and "header_fits enc dec (reply_header (reply_to env h body k) (h_request_id h))"
    and "concat reads = stream_bytes enc ps" and "\<forall>c \<in> set reads. length c \<le> READ_SIZE"
  shows "read_loop dec client_route_step [] s reads = ReadEnd (fold client_route ps s)"
proof -
  have "\<forall>p \<in> set (acks_for 0 0 (chunks_of DATA_CHUNK_SIZE body)). receivable enc dec p"
    using assms(2) by (intro acks_receivable) simp
  then have "\<forall>p \<in> set ps. receivable enc dec p"
    using message_receivable [OF assms(3)] by (auto simp: assms(1) reply_packets_def)
  then show ?thesis by (subst read_loop_stream [OF assms(4) _ assms(5)]) (simp_all add: client_route_all)
qed

lemma reply_exchanged:
  assumes "reliable env" and "\<And>k. denial env h k = None"
    and "header_fits enc dec h"
    and "\<And>k. header_fits enc dec (reply_header (reply_to env h body k) (h_request_id h))"
    and "length body \<le> u64_max"
    and "concat reads = stream_bytes enc (message_packets 0 h body)"
    and "\<forall>c \<in> set reads. c \<noteq> [] \<and> length c \<le> READ_SIZE"
    and "cl_next_in s = 0" and "cl_writer_alive s"
    and "map_of (cl_pending s) (h_request_id h) = Some t"
  shows "\<exists>c k. handle_connection env dec (map Got reads) = ReadEnd c
    \<and> (\<forall>reads'. concat reads' = stream_bytes enc (c_written c)
         \<longrightarrow> (\<forall>c \<in> set reads'. length c \<le> READ_SIZE)
         \<longrightarrow> (\<exists>s'. read_loop dec client_route_step [] s reads' = ReadEnd s'
               \<and> cl_answers s' t = Some (response_to env h body k)))"
proof -
  obtain c k where served: "handle_connection env dec (map Got reads) = ReadEnd c"
    and written: "c_written c = acks_for 0 0 (chunks_of DATA_CHUNK_SIZE body) @ reply_packets env h body k 0"
    using request_bytes_served [OF assms(1,2,3,6,7)] by blast
  have "read_loop dec client_route_step [] s reads' = ReadEnd (fold client_route (c_written c) s)"
    if "concat reads' = stream_bytes enc (c_written c)" "\<forall>c \<in> set reads'. length c \<le> READ_SIZE" for reads'
    using reply_bytes_received [OF written assms(5,4) that] .
  with served reply_routed [OF written assms(8-10)] show ?thesis by blast
qed


subsection \<open>A call that completes\<close>

definition first_header :: "request_args \<Rightarrow> packet_header" where
  "first_header a = request_header (lone_task a Await)"

lemma first_header_id [simp]: "h_request_id (first_header a) = 1"
  by (simp add: first_header_def request_header_def lone_task_def Let_def)

lemma route_keeps_sent: "prefix (cl_sent s) (cl_sent (fold client_route ps s))"
proof (induction ps arbitrary: s)
  case (Cons p ps)
  have "prefix (cl_sent s) (cl_sent (client_route p s))" using client_route_sent [of p s] by (auto simp: prefix_def)
  also note Cons.IH [of "client_route p s"]
  finally show ?case by simp
qed simp

lemma call_completes:
  assumes "length (rq_body a) \<le> 65536"
    and "ps = acks_for 0 0 bs @ reply_packets env (first_header a) (rq_body a) k 0"
  shows "\<exists>s tk. client_reachable s \<and> cn_tasks s 0 = Some tk \<and> t_args tk = a
    \<and> t_pc tk = Done (Response (response_to env (first_header a) (rq_body a) k))
    \<and> prefix (message_packets 0 (first_header a) (rq_body a)) (cl_sent (cn_client s))"
proof -
  let ?s = "lone a Await (length (rq_body a)) (request_packets (lone_task a Await))"
  have s: "cn_reader ?s = Reading" "cl_writer_alive (cn_client ?s)" "cn_written ?s \<le> length (cl_sent (cn_client ?s))"
    "cl_next_in (cn_client ?s) = 0" "map_of (cl_pending (cn_client ?s)) (h_request_id (first_header a)) = Some 0"
    by (simp_all add: lone_def client_init_def)
  obtain w where "client_steps ?s (?s\<lparr>cn_client := fold client_route ps (cn_client ?s), cn_written := w\<rparr>)"
    using packets_received [OF s(1-3)] by blast
  moreover let ?s' = "?s\<lparr>cn_client := fold client_route ps (cn_client ?s), cn_written := w\<rparr>"
  have "cn_tasks ?s' 0 = Some (lone_task a Await)" "t_pc (lone_task a Await) = Await"
    by (simp_all add: lone_def lone_task_def)
  moreover have "cl_answers (cn_client ?s') 0 = Some (response_to env (first_header a) (rq_body a) k)"
    using reply_routed [OF assms(2) s(4,2,5)] by simp
  ultimately obtain s'' tk where s'': "client_steps ?s' s''" "cn_tasks s'' 0 = Some tk" "t_args tk = t_args (lone_task a Await)"
    "t_pc tk = Done (Response (response_to env (first_header a) (rq_body a) k))"
    "cl_sent (cn_client s'') = cl_sent (cn_client ?s')"
    and to: "client_steps ?s ?s'"
    using answered_completes by blast
  have "client_reachable s''"
    using lone_request_sent [OF assms(1)] to s''(1) unfolding client_reachable_def by (metis rtranclp_trans)
  moreover have "prefix (request_packets (lone_task a Await)) (cl_sent (cn_client s''))"
    using route_keeps_sent [of "cn_client ?s" ps] by (simp add: s''(5) lone_def)
  moreover have "request_packets (lone_task a Await) = message_packets 0 (first_header a) (rq_body a)"
    by (simp add: request_packets_def first_header_def lone_task_def)
  moreover have "t_args tk = a" using s''(3) by (simp add: lone_task_def)
  ultimately show ?thesis using s''(2,4) by auto
qed

text \<open>
  A call completes.  For a request with a body of at most 65536 bytes on a fresh connection, the
  concurrent client (its task, the writer task and the reader, step by step) has an execution in which
  the call returns the reply the service computed: the packets the client sends begin with exactly
  the message of the request, the service reads these bytes, cut in any way, and writes
  acknowledgements and the reply, and the reader gets exactly what the service wrote.
\<close>

theorem call_answered_by_service:
  assumes "reliable env" and "\<And>k. denial env (first_header a) k = None"
    and "header_fits enc dec (first_header a)" and "length (rq_body a) \<le> 65536"
    and "concat reads = stream_bytes enc (message_packets 0 (first_header a) (rq_body a))"
    and "\<forall>c \<in> set reads. c \<noteq> [] \<and> length c \<le> READ_SIZE"
  shows "\<exists>c k s tk. handle_connection env dec (map Got reads) = ReadEnd c
    \<and> client_reachable s \<and> cn_tasks s 0 = Some tk \<and> t_args tk = a
    \<and> t_pc tk = Done (Response (response_to env (first_header a) (rq_body a) k))
    \<and> prefix (message_packets 0 (first_header a) (rq_body a)) (cl_sent (cn_client s))
    \<and> suffix (reply_packets env (first_header a) (rq_body a) k 0) (c_written c)"
proof -
  obtain c k where served: "handle_connection env dec (map Got reads) = ReadEnd c"
    and written: "c_written c = acks_for 0 0 (chunks_of DATA_CHUNK_SIZE (rq_body a))
      @ reply_packets env (first_header a) (rq_body a) k 0"
    using request_bytes_served [OF assms(1-3,5,6)] by blast
  from call_completes [OF assms(4) written] served written show ?thesis by (metis suffixI)
qed

subsection \<open>Calls over the wire\<close>

text \<open>A way bytes are cut into reads.\<close>

definition read_cuts :: "(bytes \<Rightarrow> bytes list) \<Rightarrow> bool" where
  "read_cuts cuts \<longleftrightarrow> (\<forall>b. concat (cuts b) = b \<and> (\<forall>c \<in> set (cuts b). c \<noteq> [] \<and> length c \<le> READ_SIZE))"

definition args_of :: "client_call \<Rightarrow> request_args" where
  "args_of c =
     \<lparr>rq_action = cc_action c, rq_version = cc_version c, rq_envelope = cc_envelope c,
      rq_ticket = cc_ticket c, rq_client_id = cc_client_id c, rq_body = cc_body c\<rparr>"

text \<open>The first request of a fresh connection to the service of an environment.\<close>

definition exchange ::
  "(json \<Rightarrow> bytes) \<Rightarrow> (bytes \<Rightarrow> json option) \<Rightarrow> (bytes \<Rightarrow> bytes list) \<Rightarrow> server_env \<Rightarrow> request_args
   \<Rightarrow> string + scamp_response" where
  "exchange enc dec cuts env a =
     (let c = end_state (handle_connection env dec
            (map Got (cuts (stream_bytes enc (message_packets 0 (first_header a) (rq_body a))))));
          s = end_state (read_loop dec client_route_step [] (client_init\<lparr>cl_pending := [(1, 0)]\<rparr>)
            (cuts (stream_bytes enc (c_written c)))) in
      case cl_answers s 0 of
        Some r \<Rightarrow> Inr r
      | None \<Rightarrow> Inl ''Connection lost while waiting for response'')"

text \<open>A client in a network of services: a URI leads to a service or to nothing.\<close>

definition network_client ::
  "(json \<Rightarrow> bytes) \<Rightarrow> (bytes \<Rightarrow> json option) \<Rightarrow> (bytes \<Rightarrow> bytes list) \<Rightarrow> (string \<rightharpoonup> server_env)
   \<Rightarrow> client_call \<Rightarrow> string + scamp_response" where
  "network_client enc dec cuts network c =
     (case network (si_uri (cc_service c)) of
        None \<Rightarrow> Inl ''Failed to connect''
      | Some env \<Rightarrow> exchange enc dec cuts env (args_of c))"

lemma exchange_reply:
  assumes "reliable env" and "\<And>k. denial env (first_header a) k = None"
    and "header_fits enc dec (first_header a)"
    and "\<And>k. header_fits enc dec (reply_header (reply_to env (first_header a) (rq_body a) k) 1)"
    and "length (rq_body a) \<le> u64_max" and "read_cuts cuts"
  shows "\<exists>k. exchange enc dec cuts env a = Inr (response_to env (first_header a) (rq_body a) k)"
proof -
  let ?h = "first_header a" and ?s = "client_init\<lparr>cl_pending := [(1, 0)]\<rparr>"
  let ?reads = "cuts (stream_bytes enc (message_packets 0 ?h (rq_body a)))"
  have cuts: "concat (cuts b) = b" "\<forall>c \<in> set (cuts b). c \<noteq> [] \<and> length c \<le> READ_SIZE"
    "\<forall>c \<in> set (cuts b). length c \<le> READ_SIZE" for b
    using assms(6) by (auto simp: read_cuts_def)
  obtain c k where served: "handle_connection env dec (map Got ?reads) = ReadEnd c"
    and written: "c_written c = acks_for 0 0 (chunks_of DATA_CHUNK_SIZE (rq_body a)) @ reply_packets env ?h (rq_body a) k 0"
    using request_bytes_served [OF assms(1,2,3) cuts(1,2)] by blast
  have fits: "header_fits enc dec (reply_header (reply_to env ?h (rq_body a) k) (h_request_id ?h))"
    using assms(4) by simp
  have "read_loop dec client_route_step [] ?s (cuts (stream_bytes enc (c_written c)))
      = ReadEnd (fold client_route (c_written c) ?s)"
    by (rule reply_bytes_received [OF written assms(5) fits cuts(1,3)])
  moreover have "cl_answers (fold client_route (c_written c) ?s) 0 = Some (response_to env ?h (rq_body a) k)"
    by (rule reply_routed [OF written]) (simp_all add: client_init_def)
  ultimately show ?thesis using served by (auto simp: exchange_def)
qed

subsection \<open>From the announcement to the handler\<close>

lemma entries_of_one:
  assumes "e \<in> table_entries (rg_actions (inject_packet rnd sig_valid auth now p registry_empty))"
  shows "ae_info e = ab_info (pk_body p)"
proof -
  have "table_entries [] = {}" by (simp add: table_entries_def)
  with assms show ?thesis
    by (auto simp: inject_packet_def Let_def registry_empty_def table_entries_actions primary_entry_def
        alias_entry_def split: if_splits)
qed

lemma mark_failed_actions [simp]: "rg_actions (mark_failed now identity r) = rg_actions r"
  by (simp add: mark_failed_def Let_def)

lemma candidate_mark_failed [simp]:
  "candidate (mark_failed now identity r) sector act version envelope = candidate r sector act version envelope"
  by (simp add: candidate_def find_actions_def fun_eq_iff)

lemma found_in_table:
  assumes "find_action_with_envelope r now rand sector act version envelope = Some e"
  shows "e \<in> table_entries (rg_actions r)"
proof -
  let ?P = "\<lambda>e. routable e \<and> envelope \<in> set (a_envelopes (ae_action e))"
  from assms obtain es where es: "map_of (rg_actions r) (to_lowercase (make_index_key sector act version)) = Some es"
    and "pick_healthy r now rand (filter ?P es) = Some e"
    by (auto simp: find_action_with_envelope_def split: option.splits)
  then have "e \<in> set es" using pick_healthy_exact [of r now rand "filter ?P es"] by auto
  with map_of_SomeD [OF es] show ?thesis by (auto simp: table_entries_def)
qed

text \<open>A requester that finds only entries of one service, whose calls all give one response, gets it.\<close>

lemma request_one_service:
  assumes cand: "candidate (rq_registry q) (ro_sector opts) (ro_action opts) (ro_version opts)
      (envelope_str (ro_envelope opts)) e"
    and same: "\<And>x. x \<in> table_entries (rg_actions (rq_registry q)) \<Longrightarrow> ae_info x = info"
    and client: "\<And>i x. ae_info x = info \<Longrightarrow> re_client env i (call_of opts x) = Inr resp"
    and ok: "rs_error resp = None"
  shows "fst (request_with_opts env opts q) = Inr resp"
proof -
  have once: "\<exists>q'. dispatch_once env opts p = (Inr resp, q') \<and> rq_registry q' = rq_registry p"
    if r: "rg_actions (rq_registry p) = rg_actions (rq_registry q)" for p
  proof -
    have "candidate (rq_registry p) (ro_sector opts) (ro_action opts) (ro_version opts) (envelope_str (ro_envelope opts)) e"
      using cand r by (simp add: candidate_def find_actions_def)
    from candidate_found [OF this] obtain x where
      x: "find_action_with_envelope (rq_registry p) (re_now env (rq_lookups p)) (re_rand env (rq_lookups p))
        (ro_sector opts) (ro_action opts) (ro_version opts) (envelope_str (ro_envelope opts)) = Some x" by blast
    then have "x \<in> table_entries (rg_actions (rq_registry q))" using found_in_table r by metis
    with same client have "re_client env i (call_of opts x) = Inr resp" for i by blast
    with x ok show ?thesis by (simp add: dispatch_once_def lookup_service_def Let_def)
  qed
  obtain q1 where q1: "dispatch_once env opts q = (Inr resp, q1)" "rq_registry q1 = rq_registry q"
    using once [of q] by blast
  show ?thesis
  proof (cases "dispatch_failed resp")
    case False
    with q1 request_done [OF q1(1)] show ?thesis by simp
  next
    case True
    have "rg_actions (rq_registry (retry_state env opts q1)) = rg_actions (rq_registry q)"
      using q1(2) by (auto simp: retry_state_def lookup_service_def split: option.split)
    with once [of "retry_state env opts q1"] request_retried [OF q1(1) True] show ?thesis by auto
  qed
qed

definition announced_call :: "string \<Rightarrow> string \<Rightarrow> u32 \<Rightarrow> bytes \<Rightarrow> request_args" where
  "announced_call sector act version body =
     \<lparr>rq_action = act, rq_version = version, rq_envelope = Json, rq_ticket = [], rq_client_id = 0, rq_body = body\<rparr>"

lemma ucast_same [simp]: "(ucast (w :: 'a::len word) :: 'a word) = w"
  by simp

lemma args_of_call: "args_of (call_of (default_opts sector act version body) e) = announced_call sector act version body"
  by (simp add: args_of_def call_of_def default_opts_def announced_call_def)

text \<open>A call of an announced action that reaches the service gets the reply of its handler.\<close>

lemma announced_call_answered:
  assumes actions: "service_reachable s" "\<forall>ai \<in> set (actions_snapshot s).
        0 \<le> sint (ai_version ai) \<and> CHR ''/'' \<notin> set (to_lowercase (ai_name ai))"
      "a \<in> set (announced_actions (sv_sector s) (sv_envelopes s) (actions_snapshot s))"
    and asked: "to_lowercase act = a_path a" "length body \<le> u64_max"
    and env: "env = connection_env (\<lambda>n. True) None s" "read_cuts cuts"
    and headers: "header_fits enc dec (first_header (announced_call (sv_sector s) act (a_version a) body))"
      "\<And>k. header_fits enc dec (reply_header
        (reply_to env (first_header (announced_call (sv_sector s) act (a_version a) body)) body k) 1)"
  shows "\<exists>ra k. ra \<in> snd ` set (sv_actions s) \<and> to_lowercase (ra_name ra) = to_lowercase act \<and> ra_version ra = a_version a
    \<and> (let h = first_header (announced_call (sv_sector s) act (a_version a) body);
           reply = ra_handler ra k (request_of h body) in
       exchange enc dec cuts env (announced_call (sv_sector s) act (a_version a) body)
         = Inr \<lparr>rs_header = reply_header reply 1, rs_body = rep_body reply, rs_error = None\<rparr>)"
proof -
  let ?call = "announced_call (sv_sector s) act (a_version a) body"
  let ?h = "first_header ?call"
  have e: "env_actions env = map_of (sv_actions s)" "env_check env = None" "reliable env"
    by (simp_all add: env(1) connection_env_def reliable_def)
  have granted: "denial env ?h k = None" for k using e(2) by (simp add: denial_def)
  obtain k where ex: "exchange enc dec cuts env ?call = Inr (response_to env ?h body k)"
    using exchange_reply [OF e(3) granted headers(1) _ _ env(2)] headers(2) asked(2)
    by (auto simp: announced_call_def)
  have hh: "to_lowercase (h_action ?h) = a_path a" "h_version ?h = a_version a"
    using asked(1) by (simp_all add: first_header_def request_header_def lone_task_def announced_call_def Let_def)
  obtain ra where ra: "map_of (sv_actions s) (action_key ?h) = Some ra" "to_lowercase (ra_name ra) = a_path a"
    "ra_version ra = a_version a"
    using announced_registered [OF actions(1) _ actions(3) hh e(1)] actions(2) by blast
  have "response_to env ?h body k = \<lparr>rs_header = reply_header (ra_handler ra k (request_of ?h body)) 1,
      rs_body = rep_body (ra_handler ra k (request_of ?h body)), rs_error = None\<rparr>"
    using ra(1) by (simp add: response_to_def reply_to_def e(1))
  moreover have "ra \<in> snd ` set (sv_actions s)" using map_of_SomeD [OF ra(1)] by force
  ultimately show ?thesis
    using ex ra(2,3) asked(1) by (intro exI [of _ ra] exI [of _ k]) (simp add: Let_def)
qed


subsection \<open>Witnesses\<close>

text \<open>A printer and a reader that know two header texts.\<close>

definition pair_enc :: "packet_header \<Rightarrow> json \<Rightarrow> bytes" where
  "pair_enc h v = (if v = json_of_header h then ''Q'' else ''A'')"

definition pair_dec :: "packet_header \<Rightarrow> packet_header \<Rightarrow> bytes \<Rightarrow> json option" where
  "pair_dec h h' b = (if b = ''Q'' then Some (json_of_header h) else Some (json_of_header h'))"

lemma pair_fits:
  assumes "canonical_header h" and "canonical_header h'" and "h \<noteq> h'"
  shows "header_fits (pair_enc h) (pair_dec h h') h" and "header_fits (pair_enc h) (pair_dec h h') h'"
proof -
  have "json_of_header h' \<noteq> json_of_header h" using assms header_of_json_of_header option.inject by metis
  then show "header_fits (pair_enc h) (pair_dec h h') h" "header_fits (pair_enc h) (pair_dec h h') h'"
    using assms(1,2) by (simp_all add: header_fits_def pair_enc_def pair_dec_def)
qed

definition byte_cuts :: "bytes \<Rightarrow> bytes list" where
  "byte_cuts = map (\<lambda>b. [b])"

lemma byte_cuts [simp]: "read_cuts byte_cuts"
proof -
  have "concat (map (\<lambda>x. [x]) b) = b" for b :: bytes by (induction b) auto
  then show ?thesis by (auto simp: read_cuts_def byte_cuts_def READ_SIZE_def)
qed

definition health_args :: request_args where
  "health_args = announced_call ''main'' ''API.Status.health_check'' 1 ''?''"

definition health_reply :: packet_header where
  "health_reply = reply_header (reply_ok ''OK'') 1"

lemma health_headers [simp]: "canonical_header (first_header health_args)" "canonical_header health_reply"
  "first_header health_args \<noteq> health_reply" "rq_body health_args = ''?''"
  by (simp_all add: canonical_header_def first_header_def request_header_def lone_task_def health_args_def
      announced_call_def health_reply_def reply_header_def reply_ok_def Let_def)

definition health_env :: server_env where
  "health_env = connection_env (\<lambda>n. True) None sample_service"

abbreviation health_enc :: "json \<Rightarrow> bytes" where
  "health_enc \<equiv> pair_enc (first_header health_args)"

abbreviation health_dec :: "bytes \<Rightarrow> json option" where
  "health_dec \<equiv> pair_dec (first_header health_args) health_reply"

definition health_requester_env :: requester_env where
  "health_requester_env =
     \<lparr>re_client = (\<lambda>i. network_client health_enc health_dec byte_cuts [''beepish+tls://10.0.0.1:30105'' \<mapsto> health_env]),
      re_now = (\<lambda>i. 11), re_rand = (\<lambda>i. 0)\<rparr>"

lemma health_lower: "to_lowercase ''API.Status.health_check'' = ''api.status.health_check''"
  by (simp add: to_lowercase_def lower_char_def char_of_eq_iff)

lemma health_key: "action_key (first_header health_args) = ''api.status.health_check.v1''"
  by (simp add: first_header_def request_header_def lone_task_def health_args_def announced_call_def Let_def
      action_key_def health_lower dec_of_int_def dec_of_nat.simps digit_char_def char_of_eq_iff)

lemma health_env [simp]: "reliable health_env" "env_check health_env = None"
  "env_actions health_env = map_of (sv_actions sample_service)" "denial health_env h k = None"
  "reply_to health_env (first_header health_args) body k = reply_ok ''OK''"
  by (simp_all add: health_env_def reliable_def connection_env_def denial_def reply_to_def health_key)

lemma health_fits [simp]: "header_fits health_enc health_dec (first_header health_args)"
  "header_fits health_enc health_dec (reply_header (reply_ok ''OK'') 1)"
  using pair_fits [of "first_header health_args" health_reply] by (simp_all add: health_reply_def [symmetric])

lemma call_answered_by_service_witness:
  "\<exists>c s tk. handle_connection health_env health_dec
        (map Got (byte_cuts (stream_bytes health_enc (message_packets 0 (first_header health_args) ''?'')))) = ReadEnd c
    \<and> client_reachable s \<and> cn_tasks s 0 = Some tk \<and> t_args tk = health_args
    \<and> t_pc tk = Done (Response \<lparr>rs_header = reply_header (reply_ok ''OK'') 1, rs_body = ''OK'', rs_error = None\<rparr>)
    \<and> prefix (message_packets 0 (first_header health_args) ''?'') (cl_sent (cn_client s))"
proof -
  have cuts: "concat (byte_cuts b) = b" "\<forall>c \<in> set (byte_cuts b). c \<noteq> [] \<and> length c \<le> READ_SIZE" for b
    using byte_cuts unfolding read_cuts_def by blast+
  have len: "length (rq_body health_args) \<le> 65536" by simp
  have reply: "response_to health_env (first_header health_args) ''?'' k
      = \<lparr>rs_header = reply_header (reply_ok ''OK'') 1, rs_body = ''OK'', rs_error = None\<rparr>" for k
    by (simp add: response_to_def) (simp add: reply_ok_def)
  from call_answered_by_service [OF health_env(1,4) health_fits(1) len cuts, unfolded health_headers reply]
  show ?thesis by blast
qed


definition garbled_reads :: "bytes list" where
  "garbled_reads = [''HEADER 0 0'' @ crlf @ ''END'' @ crlf]"

definition waiting_client :: client where
  "waiting_client = client_init\<lparr>cl_pending := [(1, 0)]\<rparr>"


end
