(* ===== verification/Perl_Interop.thy ===== *)
theory Perl_Interop
  imports End_To_End
begin

text \<open>
  Compatibility with the Perl implementation: the packets its library sends, as captured in
  \<open>scamp/src/transport/beepish/proto/fixtures.rs\<close>, in whole sequences against both ends of a connection.  The
  order of JSON members and the use of null differ from what this code writes; what counts is only the
  header that a text reads as.
\<close>

subsection \<open>The fixtures (proto/fixtures.rs)\<close>

definition build_fixture :: "string \<Rightarrow> u64 \<Rightarrow> bytes \<Rightarrow> bytes" where
  "build_fixture pkt_type no body =
     pkt_type @ '' '' @ dec_of_nat (unat no) @ '' '' @ dec_of_nat (length body) @ crlf @ body @ ''END'' @ crlf"

definition quoted :: "string \<Rightarrow> string" where
  "quoted s = [CHR 0x22] @ s @ [CHR 0x22]"

definition json_member :: "string \<Rightarrow> string \<Rightarrow> string" where
  "json_member k v = quoted k @ '':'' @ v"

definition json_object :: "string list \<Rightarrow> bytes" where
  "json_object ms = ''{'' @ join '','' ms @ ''}''"

text \<open>The captured texts, member by member, and the documents they denote.\<close>

definition perl_request_json :: bytes where
  "perl_request_json = json_object
     [json_member ''envelope'' (quoted ''json''), json_member ''identifying_token'' (quoted []),
      json_member ''request_id'' ''1'', json_member ''type'' (quoted ''request''), json_member ''client_id'' ''0'',
      json_member ''ticket'' (quoted []), json_member ''version'' ''1'',
      json_member ''action'' (quoted ''api.status.health_check'')]"

definition perl_request_doc :: json where
  "perl_request_doc = JObj
     [(''envelope'', JStr ''json''), (''identifying_token'', JStr []), (''request_id'', JInt 1),
      (''type'', JStr ''request''), (''client_id'', JInt 0), (''ticket'', JStr []), (''version'', JInt 1),
      (''action'', JStr ''api.status.health_check'')]"

definition perl_nulls_json :: bytes where
  "perl_nulls_json = json_object
     [json_member ''request_id'' ''1'', json_member ''client_id'' ''0'', json_member ''type'' (quoted ''request''),
      json_member ''version'' ''1'', json_member ''envelope'' (quoted ''json''), json_member ''ticket'' ''null'',
      json_member ''identifying_token'' ''null'', json_member ''action'' (quoted ''api.status.health_check'')]"

definition perl_nulls_doc :: json where
  "perl_nulls_doc = JObj
     [(''request_id'', JInt 1), (''client_id'', JInt 0), (''type'', JStr ''request''), (''version'', JInt 1),
      (''envelope'', JStr ''json''), (''ticket'', JNull), (''identifying_token'', JNull),
      (''action'', JStr ''api.status.health_check'')]"

definition perl_reply_json :: bytes where
  "perl_reply_json = json_object
     [json_member ''envelope'' (quoted ''json''), json_member ''request_id'' ''1'', json_member ''error_code'' ''null'',
      json_member ''error'' ''null'', json_member ''type'' (quoted ''reply'')]"

definition perl_reply_doc :: json where
  "perl_reply_doc = JObj
     [(''envelope'', JStr ''json''), (''request_id'', JInt 1), (''error_code'', JNull), (''error'', JNull),
      (''type'', JStr ''reply'')]"

definition perl_error_json :: bytes where
  "perl_error_json = json_object
     [json_member ''type'' (quoted ''reply''), json_member ''error'' (quoted ''Action not found''),
      json_member ''error_code'' (quoted ''not_found''), json_member ''envelope'' (quoted ''json''),
      json_member ''request_id'' ''1'']"

definition perl_error_doc :: json where
  "perl_error_doc = JObj
     [(''type'', JStr ''reply''), (''error'', JStr ''Action not found''), (''error_code'', JStr ''not_found''),
      (''envelope'', JStr ''json''), (''request_id'', JInt 1)]"

definition perl_request_sequence :: "bytes \<Rightarrow> bytes" where
  "perl_request_sequence json =
     build_fixture ''HEADER'' 0 json @ build_fixture ''DATA'' 0 ''{}'' @ build_fixture ''EOF'' 0 []"

definition perl_reply_sequence :: "bytes \<Rightarrow> bytes \<Rightarrow> bytes" where
  "perl_reply_sequence json body =
     build_fixture ''HEADER'' 1 json @ build_fixture ''DATA'' 1 body @ build_fixture ''EOF'' 1 []"

text \<open>What is relied on of the JSON library: it reads the four texts as these documents.\<close>

definition reads_perl :: "(bytes \<Rightarrow> json option) \<Rightarrow> bool" where
  "reads_perl dec \<longleftrightarrow>
     dec perl_request_json = Some perl_request_doc \<and> dec perl_nulls_json = Some perl_nulls_doc
     \<and> dec perl_reply_json = Some perl_reply_doc \<and> dec perl_error_json = Some perl_error_doc"

subsection \<open>Headers of the other implementation\<close>

definition perl_request :: packet_header where
  "perl_request = default_header\<lparr>h_action := ''api.status.health_check'', h_request_id := 1, h_version := 1\<rparr>"

definition perl_reply :: packet_header where
  "perl_reply = default_header\<lparr>h_request_id := 1, h_message_type := Reply, h_version := 0\<rparr>"

definition perl_error :: packet_header where
  "perl_error = perl_reply\<lparr>h_error := Some ''Action not found'', h_error_code := Some ''not_found''\<rparr>"

lemma perl_headers:
  "header_of_json perl_request_doc = Some perl_request" "header_of_json perl_nulls_doc = Some perl_request"
  "header_of_json perl_reply_doc = Some perl_reply" "header_of_json perl_error_doc = Some perl_error"
  by code_simp+

lemma perl_canonical: "canonical_header perl_request" "canonical_header perl_reply" "canonical_header perl_error"
  using perl_headers header_of_json_canonical by blast+

subsection \<open>A decoder counts only for the headers it yields\<close>

lemma build_packet_cong:
  "(\<And>b. Option.bind (dec b) header_of_json = Option.bind (dec' b) header_of_json)
    \<Longrightarrow> build_packet dec cmd no payload = build_packet dec' cmd no payload"
  by (simp add: build_packet_def split: option.split)

lemma packet_parse_dec_cong:
  assumes "\<And>b. Option.bind (dec b) header_of_json = Option.bind (dec' b) header_of_json"
  shows "packet_parse dec = packet_parse dec'"
proof
  have "build_packet dec = build_packet dec'"
    by (intro ext build_packet_cong) (rule assms)
  then show "packet_parse dec buf = packet_parse dec' buf" for buf by (simp only: packet_parse_def)
qed

lemma drain_dec_cong:
  assumes "packet_parse dec = packet_parse dec'"
  shows "drain dec route buf s = drain dec' route buf s"
proof (induction "length buf" arbitrary: buf s rule: less_induct)
  case less
  show ?case
  proof (cases "packet_parse dec' buf")
    case (Success p n)
    have "length (drop n buf) < length buf" using packet_parse_success_bound [OF Success] by simp
    with less Success assms show ?thesis
      by (subst (1 2) drain.simps) (auto split: prod.split)
  qed (simp_all add: assms packet_parse_no_drop drain.simps [of dec] drain.simps [of dec'])
qed

lemma read_loop_dec_cong:
  assumes "packet_parse dec = packet_parse dec'"
  shows "read_loop dec route buf s chunks = read_loop dec' route buf s chunks"
  by (induction chunks arbitrary: buf s) (auto simp: drain_dec_cong [OF assms] split: drained.split)

text \<open>A text that reads as a header may stand for the code's own text of that header.\<close>

definition own_text :: "(bytes \<Rightarrow> json option) \<Rightarrow> bytes \<Rightarrow> packet_header \<Rightarrow> bytes \<Rightarrow> json option" where
  "own_text dec raw h b = (if b = raw then Some (json_of_header h) else dec b)"

lemma own_text_parse:
  assumes "dec raw = Some doc" and "header_of_json doc = Some h"
  shows "packet_parse dec = packet_parse (own_text dec raw h)"
proof (rule packet_parse_dec_cong)
  have "header_of_json (json_of_header h) = Some h"
    using header_of_json_of_header [OF header_of_json_canonical [OF assms(2)]] .
  with assms show "Option.bind (dec b) header_of_json = Option.bind (own_text dec raw h b) header_of_json" for b
    by (simp add: own_text_def)
qed

lemma own_text_fits:
  assumes "header_of_json doc = Some h" and "length raw \<le> 100000"
  shows "header_fits (\<lambda>v. raw) (own_text dec raw h) h"
  using assms header_of_json_canonical by (simp add: header_fits_def own_text_def)

lemma fixture_bytes:
  "build_fixture ''HEADER'' no raw = packet_bytes (\<lambda>v. raw) (header_packet no h)"
  "build_fixture ''DATA'' no body = packet_bytes enc (data_packet no body)"
  "build_fixture ''EOF'' no [] = packet_bytes enc (eof_packet no)"
  by (simp_all add: build_fixture_def packet_bytes_eq header_line_def body_buf_def trailer_def
      header_packet_def data_packet_def eof_packet_def)

lemma small_chunks: "body \<noteq> [] \<Longrightarrow> length body \<le> 2048 \<Longrightarrow> chunks_of DATA_CHUNK_SIZE body = [body]"
  by (simp add: chunks_of_step DATA_CHUNK_SIZE_def)

lemma fixture_stream:
  assumes "body \<noteq> []" and "length body \<le> 2048"
  shows "build_fixture ''HEADER'' no raw @ build_fixture ''DATA'' no body @ build_fixture ''EOF'' no []
    = stream_bytes (\<lambda>v. raw) (message_packets no h body)"
  using assms fixture_bytes(1) [of no raw h] fixture_bytes(2) [of no body "\<lambda>v. raw"] fixture_bytes(3) [of no "\<lambda>v. raw"]
  by (simp add: message_packets_def data_packets_def small_chunks)

lemma perl_text_header:
  assumes "reads_perl dec"
  shows "raw \<in> {perl_request_json, perl_nulls_json} \<Longrightarrow> \<exists>doc. dec raw = Some doc \<and> header_of_json doc = Some perl_request"
    and "\<exists>doc. dec perl_reply_json = Some doc \<and> header_of_json doc = Some perl_reply"
    and "\<exists>doc. dec perl_error_json = Some doc \<and> header_of_json doc = Some perl_error"
  using assms perl_headers by (auto simp: reads_perl_def)

lemma perl_text_lengths:
  "length perl_request_json \<le> 100000" "length perl_nulls_json \<le> 100000"
  "length perl_reply_json \<le> 100000" "length perl_error_json \<le> 100000"
  by (simp_all add: perl_request_json_def perl_nulls_json_def perl_reply_json_def perl_error_json_def
      json_object_def json_member_def quoted_def)

text \<open>
  C22: Requests of the Perl implementation are served.  Its captured request, with empty strings or with
  nulls for ticket and token, in any segmentation, is acknowledged with its two bytes and answered by
  the reply of the action it names.
\<close>

theorem perl_request_answered:
  assumes "reads_perl dec" and "raw \<in> {perl_request_json, perl_nulls_json}"
    and "reliable env" and "\<And>k. denial env perl_request k = None"
    and "concat reads = perl_request_sequence raw" and "\<forall>c \<in> set reads. c \<noteq> [] \<and> length c \<le> READ_SIZE"
  shows "\<exists>c k. handle_connection env dec (map Got reads) = ReadEnd c
    \<and> c_written c = ack_packet 0 2 # reply_packets env perl_request ''{}'' k 0"
proof -
  obtain doc where doc: "dec raw = Some doc" "header_of_json doc = Some perl_request"
    using perl_text_header(1) [OF assms(1,2)] by blast
  let ?dec = "own_text dec raw perl_request"
  have stream: "concat reads = stream_bytes (\<lambda>v. raw) (message_packets 0 perl_request ''{}'')"
    using assms(5) fixture_stream [of "''{}''" 0 raw perl_request] by (simp add: perl_request_sequence_def)
  have "length raw \<le> 100000" using assms(2) perl_text_lengths by auto
  from request_bytes_served [OF assms(3,4) own_text_fits [OF doc(2) this] stream assms(6)]
  obtain c k where "handle_connection env ?dec (map Got reads) = ReadEnd c"
    "c_written c = acks_for 0 0 (chunks_of DATA_CHUNK_SIZE ''{}'') @ reply_packets env perl_request ''{}'' k 0" by blast
  moreover have "handle_connection env dec (map Got reads) = handle_connection env ?dec (map Got reads)"
    using assms(6) read_loop_dec_cong [OF own_text_parse [where dec = dec, OF doc]]
    by (simp add: handle_connection_def serve_reads)
  ultimately show ?thesis by (auto simp: small_chunks numeral_2_eq_2)
qed

lemma perl_reply_routed:
  assumes "dec raw = Some doc" and "header_of_json doc = Some h" and "length raw \<le> 100000"
    and "body \<noteq> []" and "length body \<le> 2048"
    and "concat reads = perl_reply_sequence raw body" and "\<forall>c \<in> set reads. length c \<le> READ_SIZE"
    and "cl_next_in s = 1" and "cl_writer_alive s" and "map_of (cl_pending s) (h_request_id h) = Some t"
  shows "\<exists>s'. read_loop dec client_route_step [] s reads = ReadEnd s'
    \<and> cl_answers s' t = Some \<lparr>rs_header = h, rs_body = body, rs_error = None\<rparr>"
proof -
  let ?dec = "own_text dec raw h" and ?ps = "message_packets 1 h body"
  have stream: "concat reads = stream_bytes (\<lambda>v. raw) ?ps"
    using assms(6) fixture_stream [OF assms(4,5), of 1 raw h] by (simp add: perl_reply_sequence_def)
  have "\<forall>p \<in> set ?ps. receivable (\<lambda>v. raw) ?dec p"
    by (rule message_receivable [OF own_text_fits [OF assms(2,3)]])
  from read_loop_stream [OF stream this assms(7), of client_route_step s]
  have "read_loop dec client_route_step [] s reads = ReadEnd (fold client_route ?ps s)"
    by (simp add: client_route_all read_loop_dec_cong [OF own_text_parse [where dec = dec, OF assms(1,2)]])
  moreover have "cl_answers (fold client_route ?ps s) t = Some \<lparr>rs_header = h, rs_body = body, rs_error = None\<rparr>"
    using assms(8-10) by (intro client_route_message) simp_all
  ultimately show ?thesis by blast
qed


subsection \<open>Witnesses\<close>

definition perl_dec :: "bytes \<Rightarrow> json option" where
  "perl_dec b =
     (if b = perl_request_json then Some perl_request_doc else if b = perl_nulls_json then Some perl_nulls_doc
      else if b = perl_reply_json then Some perl_reply_doc else if b = perl_error_json then Some perl_error_doc
      else None)"

lemma perl_jsons_differ:
  "perl_nulls_json \<noteq> perl_request_json" "perl_reply_json \<noteq> perl_request_json" "perl_error_json \<noteq> perl_request_json"
  "perl_reply_json \<noteq> perl_nulls_json" "perl_error_json \<noteq> perl_nulls_json" "perl_error_json \<noteq> perl_reply_json"
  by (simp_all add: perl_request_json_def perl_nulls_json_def perl_reply_json_def perl_error_json_def
      json_object_def json_member_def quoted_def)

lemma perl_dec: "reads_perl perl_dec"
  by (simp add: reads_perl_def perl_dec_def perl_jsons_differ)

lemma perl_request_answered_witness:
  "\<exists>c k. handle_connection health_env perl_dec (map Got (byte_cuts (perl_request_sequence perl_nulls_json))) = ReadEnd c
    \<and> c_written c = ack_packet 0 2 # reply_packets health_env perl_request ''{}'' k 0"
proof (rule perl_request_answered [OF perl_dec])
  have cuts: "concat (byte_cuts b) = b" "\<forall>c \<in> set (byte_cuts b). c \<noteq> [] \<and> length c \<le> READ_SIZE" for b
    using byte_cuts unfolding read_cuts_def by blast+
  show "concat (byte_cuts (perl_request_sequence perl_nulls_json)) = perl_request_sequence perl_nulls_json"
    "\<forall>c \<in> set (byte_cuts (perl_request_sequence perl_nulls_json)). c \<noteq> [] \<and> length c \<le> READ_SIZE"
    using cuts by blast+
qed simp_all


end
