(* ===== verification/Sample_Service.thy ===== *)
theory Sample_Service
  imports Rpc_Support Discovery
begin

text \<open>
  The sample service, \<open>sample-service/src\<close>: its handlers with their \<open>#[rpc]\<close> attributes and \<open>main\<close>.  Printing
  and parsing of JSON text (\<open>to_vec\<close>, \<open>dec\<close> with the error text \<open>json_err\<close>), the key pair and the uptime are
  arguments; \<open>found\<close> is the order in which \<open>inventory\<close> gives the registrations.  It is the client of the whole
  library: names from module paths, registration, dispatch, replies, announcement.
\<close>

subsection \<open>State and types of the handlers\<close>

text \<open>\<open>start_time.elapsed()\<close> at the time of a call, in seconds.\<close>

record app_state =
  app_service_name :: string
  app_uptime :: "nat \<Rightarrow> u64"

record carrier =
  ca_id :: u64
  ca_name :: string
  ca_code :: string

definition ser_carrier :: "carrier \<Rightarrow> json" where
  "ser_carrier c = JObj [(''id'', JInt (uint (ca_id c))), (''name'', JStr (ca_name c)), (''code'', JStr (ca_code c))]"

text \<open>A required field: missing, repeated or of another type is an error; from an array by position.\<close>

fun de_track_request :: "json \<Rightarrow> string option" where
  "de_track_request (JObj kvs) = (case members ''tracking_number'' kvs of [v] \<Rightarrow> de_string v | _ \<Rightarrow> None)"
| "de_track_request (JArr [v]) = de_string v"
| "de_track_request _ = None"

definition ser_track_response :: "string \<Rightarrow> string \<Rightarrow> string \<Rightarrow> json" where
  "ser_track_response tracking_number status location =
     JObj [(''tracking_number'', JStr tracking_number), (''status'', JStr status), (''location'', JStr location)]"

subsection \<open>The handlers\<close>

type_synonym rpc_handler = "nat \<Rightarrow> request_context \<Rightarrow> handler_value"

text \<open>\<open>serde_json::json!\<close> makes a map ordered by key.\<close>

definition status_health_check :: rpc_handler where
  "status_health_check k ctx = TextValue ''ok''"

definition status_info :: "(json \<Rightarrow> string + bytes) \<Rightarrow> app_state \<Rightarrow> rpc_handler" where
  "status_info to_vec st k ctx =
     JsonValue (to_vec (JObj [(''service'', JStr (app_service_name st)), (''uptime_secs'', JInt (uint (app_uptime st k)))]))"

definition worker_process ::
  "(json \<Rightarrow> string + bytes) \<Rightarrow> (bytes \<Rightarrow> json option) \<Rightarrow> (bytes \<Rightarrow> string) \<Rightarrow> rpc_handler" where
  "worker_process to_vec dec json_err k ctx =
     (case context_json dec json_err de_value ctx of
        Inl e \<Rightarrow> ErrValue e
      | Inr job \<Rightarrow> OkValue (JsonValue (to_vec (JObj [(''job'', job), (''status'', JStr ''completed'')]))))"

definition carrier_fetch :: "(json \<Rightarrow> string + bytes) \<Rightarrow> rpc_handler" where
  "carrier_fetch to_vec k ctx =
     JsonValue (to_vec (JArr (map ser_carrier
       [\<lparr>ca_id = 1, ca_name = ''UPS'', ca_code = ''UPS''\<rparr>, \<lparr>ca_id = 2, ca_name = ''FedEx'', ca_code = ''FEDEX''\<rparr>,
        \<lparr>ca_id = 3, ca_name = ''USPS'', ca_code = ''USPS''\<rparr>])))"

definition shipment_track ::
  "(json \<Rightarrow> string + bytes) \<Rightarrow> (bytes \<Rightarrow> json option) \<Rightarrow> (bytes \<Rightarrow> string) \<Rightarrow> rpc_handler" where
  "shipment_track to_vec dec json_err k ctx =
     (case context_json dec json_err de_track_request ctx of
        Inl e \<Rightarrow> ErrValue e
      | Inr tracking_number \<Rightarrow>
          if tracking_number = [] then ErrValue ''tracking_number is required''
          else OkValue (JsonValue (to_vec (ser_track_response tracking_number ''in_transit'' ''Memphis, TN''))))"

definition test_echo :: rpc_handler where
  "test_echo k ctx = BytesValue (rc_body ctx)"

subsection \<open>Registrations\<close>

abbreviation noauth_meta :: rpc_meta where
  "noauth_meta \<equiv> MetaPath (Some ''noauth'')"

definition status_registrations :: "(json \<Rightarrow> string + bytes) \<Rightarrow> app_state \<Rightarrow> rpc_registration list" where
  "status_registrations to_vec st =
     [rpc_attribute ''sample_service::actions::api::status'' ''health_check'' [noauth_meta] status_health_check,
      rpc_attribute ''sample_service::actions::api::status'' ''info'' [noauth_meta] (status_info to_vec st)]"

definition worker_registration ::
  "(json \<Rightarrow> string + bytes) \<Rightarrow> (bytes \<Rightarrow> json option) \<Rightarrow> (bytes \<Rightarrow> string) \<Rightarrow> rpc_registration" where
  "worker_registration to_vec dec json_err =
     rpc_attribute ''sample_service::actions::background::worker'' ''process''
       [noauth_meta, MetaNameValue (Some ''sector'') (LitStr ''background'')] (worker_process to_vec dec json_err)"

definition carrier_registration :: "(json \<Rightarrow> string + bytes) \<Rightarrow> rpc_registration" where
  "carrier_registration to_vec =
     rpc_attribute ''sample_service::actions::constant::ship::carrier'' ''fetch'' [MetaPath (Some ''read'')]
       (carrier_fetch to_vec)"

definition shipment_registration ::
  "(json \<Rightarrow> string + bytes) \<Rightarrow> (bytes \<Rightarrow> json option) \<Rightarrow> (bytes \<Rightarrow> string) \<Rightarrow> rpc_registration" where
  "shipment_registration to_vec dec json_err =
     rpc_attribute ''sample_service::actions::order::shipment'' ''track''
       [MetaNameValue (Some ''version'') (LitInt (Some 2)), MetaNameValue (Some ''timeout'') (LitInt (Some 30))]
       (shipment_track to_vec dec json_err)"

definition echo_registration :: rpc_registration where
  "echo_registration =
     rpc_attribute ''sample_service::actions::scamp_rs_test'' ''echo'' [noauth_meta] test_echo"

definition sample_registrations ::
  "(json \<Rightarrow> string + bytes) \<Rightarrow> (bytes \<Rightarrow> json option) \<Rightarrow> (bytes \<Rightarrow> string) \<Rightarrow> app_state \<Rightarrow> rpc_registration list" where
  "sample_registrations to_vec dec json_err st =
     status_registrations to_vec st
       @ [worker_registration to_vec dec json_err, carrier_registration to_vec,
          shipment_registration to_vec dec json_err, echo_registration]"

text \<open>The service of the sample program, for the registrations in the order \<open>inventory\<close> gives them.\<close>

definition sample_discovered ::
  "string \<Rightarrow> rpc_registration list \<Rightarrow> scamp_service" where
  "sample_discovered rand_text found = auto_discover_into found (service_new rand_text ''SampleService'' ''main'')"

text \<open>\<open>main\<close>: the certificate is generated, the service listens on the loopback address only.\<close>

definition sample_main ::
  "string \<Rightarrow> rpc_registration list \<Rightarrow> (bytes \<Rightarrow> bytes \<Rightarrow> bool) \<Rightarrow> (nat \<Rightarrow> nat) \<Rightarrow> (nat \<Rightarrow> nat \<Rightarrow> bool)
   \<Rightarrow> bytes \<times> bytes \<Rightarrow> run_event list \<Rightarrow> (nat \<times> nat) list \<Rightarrow> bind_error + run_result" where
  "sample_main rand_text found identity_ok rands free keypair events looks =
     (case bind_pem identity_ok rands free (fst keypair) (snd keypair) (127, 0, 0, 1)
             (sample_discovered rand_text found) of
        (Inl e, s) \<Rightarrow> Inl e
      | (Inr _, s) \<Rightarrow> Inr (run_service s events looks))"

subsection \<open>Names\<close>

lemma rpc_attribute_fields [simp]:
  "rr_handler (rpc_attribute m f metas handler) = handler"
  by (simp add: rpc_attribute_def Let_def)

lemma sample_names:
  "map (\<lambda>r. (registration_path r, rr_version r, rr_flags r)) (sample_registrations to_vec dec json_err st) =
     [(''Api.Status.healthCheck'', 1, [''noauth'']), (''Api.Status.info'', 1, [''noauth'']),
      (''Background.Worker.process'', 1, [''noauth'']), (''Constant.Ship.Carrier.fetch'', 1, [''read'']),
      (''Order.Shipment.track'', 2, [''t30'']), (''ScampRsTest.echo'', 1, [''noauth''])]"
  by code_simp

lemma sample_keys:
  "map key_of_registration (sample_registrations to_vec dec json_err st) =
     [''api.status.healthcheck.v1'', ''api.status.info.v1'', ''background.worker.process.v1'',
      ''constant.ship.carrier.fetch.v1'', ''order.shipment.track.v2'', ''scamprstest.echo.v1'']"
proof -
  have "key_of_registration = (\<lambda>(p, v, f). registration_key p (ucast v)) \<circ> (\<lambda>r. (registration_path r, rr_version r, rr_flags r))"
    by (rule ext) (simp add: key_of_registration_def)
  then have "map key_of_registration rs
      = map (\<lambda>(p, v, f). registration_key p (ucast v)) (map (\<lambda>r. (registration_path r, rr_version r, rr_flags r)) rs)"
    for rs by simp
  then show ?thesis unfolding sample_names by code_simp
qed

lemma sample_action_found:
  assumes "mset found = mset (sample_registrations to_vec dec json_err st)"
    and "reg \<in> set (sample_registrations to_vec dec json_err st)"
  shows "map_of (sv_actions (sample_discovered rand_text found)) (key_of_registration reg)
    = Some \<lparr>ra_name = registration_path reg, ra_version = ucast (rr_version reg), ra_flags = rr_flags reg,
        ra_handler = (\<lambda>k req. into_scamp_reply (rr_handler reg k (context_of req)))\<rparr>"
proof -
  have "distinct (map key_of_registration (sample_registrations to_vec dec json_err st))"
    unfolding sample_keys by simp
  moreover have "distinct (map key_of_registration found) \<longleftrightarrow> distinct (map key_of_registration (sample_registrations to_vec dec json_err st))"
    using assms(1) by (metis mset_eq_imp_distinct_iff mset_map)
  moreover have "reg \<in> set found" using assms by (metis set_mset_mset)
  ultimately show ?thesis unfolding sample_discovered_def by (intro discovered_handler) simp_all
qed

lemma sample_reply:
  assumes "mset found = mset (sample_registrations to_vec dec json_err st)"
    and "reg \<in> set (sample_registrations to_vec dec json_err st)"
    and "env_actions env = map_of (sv_actions (sample_discovered rand_text found))"
    and "action_key h = key_of_registration reg"
  shows "reply_to env h body k = into_scamp_reply (rr_handler reg k (context_of (request_of h body)))"
  using sample_action_found [OF assms(1,2), of rand_text] by (simp add: reply_to_def assms(3,4))

text \<open>
  The sample service answers a tracking request in full.  In whatever order its handlers are found, a
  request for order.shipment.track version 2 (in any case of letters) gets: the library's error for a
  body that is not JSON or has no tracking number, an error of its own for an empty one, and otherwise
  the JSON of the shipment.
\<close>

theorem sample_tracking_answered:
  assumes "mset found = mset (sample_registrations to_vec dec json_err st)"
    and "env_actions env = map_of (sv_actions (sample_discovered rand_text found))"
    and "to_lowercase (h_action h) = ''order.shipment.track''" and "h_version h = 2"
  shows "reply_to env h body k =
    (case dec body of
       None \<Rightarrow> reply_error (json_err body) ''error''
     | Some v \<Rightarrow>
         (case de_track_request v of
            None \<Rightarrow> reply_error (json_err body) ''error''
          | Some number \<Rightarrow>
              if number = [] then reply_error ''tracking_number is required'' ''error''
              else (case to_vec (ser_track_response number ''in_transit'' ''Memphis, TN'') of
                      Inl e \<Rightarrow> reply_error e ''serialization_error''
                    | Inr reply \<Rightarrow> reply_ok reply)))"
proof -
  let ?reg = "shipment_registration to_vec dec json_err"
  have reg: "?reg \<in> set (sample_registrations to_vec dec json_err st)"
    by (simp add: sample_registrations_def)
  have "key_of_registration ?reg = ''order.shipment.track.v2''"
    using arg_cong [OF sample_keys [of to_vec dec json_err st], of "\<lambda>ks. ks ! 4"]
    by (simp add: sample_registrations_def status_registrations_def)
  then have key: "action_key h = key_of_registration ?reg"
    by (simp add: action_key_def assms(3,4) dec_of_int_def dec_of_nat.simps digit_char_def char_of_eq_iff)
  have body: "rc_body (context_of (request_of h body)) = body"
    by (simp add: context_of_def request_of_def)
  show ?thesis
    unfolding sample_reply [OF assms(1) reg assms(2) key]
    by (auto simp: shipment_registration_def shipment_track_def context_json_def body split: option.split sum.split)
qed

lemma worker_registered:
  assumes "mset found = mset (sample_registrations to_vec dec json_err st)"
  shows "\<exists>ra. (''background.worker.process.v1'', ra) \<in> set (sv_actions (sample_discovered rand_text found))
    \<and> ra_name ra = ''Background.Worker.process'' \<and> ra_version ra = 1"
proof -
  let ?reg = "worker_registration to_vec dec json_err"
  have "key_of_registration ?reg = ''background.worker.process.v1''"
    using arg_cong [OF sample_keys [of to_vec dec json_err st], of "\<lambda>ks. ks ! 2"]
    by (simp add: sample_registrations_def status_registrations_def)
  moreover have "registration_path ?reg = ''Background.Worker.process'' \<and> rr_version ?reg = 1"
    using arg_cong [OF sample_names [of to_vec dec json_err st], of "\<lambda>ks. ks ! 2"]
    by (simp add: sample_registrations_def status_registrations_def)
  moreover have "?reg \<in> set (sample_registrations to_vec dec json_err st)"
    by (simp add: sample_registrations_def)
  ultimately show ?thesis
    using sample_action_found [OF assms, of ?reg rand_text] by (fastforce dest: map_of_SomeD)
qed

text \<open>
  The sector of the attribute has no effect.  The worker's process action asks for the sector background;
  however the service is bound, what it announces puts the action in the sector main.
\<close>

theorem sector_override_ignored:
  assumes "mset found = mset (sample_registrations to_vec dec json_err st)"
    and "bind_pem identity_ok rands free key_pem cert_pem ip (sample_discovered rand_text found) = (Inr (), s)"
  shows "rr_sector (worker_registration to_vec dec json_err) = Some ''background''
    \<and> (\<exists>a \<in> set (announced_actions (sv_sector s) (sv_envelopes s) (actions_snapshot s)).
         a_path a = ''background.worker.process'' \<and> a_version a = 1)
    \<and> (\<forall>a \<in> set (announced_actions (sv_sector s) (sv_envelopes s) (actions_snapshot s)). a_sector a = ''main'')"
proof -
  have s: "sv_sector s = ''main''" "sv_actions s = sv_actions (sample_discovered rand_text found)"
    using bind_pem_fields [OF assms(2)] by (simp_all add: sample_discovered_def service_new_def)
  obtain ra where ra: "(''background.worker.process.v1'', ra) \<in> set (sv_actions s)"
    "ra_name ra = ''Background.Worker.process''" "ra_version ra = 1"
    using worker_registered [OF assms(1), of rand_text] unfolding s by blast
  then have "action_info_of ra \<in> set (actions_snapshot s)" by (force simp: actions_snapshot_def)
  moreover have "replace_char CHR ''/'' CHR ''.'' (to_lowercase ''Background.Worker.process'') = ''background.worker.process''"
    by code_simp
  ultimately have "\<exists>a \<in> set (announced_actions (sv_sector s) (sv_envelopes s) (actions_snapshot s)).
      a_path a = ''background.worker.process'' \<and> a_version a = 1"
    using announced_of [of "action_info_of ra" "actions_snapshot s" "sv_sector s" "sv_envelopes s"] ra
    by (simp add: action_info_of_def)
  moreover have "rr_sector (worker_registration to_vec dec json_err) = Some ''background''"
    by (simp add: worker_registration_def rpc_attribute_def rpc_default_def Let_def)
  ultimately show ?thesis by (auto simp: s(1) dest: announced_sector)
qed

subsection \<open>Witnesses\<close>

definition track_header :: packet_header where
  "track_header = default_header\<lparr>h_action := ''Order.Shipment.track'', h_version := 2\<rparr>"

definition track_to_vec :: "json \<Rightarrow> string + bytes" where
  "track_to_vec v = Inr ''tracked''"

definition track_dec :: "bytes \<Rightarrow> json option" where
  "track_dec b = (if b = ''1Z'' then Some (JObj [(''tracking_number'', JStr ''1Z'')]) else None)"

definition track_found :: "rpc_registration list" where
  "track_found = rev (sample_registrations track_to_vec track_dec (\<lambda>b. ''bad'')
     \<lparr>app_service_name = ''SampleService'', app_uptime = (\<lambda>k. 0)\<rparr>)"

lemma track_found: "mset track_found = mset (sample_registrations track_to_vec track_dec (\<lambda>b. ''bad'')
     \<lparr>app_service_name = ''SampleService'', app_uptime = (\<lambda>k. 0)\<rparr>)"
  by (simp add: track_found_def)

lemma sample_tracking_answered_witness:
  "reply_to (echo_env\<lparr>env_actions := map_of (sv_actions (sample_discovered ''abc'' track_found))\<rparr>) track_header ''1Z'' 0
     = reply_ok ''tracked''
   \<and> reply_to (echo_env\<lparr>env_actions := map_of (sv_actions (sample_discovered ''abc'' track_found))\<rparr>) track_header ''?'' 0
     = reply_error ''bad'' ''error''"
proof -
  let ?env = "echo_env\<lparr>env_actions := map_of (sv_actions (sample_discovered ''abc'' track_found))\<rparr>"
  have env: "env_actions ?env = map_of (sv_actions (sample_discovered ''abc'' track_found))" by simp
  have act: "to_lowercase (h_action track_header) = ''order.shipment.track''" by code_simp
  have version: "h_version track_header = 2" by (simp add: track_header_def)
  show ?thesis
    unfolding sample_tracking_answered [OF track_found env act version]
    by (simp add: track_dec_def track_to_vec_def)
qed

lemma sector_override_ignored_witness:
  "\<exists>a \<in> set (announced_actions
       (sv_sector (snd (bind_pem (\<lambda>c k. True) (\<lambda>i. 5) (\<lambda>i p. True) ''KEY'' ''CERT'' (127, 0, 0, 1) (sample_discovered ''abc'' track_found))))
       (sv_envelopes (snd (bind_pem (\<lambda>c k. True) (\<lambda>i. 5) (\<lambda>i p. True) ''KEY'' ''CERT'' (127, 0, 0, 1) (sample_discovered ''abc'' track_found))))
       (actions_snapshot (snd (bind_pem (\<lambda>c k. True) (\<lambda>i. 5) (\<lambda>i p. True) ''KEY'' ''CERT'' (127, 0, 0, 1) (sample_discovered ''abc'' track_found))))).
     a_path a = ''background.worker.process'' \<and> a_version a = 1 \<and> a_sector a = ''main''"
proof -
  let ?bound = "bind_pem (\<lambda>c k. True) (\<lambda>i. 5) (\<lambda>i p. True) ''KEY'' ''CERT'' (127, 0, 0, 1) (sample_discovered ''abc'' track_found)"
  have "fst ?bound = Inr ()" by (simp add: bind_pem_def Let_def BIND_TRIES_def bind_loop_first)
  then have "?bound = (Inr (), snd ?bound)" by (metis prod.collapse)
  from sector_override_ignored [OF track_found this] show ?thesis by blast
qed

end
