(* ===== verification/Connection_Pool.thy ===== *)
theory Connection_Pool
  imports Client_Connection Announcement_Packet
begin

text \<open>
  The client's connections, the rest of \<open>scamp/src/transport/beepish/client/connection.rs\<close>:
  \<open>BeepishClient\<close> with its pool, \<open>ConnectionHandle::connect\<close> with the fingerprint check, and
  \<open>from_stream\<close>.  TCP and TLS are an argument: what a dial to an address gives.  The pool's lock is held
  across the dial, so a \<open>get_connection\<close> is one step.  Handles are shared by reference: the pool maps a
  URI to the index of a handle in the list of all handles made.
\<close>

subsection \<open>Connecting\<close>

text \<open>The certificate of the peer as the TLS stream gives it.\<close>

datatype peer_certificate = CertUnreadable | CertAbsent | CertNotDer | CertDer bytes

datatype dial = TcpTimedOut | TcpFailed | NodelayFailed | HandshakeLate | HandshakeBroken | Dialled peer_certificate

datatype connect_error =
    NoTlsConnector
  | BadServiceUri addr_error
  | ConnectTimedOut
  | ConnectFailed
  | NodelayError
  | HandshakeTimedOut
  | HandshakeFailed
  | PeerCertFailed
  | PeerCertMissing
  | PeerDerFailed
  | CertificateMismatch string string

definition check_peer ::
  "(bytes \<Rightarrow> bytes) \<Rightarrow> string option \<Rightarrow> peer_certificate \<Rightarrow> connect_error + unit" where
  "check_peer sha1 expected cert =
     (case expected of
        None \<Rightarrow> Inr ()
      | Some expected_fp \<Rightarrow>
          (case cert of
             CertUnreadable \<Rightarrow> Inl PeerCertFailed
           | CertAbsent \<Rightarrow> Inl PeerCertMissing
           | CertNotDer \<Rightarrow> Inl PeerDerFailed
           | CertDer der \<Rightarrow>
               (let actual_fp = cert_sha1_fingerprint sha1 der in
                if actual_fp \<noteq> expected_fp then Inl (CertificateMismatch expected_fp actual_fp)
                else Inr ())))"

text \<open>A handle with, for the proofs, the URI and fingerprint it was made for and the peer's certificate.\<close>

record handle =
  hd_conn :: connection
  hd_uri :: string
  hd_expected :: "string option"
  hd_peer :: peer_certificate

definition from_stream :: "string \<Rightarrow> string option \<Rightarrow> peer_certificate \<Rightarrow> handle" where
  "from_stream uri expected cert =
     \<lparr>hd_conn = connection_init, hd_uri = uri, hd_expected = expected, hd_peer = cert\<rparr>"

definition connect_handle ::
  "(bytes \<Rightarrow> bytes) \<Rightarrow> bool \<Rightarrow> (ipv4 \<times> nat \<Rightarrow> dial) \<Rightarrow> service_info \<Rightarrow> string option \<Rightarrow> connect_error + handle" where
  "connect_handle sha1 tls_ok dial si expected =
     (if \<not> tls_ok then Inl NoTlsConnector
      else case socket_addr si of
        Inl e \<Rightarrow> Inl (BadServiceUri e)
      | Inr addr \<Rightarrow>
          (case dial addr of
             TcpTimedOut \<Rightarrow> Inl ConnectTimedOut
           | TcpFailed \<Rightarrow> Inl ConnectFailed
           | NodelayFailed \<Rightarrow> Inl NodelayError
           | HandshakeLate \<Rightarrow> Inl HandshakeTimedOut
           | HandshakeBroken \<Rightarrow> Inl HandshakeFailed
           | Dialled cert \<Rightarrow>
               (case check_peer sha1 expected cert of
                  Inl e \<Rightarrow> Inl e
                | Inr _ \<Rightarrow> Inr (from_stream (si_uri si) expected cert))))"

subsection \<open>The pool\<close>

record pool =
  po_by_uri :: "string \<rightharpoonup> nat"
  po_handles :: "handle list"

definition pool_new :: pool where
  "pool_new = \<lparr>po_by_uri = Map.empty, po_handles = []\<rparr>"

definition handle_closed :: "pool \<Rightarrow> nat \<Rightarrow> bool" where
  "handle_closed p i \<longleftrightarrow> cn_closed (hd_conn (po_handles p ! i))"

definition add_connection ::
  "(bytes \<Rightarrow> bytes) \<Rightarrow> bool \<Rightarrow> (ipv4 \<times> nat \<Rightarrow> dial) \<Rightarrow> service_info \<Rightarrow> pool \<Rightarrow> (connect_error + nat) \<times> pool" where
  "add_connection sha1 tls_ok dial si p =
     (case connect_handle sha1 tls_ok dial si (si_fingerprint si) of
        Inl e \<Rightarrow> (Inl e, p)
      | Inr h \<Rightarrow>
          (Inr (length (po_handles p)),
           p\<lparr>po_by_uri := (po_by_uri p)(si_uri si \<mapsto> length (po_handles p)),
             po_handles := po_handles p @ [h]\<rparr>))"

definition get_connection ::
  "(bytes \<Rightarrow> bytes) \<Rightarrow> bool \<Rightarrow> (ipv4 \<times> nat \<Rightarrow> dial) \<Rightarrow> service_info \<Rightarrow> pool \<Rightarrow> (connect_error + nat) \<times> pool" where
  "get_connection sha1 tls_ok dial si p =
     (case po_by_uri p (si_uri si) of
        Some i \<Rightarrow>
          if \<not> handle_closed p i then (Inr i, p)
          else add_connection sha1 tls_ok dial si (p\<lparr>po_by_uri := (po_by_uri p)(si_uri si := None)\<rparr>)
      | None \<Rightarrow> add_connection sha1 tls_ok dial si p)"

definition request_duration :: "nat option \<Rightarrow> nat" where
  "request_duration timeout_secs =
     (case timeout_secs of Some t \<Rightarrow> t | None \<Rightarrow> DEFAULT_RPC_TIMEOUT_SECS)"

definition update_handle :: "nat \<Rightarrow> connection \<Rightarrow> pool \<Rightarrow> pool" where
  "update_handle i s p = p\<lparr>po_handles := (po_handles p)[i := (po_handles p ! i)\<lparr>hd_conn := s\<rparr>]\<rparr>"

text \<open>\<open>BeepishClient::request\<close>: the call of \<open>send_request\<close> is task \<open>t\<close> of the connection.\<close>

definition client_request ::
  "(bytes \<Rightarrow> bytes) \<Rightarrow> bool \<Rightarrow> (ipv4 \<times> nat \<Rightarrow> dial) \<Rightarrow> service_info \<Rightarrow> nat \<Rightarrow> request_args \<Rightarrow> nat option \<Rightarrow> pool
   \<Rightarrow> (connect_error + nat \<times> nat) \<times> pool" where
  "client_request sha1 tls_ok dial si t args timeout_secs p =
     (case get_connection sha1 tls_ok dial si p of
        (Inl e, p') \<Rightarrow> (Inl e, p')
      | (Inr i, p') \<Rightarrow>
          (Inr (i, request_duration timeout_secs), update_handle i (call t args (hd_conn (po_handles p' ! i))) p'))"

subsection \<open>Reachable pools\<close>

inductive pool_step :: "(bytes \<Rightarrow> bytes) \<Rightarrow> pool \<Rightarrow> pool \<Rightarrow> bool" for sha1 where
  connect: "get_connection sha1 tls_ok dial si p = (res, p') \<Longrightarrow> pool_step sha1 p p'"
| request: "client_request sha1 tls_ok dial si t args timeout_secs p = (answer, p')
    \<Longrightarrow> \<forall>h \<in> set (po_handles p). cn_tasks (hd_conn h) t = None \<Longrightarrow> pool_step sha1 p p'"
| progress: "i < length (po_handles p) \<Longrightarrow> client_step (hd_conn (po_handles p ! i)) s
    \<Longrightarrow> pool_step sha1 p (update_handle i s p)"

definition pool_reachable :: "(bytes \<Rightarrow> bytes) \<Rightarrow> pool \<Rightarrow> bool" where
  "pool_reachable sha1 p \<longleftrightarrow> (pool_step sha1)\<^sup>*\<^sup>* pool_new p"

definition peer_verified :: "(bytes \<Rightarrow> bytes) \<Rightarrow> handle \<Rightarrow> bool" where
  "peer_verified sha1 h \<longleftrightarrow>
     (case hd_expected h of
        None \<Rightarrow> True
      | Some fp \<Rightarrow> (\<exists>der. hd_peer h = CertDer der \<and> cert_sha1_fingerprint sha1 der = fp))"

lemma peer_verified_conn [simp]: "peer_verified sha1 (h\<lparr>hd_conn := s\<rparr>) = peer_verified sha1 h"
  by (cases "hd_expected h") (simp_all add: peer_verified_def)

definition pool_ok :: "(bytes \<Rightarrow> bytes) \<Rightarrow> pool \<Rightarrow> bool" where
  "pool_ok sha1 p \<longleftrightarrow>
     (\<forall>u i. po_by_uri p u = Some i \<longrightarrow> i < length (po_handles p) \<and> hd_uri (po_handles p ! i) = u)
     \<and> (\<forall>i < length (po_handles p).
          client_reachable (hd_conn (po_handles p ! i)) \<and> peer_verified sha1 (po_handles p ! i)
          \<and> (\<not> handle_closed p i \<longrightarrow> po_by_uri p (hd_uri (po_handles p ! i)) = Some i))"

lemma check_peer_verified:
  "check_peer sha1 expected cert = Inr x \<Longrightarrow> peer_verified sha1 (from_stream uri expected cert)"
  by (auto simp: check_peer_def peer_verified_def from_stream_def Let_def
      split: option.splits peer_certificate.splits if_splits)

lemma connect_handle_new:
  assumes "connect_handle sha1 tls_ok dial si expected = Inr h"
  shows "hd_uri h = si_uri si \<and> hd_conn h = connection_init \<and> hd_expected h = expected \<and> peer_verified sha1 h"
  using assms check_peer_verified
  by (auto simp: connect_handle_def split: if_splits sum.splits dial.splits) (auto simp: from_stream_def)

lemma pool_ok_add:
  assumes ok: "pool_ok sha1 p" and none: "po_by_uri p (si_uri si) = None"
    and add: "add_connection sha1 tls_ok dial si p = (res, p')"
  shows "pool_ok sha1 p'"
proof (cases "connect_handle sha1 tls_ok dial si (si_fingerprint si)")
  case (Inl e)
  then show ?thesis using add ok by (simp add: add_connection_def)
next
  case (Inr h)
  then have p': "p' = p\<lparr>po_by_uri := (po_by_uri p)(si_uri si \<mapsto> length (po_handles p)),
      po_handles := po_handles p @ [h]\<rparr>"
    using add by (simp add: add_connection_def)
  have h: "hd_uri h = si_uri si" "hd_conn h = connection_init" "peer_verified sha1 h"
    using connect_handle_new [OF Inr] by auto
  show ?thesis
    unfolding pool_ok_def
  proof (intro conjI allI impI)
    fix u i assume "po_by_uri p' u = Some i"
    then show "i < length (po_handles p')" "hd_uri (po_handles p' ! i) = u"
      using ok h(1) by (auto simp: p' pool_ok_def nth_append less_Suc_eq split: if_splits)
  next
    fix i assume i: "i < length (po_handles p')"
    show "client_reachable (hd_conn (po_handles p' ! i))" "peer_verified sha1 (po_handles p' ! i)"
      using i ok h by (auto simp: p' pool_ok_def nth_append less_Suc_eq)
    assume open_i: "\<not> handle_closed p' i"
    show "po_by_uri p' (hd_uri (po_handles p' ! i)) = Some i"
    proof (cases "i < length (po_handles p)")
      case True
      then have "po_by_uri p (hd_uri (po_handles p ! i)) = Some i"
        using ok open_i by (simp add: pool_ok_def p' handle_closed_def nth_append)
      with True none show ?thesis by (auto simp: p' nth_append)
    next
      case False
      with i show ?thesis using h(1) by (simp add: p' less_Suc_eq)
    qed
  qed
qed

lemma closed_stays: "client_step s s' \<Longrightarrow> cn_closed s \<Longrightarrow> cn_closed s'"
  by (cases rule: client_step.cases) (auto simp: cn_closed_def task_step_frame)

lemma pool_ok_get:
  assumes get: "get_connection sha1 tls_ok dial si p = (res, p')" and ok: "pool_ok sha1 p"
  shows "pool_ok sha1 p'"
proof (cases "po_by_uri p (si_uri si)")
  case None
  with get have "add_connection sha1 tls_ok dial si p = (res, p')" by (simp add: get_connection_def)
  with ok None show ?thesis by (rule pool_ok_add)
next
  case (Some i)
  show ?thesis
  proof (cases "handle_closed p i")
    case False
    with Some get ok show ?thesis by (simp add: get_connection_def)
  next
    case True
    let ?p = "p\<lparr>po_by_uri := (po_by_uri p)(si_uri si := None)\<rparr>"
    have "pool_ok sha1 ?p"
      unfolding pool_ok_def
    proof (intro conjI allI impI)
      fix j assume j: "j < length (po_handles ?p)" "\<not> handle_closed ?p j"
      then have "po_by_uri p (hd_uri (po_handles p ! j)) = Some j"
        using ok by (simp add: pool_ok_def handle_closed_def)
      moreover from this have "hd_uri (po_handles p ! j) \<noteq> si_uri si"
        using Some True j(2) by (auto simp: handle_closed_def)
      ultimately show "po_by_uri ?p (hd_uri (po_handles ?p ! j)) = Some j" by simp
    qed (use ok in \<open>auto simp: pool_ok_def split: if_splits\<close>)
    moreover have "po_by_uri ?p (si_uri si) = None" by simp
    moreover have "add_connection sha1 tls_ok dial si ?p = (res, p')"
      using Some True get by (simp add: get_connection_def)
    ultimately show ?thesis by (rule pool_ok_add)
  qed
qed

lemma pool_ok_update:
  assumes i: "i < length (po_handles p)" and step: "client_step (hd_conn (po_handles p ! i)) s"
    and ok: "pool_ok sha1 p"
  shows "pool_ok sha1 (update_handle i s p)"
proof -
  let ?p = "update_handle i s p"
  have closed: "handle_closed p j \<Longrightarrow> handle_closed ?p j" for j
    using closed_stays [OF step] i
    by (cases "j = i") (auto simp: handle_closed_def update_handle_def)
  have reach: "client_reachable s"
    using i step ok client_reachable_step by (auto simp: pool_ok_def)
  have eq: "po_by_uri ?p = po_by_uri p" "length (po_handles ?p) = length (po_handles p)"
    "hd_uri (po_handles ?p ! j) = hd_uri (po_handles p ! j)"
    "hd_conn (po_handles ?p ! j) = (if j = i then s else hd_conn (po_handles p ! j))"
    "peer_verified sha1 (po_handles ?p ! j) = peer_verified sha1 (po_handles p ! j)" for j
    using i by (auto simp: update_handle_def nth_list_update)
  show ?thesis
    unfolding pool_ok_def eq
  proof (intro conjI allI impI)
    fix j assume j: "j < length (po_handles p)"
    show "client_reachable (if j = i then s else hd_conn (po_handles p ! j))"
      using j ok reach by (simp add: pool_ok_def)
    show "peer_verified sha1 (po_handles p ! j)" using j ok by (simp add: pool_ok_def)
    assume "\<not> handle_closed ?p j"
    then have "\<not> handle_closed p j" using closed by blast
    with j ok show "po_by_uri p (hd_uri (po_handles p ! j)) = Some j" by (simp add: pool_ok_def)
  qed (use ok in \<open>auto simp: pool_ok_def\<close>)
qed

text \<open>What a call of \<open>get_connection\<close> gives: the open connection pooled under the URI.\<close>

lemma add_connection_handle:
  assumes "add_connection sha1 tls_ok dial si p = (Inr i, p')"
  shows "po_by_uri p' (si_uri si) = Some i" "\<not> handle_closed p' i"
    "hd_conn (po_handles p' ! i) = connection_init"
proof -
  from assms obtain h where h: "connect_handle sha1 tls_ok dial si (si_fingerprint si) = Inr h"
    and "i = length (po_handles p)"
    and "p' = p\<lparr>po_by_uri := (po_by_uri p)(si_uri si \<mapsto> length (po_handles p)), po_handles := po_handles p @ [h]\<rparr>"
    by (auto simp: add_connection_def split: sum.splits)
  with connect_handle_new [OF h] show "po_by_uri p' (si_uri si) = Some i" "\<not> handle_closed p' i"
    "hd_conn (po_handles p' ! i) = connection_init"
    by (simp_all add: handle_closed_def cn_closed_def connection_init_def)
qed

lemma get_connection_handle:
  assumes "get_connection sha1 tls_ok dial si p = (Inr i, p')"
  shows "po_by_uri p' (si_uri si) = Some i" "\<not> handle_closed p' i"
    "(po_by_uri p (si_uri si) = Some i \<and> p' = p) \<or> hd_conn (po_handles p' ! i) = connection_init"
  using assms add_connection_handle
  by (auto simp: get_connection_def split: option.splits if_splits)

lemma pool_ok_step:
  assumes "pool_step sha1 p p'" and ok: "pool_ok sha1 p"
  shows "pool_ok sha1 p'"
  using assms(1)
proof cases
  case (connect tls_ok dial si res)
  from this ok show ?thesis by (rule pool_ok_get)
next
  case (request tls_ok dial si t args timeout_secs answer)
  show ?thesis
  proof (cases "get_connection sha1 tls_ok dial si p")
    case (Pair res q)
    have q: "pool_ok sha1 q" using Pair ok by (rule pool_ok_get)
    show ?thesis
    proof (cases res)
      case (Inl e)
      with Pair request(1) q show ?thesis by (simp add: client_request_def)
    next
      case (Inr i)
      with Pair request(1) have p': "p' = update_handle i (call t args (hd_conn (po_handles q ! i))) q"
        by (simp add: client_request_def)
      note g = get_connection_handle [OF Pair [unfolded Inr]]
      have i: "i < length (po_handles q)" using g(1) q by (simp add: pool_ok_def)
      have "cn_tasks (hd_conn (po_handles q ! i)) t = None"
        using g(3) request(2) nth_mem [OF i] by (auto simp: connection_init_def)
      then have "client_step (hd_conn (po_handles q ! i)) (call t args (hd_conn (po_handles q ! i)))"
        unfolding call_def by (rule client_step.start)
      with i q show ?thesis unfolding p' by (intro pool_ok_update)
    qed
  qed
next
  case (progress i s)
  then show ?thesis using pool_ok_update ok by simp
qed

lemma pool_reachable_ok: "pool_reachable sha1 p \<Longrightarrow> pool_ok sha1 p"
  unfolding pool_reachable_def
proof (induction rule: rtranclp_induct)
  case base
  show ?case by (simp add: pool_ok_def pool_new_def)
next
  case (step p p')
  from step(2,3) show ?case by (rule pool_ok_step)
qed

text \<open>An open connection is the one its URI is mapped to, and no other one of the URI is open.\<close>

definition sole_connection :: "pool \<Rightarrow> nat \<Rightarrow> bool" where
  "sole_connection p i \<longleftrightarrow>
     (\<not> handle_closed p i \<longrightarrow>
        po_by_uri p (hd_uri (po_handles p ! i)) = Some i
        \<and> (\<forall>j < length (po_handles p).
             hd_uri (po_handles p ! j) = hd_uri (po_handles p ! i) \<and> \<not> handle_closed p j \<longrightarrow> i = j))"

text \<open>
  C38: Connections of a client are sound, in every state of its pool: each handle's connection is in a
  state the connection model reaches (so that its theorems hold), the certificate of its peer has
  the fingerprint the service announced, where one was asked for, and of one URI at most one
  connection is open, the one the pool hands out.
\<close>

theorem pooled_connections_sound:
  assumes "pool_reachable sha1 p" and "i < length (po_handles p)"
  shows "client_reachable (hd_conn (po_handles p ! i)) \<and> peer_verified sha1 (po_handles p ! i)
    \<and> sole_connection p i"
proof -
  have ok: "pool_ok sha1 p" using assms(1) by (rule pool_reachable_ok)
  then have pooled: "po_by_uri p (hd_uri (po_handles p ! j)) = Some j"
    if "j < length (po_handles p)" "\<not> handle_closed p j" for j
    using that by (simp add: pool_ok_def)
  have "i = j" if "j < length (po_handles p)" "hd_uri (po_handles p ! j) = hd_uri (po_handles p ! i)"
    "\<not> handle_closed p i" "\<not> handle_closed p j" for j
    using pooled [OF assms(2) that(3)] pooled [OF that(1,4)] that(2) by simp
  with ok assms(2) show ?thesis by (simp add: pool_ok_def sole_connection_def)
qed


text \<open>
  C39: The pool forgets which certificate was asked for: a connection made without a fingerprint is
  handed out for every later service of the same URI, also for one that announces a fingerprint
  the peer's certificate does not have, and whose own connection would have been refused for it.
\<close>

theorem pool_ignores_fingerprint:
  assumes pool: "po_by_uri p (si_uri si) = None"
    and dialled: "socket_addr si = Inr addr" "dial addr = Dialled (CertDer der)"
    and plain: "si_fingerprint si = None"
    and other: "si_uri si' = si_uri si" "si_fingerprint si' = Some fp" "cert_sha1_fingerprint sha1 der \<noteq> fp"
  shows "\<exists>i p1. get_connection sha1 True dial si p = (Inr i, p1)
    \<and> get_connection sha1 True dial si' p1 = (Inr i, p1)
    \<and> hd_peer (po_handles p1 ! i) = CertDer der
    \<and> get_connection sha1 True dial si' p
        = (Inl (CertificateMismatch fp (cert_sha1_fingerprint sha1 der)), p)"
proof -
  let ?h = "from_stream (si_uri si) None (CertDer der)" and ?i = "length (po_handles p)"
  let ?p1 = "p\<lparr>po_by_uri := (po_by_uri p)(si_uri si \<mapsto> ?i), po_handles := po_handles p @ [?h]\<rparr>"
  have get: "get_connection sha1 True dial si p = (Inr ?i, ?p1)"
    using pool dialled plain
    by (simp add: get_connection_def add_connection_def connect_handle_def check_peer_def)
  have "socket_addr si' = Inr addr" using dialled(1) other(1) by (simp add: socket_addr_def)
  then have refused: "get_connection sha1 True dial si' p
      = (Inl (CertificateMismatch fp (cert_sha1_fingerprint sha1 der)), p)"
    using pool dialled(2) other
    by (simp add: get_connection_def add_connection_def connect_handle_def check_peer_def Let_def)
  have "get_connection sha1 True dial si' ?p1 = (Inr ?i, ?p1)"
    using get_connection_handle(1,2) [OF get] other(1) by (simp add: get_connection_def)
  moreover have "hd_peer (po_handles ?p1 ! ?i) = CertDer der" by (simp add: from_stream_def)
  ultimately show ?thesis using get refused by blast
qed

subsection \<open>Witnesses\<close>

definition direct_info :: service_info where
  "direct_info = \<lparr>si_identity = ''direct'', si_uri = ''beepish+tls://10.0.0.1:30100'', si_fingerprint = None\<rparr>"

definition announced_info :: service_info where
  "announced_info = \<lparr>si_identity = ''svc:1'', si_uri = ''beepish+tls://10.0.0.1:30100'', si_fingerprint = Some ''64''\<rparr>"

definition sample_dial :: "bytes \<Rightarrow> ipv4 \<times> nat \<Rightarrow> dial" where
  "sample_dial der addr = (if addr = ((10, 0, 0, 1), 30100) then Dialled (CertDer der) else TcpFailed)"

lemma sample_decimals: "dec_of_nat 10 = ''10''" "dec_of_nat 0 = ''0''" "dec_of_nat 1 = ''1''"
    "dec_of_nat 30100 = ''30100''"
  by (simp_all add: dec_of_nat.simps digit_char_def char_of_eq_iff)

lemma sample_addr [simp]:
  "socket_addr direct_info = Inr ((10, 0, 0, 1), 30100)" "socket_addr announced_info = Inr ((10, 0, 0, 1), 30100)"
  by (rule socket_addr_roundtrip [where scheme = "''beepish+tls''"];
      simp add: direct_info_def announced_info_def sample_decimals u16_max_def del: One_nat_def)+

lemma sample_fingerprints [simp]:
  "cert_sha1_fingerprint (\<lambda>d. d) ''d'' = ''64''" "cert_sha1_fingerprint (\<lambda>d. d) ''e'' = ''65''"
  by (simp_all add: cert_sha1_fingerprint_def hex_byte_def hex_digit_def char_of_eq_iff)

lemma pool_ignores_fingerprint_witness:
  "\<exists>i p1. get_connection (\<lambda>d. d) True (sample_dial ''e'') direct_info pool_new = (Inr i, p1)
    \<and> get_connection (\<lambda>d. d) True (sample_dial ''e'') announced_info p1 = (Inr i, p1)
    \<and> hd_peer (po_handles p1 ! i) = CertDer ''e''
    \<and> get_connection (\<lambda>d. d) True (sample_dial ''e'') announced_info pool_new
        = (Inl (CertificateMismatch ''64'' (cert_sha1_fingerprint (\<lambda>d. d) ''e'')), pool_new)"
  by (rule pool_ignores_fingerprint [where addr = "((10, 0, 0, 1), 30100)"])
    (simp_all add: pool_new_def direct_info_def [THEN arg_cong, of si_uri] direct_info_def [THEN arg_cong, of si_fingerprint]
      announced_info_def [THEN arg_cong, of si_uri] announced_info_def [THEN arg_cong, of si_fingerprint] sample_dial_def)

definition sample_pool :: pool where
  "sample_pool = snd (get_connection (\<lambda>d. d) True (sample_dial ''d'') announced_info pool_new)"

lemma sample_pool_simps:
  "po_handles sample_pool = [from_stream ''beepish+tls://10.0.0.1:30100'' (Some ''64'') (CertDer ''d'')]"
  by (simp add: sample_pool_def get_connection_def add_connection_def connect_handle_def sample_dial_def pool_new_def
      check_peer_def announced_info_def [THEN arg_cong, of si_uri] announced_info_def [THEN arg_cong, of si_fingerprint])

lemma pooled_connections_sound_witness:
  "client_reachable (hd_conn (po_handles sample_pool ! 0)) \<and> peer_verified (\<lambda>d. d) (po_handles sample_pool ! 0)
    \<and> sole_connection sample_pool 0"
proof (rule pooled_connections_sound)
  have "pool_step (\<lambda>d. d) pool_new sample_pool"
    unfolding sample_pool_def by (rule pool_step.connect) (rule prod.collapse [symmetric])
  then show "pool_reachable (\<lambda>d. d) sample_pool" by (simp add: pool_reachable_def)
  show "0 < length (po_handles sample_pool)" by (simp add: sample_pool_simps)
qed

end
