(* ===== verification/Command_Line.thy ===== *)
theory Command_Line
  imports Requester Service_Runtime
begin

text \<open>
  The command line tool: \<open>scamp-cli/src/list.rs\<close>, \<open>request.rs\<close>, \<open>serve.rs\<close> and the choice of configuration
  and registry in \<open>main.rs\<close>.  The rendering of tables, the files, standard input, the name lookup and
  the client are arguments; \<open>HashMap\<close> and \<open>HashSet\<close> give their elements in an order of their own, which
  the arguments \<open>arrange\<close> stand for.
\<close>

subsection \<open>Listing actions\<close>

record table_row =
  tr_cells :: "string list"
  tr_separator :: bool

record actions_args =
  la_name :: "string option"
  la_service :: "string option"
  la_sector :: "string option"
  la_all :: bool
  la_raw :: bool

definition contains_opt :: "string option \<Rightarrow> string \<Rightarrow> bool" where
  "contains_opt pat s = (case pat of None \<Rightarrow> True | Some p \<Rightarrow> find_sub p s \<noteq> None)"

definition prefix_opt :: "string option \<Rightarrow> string \<Rightarrow> bool" where
  "prefix_opt pat s = (case pat of None \<Rightarrow> True | Some p \<Rightarrow> prefix p s)"

definition bool_text :: "bool \<Rightarrow> string" where
  "bool_text b = (if b then ''true'' else ''false'')"

definition tab_line :: "string list \<Rightarrow> string" where
  "tab_line cells = join [CHR 0x09] cells @ newline"

definition action_selected :: "actions_args \<Rightarrow> action_entry \<Rightarrow> bool" where
  "action_selected args e \<longleftrightarrow>
     contains_opt (la_sector args) (a_sector (ae_action e))
     \<and> contains_opt (map_option (\<lambda>n. replace_char CHR ''/'' CHR ''.'' (to_lowercase n)) (la_name args))
         (a_pathver (ae_action e))
     \<and> prefix_opt (la_service args) (si_identity (ae_info e))
     \<and> (la_all args \<or> ae_authorized e)"

definition action_cells :: "bool \<Rightarrow> action_entry \<Rightarrow> string list" where
  "action_cells with_auth e =
     [a_sector (ae_action e), a_pathver (ae_action e), si_identity (ae_info e)]
       @ (if with_auth then [bool_text (ae_authorized e)] else [])"

text \<open>Rows after the first have no separator.\<close>

definition plain_rows :: "string list list \<Rightarrow> table_row list" where
  "plain_rows cells =
     map (\<lambda>(i, cs). \<lparr>tr_cells = cs, tr_separator = (i = 0)\<rparr>) (enumerate 0 cells)"

definition list_actions :: "(table_row list \<Rightarrow> string) \<Rightarrow> actions_args \<Rightarrow> registry \<Rightarrow> string" where
  "list_actions render args r =
     (let es = filter (action_selected args) (actions_iter r);
          services = remdups (map (\<lambda>e. si_identity (ae_info e)) es);
          header = \<lparr>tr_cells = [''Name'', ''Service''] @ (if la_all args then [''Authorized''] else []),
                    tr_separator = True\<rparr>
      in if la_raw args then concat (map (\<lambda>e. tab_line (action_cells True e)) es)
         else render (header # plain_rows (map (action_cells (la_all args)) es))
           @ dec_of_nat (length es) @ '' actions found offered by '' @ dec_of_nat (length services)
           @ '' services'' @ newline)"

subsection \<open>Listing services\<close>

record services_args =
  ls_with_action :: "string option"
  ls_sector :: "string option"
  ls_all :: bool
  ls_uri :: "string option"
  ls_name :: "string option"
  ls_raw :: bool

record service_summary =
  ss_uri :: string
  ss_sectors :: "string list"
  ss_count :: nat
  ss_authorized :: bool

definition service_selected :: "services_args \<Rightarrow> action_entry \<Rightarrow> bool" where
  "service_selected args e \<longleftrightarrow>
     contains_opt (ls_sector args) (a_sector (ae_action e))
     \<and> contains_opt (ls_with_action args) (a_pathver (ae_action e))
     \<and> contains_opt (ls_uri args) (si_uri (ae_info e))
     \<and> prefix_opt (ls_name args) (si_identity (ae_info e))
     \<and> (ls_all args \<or> ae_authorized e)"

text \<open>\<open>entry(identity).or_insert_with(..)\<close> and the update of the entry.\<close>

definition count_entry ::
  "action_entry \<Rightarrow> (string \<times> service_summary) list \<Rightarrow> (string \<times> service_summary) list" where
  "count_entry e m =
     (let identity = si_identity (ae_info e);
          s = (case map_of m identity of
                 Some s \<Rightarrow> s
               | None \<Rightarrow> \<lparr>ss_uri = si_uri (ae_info e), ss_sectors = [], ss_count = 0,
                          ss_authorized = ae_authorized e\<rparr>)
      in AList.update identity
           (s\<lparr>ss_sectors := List.insert (a_sector (ae_action e)) (ss_sectors s),
              ss_count := Suc (ss_count s)\<rparr>) m)"

definition service_cells ::
  "(string list \<Rightarrow> string list) \<Rightarrow> string \<times> service_summary \<Rightarrow> string list" where
  "service_cells arrange_sectors = (\<lambda>(svc, s).
     [svc, ss_uri s, join '','' (arrange_sectors (ss_sectors s)), dec_of_nat (ss_count s),
      bool_text (ss_authorized s)])"

definition list_services ::
  "(table_row list \<Rightarrow> string) \<Rightarrow> ((string \<times> service_summary) list \<Rightarrow> (string \<times> service_summary) list)
   \<Rightarrow> (string list \<Rightarrow> string list) \<Rightarrow> services_args \<Rightarrow> registry \<Rightarrow> string" where
  "list_services render arrange arrange_sectors args r =
     (let es = filter (service_selected args) (actions_iter r);
          unique = foldl (\<lambda>m e. count_entry e m) [] es;
          header = \<lparr>tr_cells = [''Service'', ''Uri'', ''Sectors'', ''Actions'']
                      @ (if ls_all args then [''Authorized''] else []), tr_separator = True\<rparr>;
          cells = map (service_cells arrange_sectors) (arrange unique)
      in if ls_raw args then concat (map tab_line cells)
         else render (header # plain_rows cells)
           @ dec_of_nat (length unique) @ '' services found with '' @ dec_of_nat (length es)
           @ '' actions'' @ newline)"

subsection \<open>Listing sectors\<close>

definition count_sector ::
  "action_entry \<Rightarrow> (string \<times> nat \<times> string list) list \<Rightarrow> (string \<times> nat \<times> string list) list" where
  "count_sector e m =
     btree_entry (a_sector (ae_action e)) (0, [])
       (\<lambda>(n, ids). (Suc n, List.insert (si_identity (ae_info e)) ids)) m"

definition list_sectors :: "(table_row list \<Rightarrow> string) \<Rightarrow> bool \<Rightarrow> registry \<Rightarrow> string" where
  "list_sectors render raw r =
     (let es = actions_iter r;
          sectors = foldl (\<lambda>m e. count_sector e m) [] es;
          services = remdups (map (\<lambda>e. si_identity (ae_info e)) es);
          cells = map (\<lambda>(sector, n, ids). [sector, dec_of_nat n, dec_of_nat (length ids)]) sectors;
          header = \<lparr>tr_cells = [''Sector'', ''Actions'', ''Services''], tr_separator = True\<rparr>
      in (if raw then concat (map tab_line cells) @ render [] else render (header # plain_rows cells))
         @ dec_of_nat (length sectors) @ '' sectors found with '' @ dec_of_nat (length es)
         @ '' actions offered by '' @ dec_of_nat (length services) @ '' services'' @ newline)"

text \<open>The summary of services lists each identity once, and its counts add up.\<close>

lemma sum_list_update:
  assumes "distinct (map fst m)"
  shows "sum_list (map (f \<circ> snd) (AList.update k v m)) + (case map_of m k of None \<Rightarrow> 0 | Some w \<Rightarrow> f w)
    = sum_list (map (f \<circ> snd) m) + (f v :: nat)"
  using assms
proof (induction m)
  case (Cons p m)
  then show ?case by (cases p) (auto split: option.splits dest: map_of_SomeD weak_map_of_SomeI)
qed simp

lemma count_entries:
  "distinct (map fst m) \<Longrightarrow>
     distinct (map fst (foldl (\<lambda>m e. count_entry e m) m es))
     \<and> sum_list (map (ss_count \<circ> snd) (foldl (\<lambda>m e. count_entry e m) m es))
       = sum_list (map (ss_count \<circ> snd) m) + length es"
proof (induction es arbitrary: m)
  case (Cons e es)
  let ?m = "count_entry e m"
  have d: "distinct (map fst ?m)" using Cons.prems by (simp add: count_entry_def Let_def distinct_update)
  have "sum_list (map (ss_count \<circ> snd) ?m) = Suc (sum_list (map (ss_count \<circ> snd) m))"
  proof (cases "map_of m (si_identity (ae_info e))")
    case None
    show ?thesis
      using sum_list_update [OF Cons.prems, of ss_count "si_identity (ae_info e)"
        "\<lparr>ss_uri = si_uri (ae_info e), ss_sectors = List.insert (a_sector (ae_action e)) [], ss_count = Suc 0,
          ss_authorized = ae_authorized e\<rparr>"]
      unfolding count_entry_def Let_def None by simp
  next
    case (Some s)
    show ?thesis
      using sum_list_update [OF Cons.prems, of ss_count "si_identity (ae_info e)"
        "s\<lparr>ss_sectors := List.insert (a_sector (ae_action e)) (ss_sectors s), ss_count := Suc (ss_count s)\<rparr>"]
      unfolding count_entry_def Let_def Some by simp
  qed
  with Cons.IH [OF d] show ?case by (simp add: comp_def)
qed simp

subsection \<open>Requests\<close>

record request_command =
  qc_action :: string
  qc_connect :: "string option"
  qc_file :: "string option"
  qc_body :: "string option"
  qc_header :: "string list"

datatype cli_error =
    CliRegistry registry_error
  | CliActionNotFound string
  | FileError
  | StdinError
  | NoBody
  | CliClient string

text \<open>What a line of output goes to.\<close>

datatype out_line = Printed string | Logged string

definition needs_discovery :: "request_command \<Rightarrow> bool" where
  "needs_discovery c \<longleftrightarrow> qc_connect c = None"

definition parse_i32 :: "string \<Rightarrow> i32 option" where
  "parse_i32 s = map_option word_of_int (parse_sint (- (2 ^ 31)) (2 ^ 31 - 1) s)"

definition action_and_version :: "string \<Rightarrow> string \<times> i32" where
  "action_and_version s =
     (case split_once CHR ''~'' s of
        None \<Rightarrow> (s, 1)
      | Some (act, v) \<Rightarrow> (act, case parse_i32 v of Some i \<Rightarrow> i | None \<Rightarrow> 1))"

definition request_service ::
  "u64 \<Rightarrow> u64 \<Rightarrow> registry \<Rightarrow> request_command \<Rightarrow> cli_error + (service_info \<times> string)" where
  "request_service now rand r c =
     (let (act, version) = action_and_version (qc_action c) in
      case qc_connect c of
        Some addr \<Rightarrow>
          Inr (\<lparr>si_identity = ''direct'', si_uri = ''beepish+tls://'' @ addr, si_fingerprint = None\<rparr>,
               ''  * Connecting directly to '' @ addr)
      | None \<Rightarrow>
          (case get_action_by_pathver r now rand (act @ ''~'' @ dec_of_int (sint version)) ''main'' of
             None \<Rightarrow> Inl (CliActionNotFound act)
           | Some e \<Rightarrow> Inr (ae_info e, ''  * Found '' @ qc_action c @ '' at '' @ si_uri (ae_info e))))"

text \<open>The headers are parsed into a map that nothing reads.\<close>

definition header_step :: "(string \<rightharpoonup> string) \<Rightarrow> string \<Rightarrow> (string \<rightharpoonup> string)" where
  "header_step m h =
     (case split_once CHR '':'' h of
        None \<Rightarrow> m
      | Some (k, v) \<Rightarrow> m(to_lowercase (trim k) \<mapsto> trim v))"

text \<open>Standard input: the chunks that reads give, None for an error; an empty chunk or the end stops.\<close>

fun read_stdin :: "bytes option list \<Rightarrow> bytes \<Rightarrow> bytes option" where
  "read_stdin [] buf = Some buf"
| "read_stdin (None # reads) buf = None"
| "read_stdin (Some chunk # reads) buf = (if chunk = [] then Some buf else read_stdin reads (buf @ chunk))"

definition request_body ::
  "(string \<Rightarrow> bytes option) \<Rightarrow> bool \<Rightarrow> bytes option list \<Rightarrow> request_command \<Rightarrow> cli_error + bytes" where
  "request_body file is_pipe stdin c =
     (case qc_file c of
        Some path \<Rightarrow> (case file path of None \<Rightarrow> Inl FileError | Some b \<Rightarrow> Inr b)
      | None \<Rightarrow>
          (case qc_body c of
             Some b \<Rightarrow> Inr b
           | None \<Rightarrow>
               if is_pipe then (case read_stdin stdin [] of None \<Rightarrow> Inl StdinError | Some b \<Rightarrow> Inr b)
               else Inl NoBody))"

definition response_lines :: "scamp_response \<Rightarrow> out_line list" where
  "response_lines resp =
     (case h_error (rs_header resp) of None \<Rightarrow> [] | Some e \<Rightarrow> [Logged (''  * Error: '' @ e)])
     @ (if rs_body resp = [] then [] else [Printed (utf8_lossy (rs_body resp))])
     @ [Printed (newline @ ''  * Response: '' @ dec_of_nat (length (rs_body resp)) @ '' bytes'')]"

definition run_request ::
  "(string \<Rightarrow> bytes option) \<Rightarrow> bool \<Rightarrow> bytes option list \<Rightarrow> (client_call \<Rightarrow> string + scamp_response)
   \<Rightarrow> u64 \<Rightarrow> u64 \<Rightarrow> registry \<Rightarrow> request_command \<Rightarrow> out_line list \<times> cli_error option" where
  "run_request file is_pipe stdin client now rand r c =
     (case request_service now rand r c of
        Inl e \<Rightarrow> ([], Some e)
      | Inr (service, line) \<Rightarrow>
          (case request_body file is_pipe stdin c of
             Inl e \<Rightarrow> ([Printed line], Some e)
           | Inr body \<Rightarrow>
               (let (act, version) = action_and_version (qc_action c) in
                case client \<lparr>cc_service = service, cc_action = act, cc_version = version, cc_envelope = Json,
                       cc_ticket = [], cc_client_id = 0, cc_body = body, cc_timeout = None\<rparr> of
                  Inl e \<Rightarrow> ([Printed line], Some (CliClient e))
                | Inr resp \<Rightarrow> (Printed line # response_lines resp, None))))"

text \<open>The registry a request runs with: none is loaded for a direct connection.\<close>

definition request_registry ::
  "(registry_error, registry) outcome \<Rightarrow> request_command \<Rightarrow> (registry_error, registry) outcome" where
  "request_registry from_cache c = (if needs_discovery c then from_cache else Ret registry_empty)"

text \<open>A request to a named host needs neither registry nor fingerprint.\<close>

lemma direct_request_unchecked:
  assumes "qc_connect c = Some addr"
  shows "request_registry from_cache c = Ret registry_empty
    \<and> (\<exists>si line. request_service now rand r c = Inr (si, line) \<and> si_fingerprint si = None
         \<and> si_uri si = ''beepish+tls://'' @ addr)"
  using assms by (simp add: request_registry_def needs_discovery_def request_service_def split: prod.split)

lemma parse_i32_dec [simp]: "parse_i32 (dec_of_int (sint w)) = Some w"
  using parse_sint_dec [of "- (2 ^ 31)" "sint w" "2 ^ 31 - 1"] sint_i32_range [of w]
  by (simp add: parse_i32_def)

lemma split_once_first: "d \<notin> set s \<Longrightarrow> split_once d (s @ d # t) = Some (s, t)"
  by (induction s) auto

text \<open>A request with an action and a version looks up exactly these, in the sector main.\<close>

lemma discovered_request:
  assumes "qc_connect c = None" and "qc_action c = act @ ''~'' @ dec_of_int (sint v)" and "CHR ''~'' \<notin> set act"
    and "0 \<le> sint v"
  shows "request_service now rand r c
    = (case find_action r now rand ''main'' act v of
         None \<Rightarrow> Inl (CliActionNotFound act)
       | Some e \<Rightarrow> Inr (ae_info e, ''  * Found '' @ qc_action c @ '' at '' @ si_uri (ae_info e)))"
proof -
  have "nat (sint v) < 2 ^ 31" using sint_i32_range(2) [of v] by simp
  moreover have "word_of_nat (nat (sint v)) = v" using assms(4) by (simp add: of_nat_nat)
  moreover have "unat (word_of_nat (nat (sint v)) :: i32) = nat (sint v)"
    using \<open>nat (sint v) < 2 ^ 31\<close> by (simp add: unat_of_nat)
  ultimately have "unat v = nat (sint v)" by simp
  then have v: "dec_of_int (sint v) = dec_of_nat (unat v)"
    using assms(4) by (simp add: dec_of_int_def)
  have "action_and_version (qc_action c) = (act, v)"
    using split_once_first [OF assms(3), of "dec_of_int (sint v)"] by (simp add: action_and_version_def assms(2))
  moreover have "CHR ''~'' \<notin> set (dec_of_nat (unat v))" using dec_of_nat_digits [of "unat v"] by (auto simp: is_digit_def)
  then have "get_action_by_pathver r now rand (act @ ''~'' @ dec_of_int (sint v)) ''main'' = find_action r now rand ''main'' act v"
    by (simp add: v get_action_by_pathver_def)
  ultimately show ?thesis using assms(1) by (simp add: request_service_def split: option.split)
qed

subsection \<open>Serving\<close>

record serve_command =
  sc_name :: string
  sc_sector :: string
  sc_key :: "string option"
  sc_cert :: "string option"
  sc_announce_ip :: "string option"

definition serve_service :: "string \<Rightarrow> serve_command \<Rightarrow> scamp_service" where
  "serve_service rand_text c =
     register_action ''ScampRsTest.health_check'' 1 (\<lambda>k req. reply_ok ''{}'')
       (register_action ''ScampRsTest.echo'' 1 (\<lambda>k req. reply_ok (req_body req))
          (service_new rand_text (sc_name c) (sc_sector c)))"

text \<open>A path of the key or the certificate: the argument, the configuration, a file below \<open>HOME\<close>.\<close>

definition pem_path ::
  "conf_element \<Rightarrow> string option \<Rightarrow> string option \<Rightarrow> string \<Rightarrow> string \<Rightarrow> string" where
  "pem_path config home arg key fallback =
     (case arg of
        Some p \<Rightarrow> p
      | None \<Rightarrow> unwrap_or (unwrap_or [] home @ fallback) (and_then (config_get Some config key) id))"

definition key_path :: "conf_element \<Rightarrow> string option \<Rightarrow> serve_command \<Rightarrow> string" where
  "key_path config home c =
     pem_path config home (sc_key c) (sc_name c @ ''.key'') ''/GT/backplane/devkeys/dev.key''"

definition cert_path :: "conf_element \<Rightarrow> string option \<Rightarrow> serve_command \<Rightarrow> string" where
  "cert_path config home c =
     pem_path config home (sc_cert c) (sc_name c @ ''.cert'') ''/GT/backplane/devkeys/dev.crt''"

text \<open>\<open>lookup\<close> gives the addresses of a host and whether each is a loopback address.\<close>

definition detect_announce_ip ::
  "string option \<Rightarrow> (string \<Rightarrow> (string \<times> bool) list option) \<Rightarrow> string option" where
  "detect_announce_ip hostname lookup =
     (case hostname of
        None \<Rightarrow> None
      | Some h \<Rightarrow>
          (case lookup (h @ '':0'') of
             None \<Rightarrow> None
           | Some addrs \<Rightarrow> map_option fst (find (\<lambda>(ip, loopback). \<not> loopback) addrs)))"

definition chosen_announce_ip ::
  "string option \<Rightarrow> (string \<Rightarrow> (string \<times> bool) list option) \<Rightarrow> ipv4 \<Rightarrow> serve_command \<Rightarrow> string" where
  "chosen_announce_ip hostname lookup bind_ip c =
     (case sc_announce_ip c of
        Some ip \<Rightarrow> ip
      | None \<Rightarrow>
          if bind_ip \<noteq> (0, 0, 0, 0) then ip_text bind_ip
          else unwrap_or ''127.0.0.1'' (detect_announce_ip hostname lookup))"

datatype serve_error = KeyUnreadable | CertUnreadableFile | ServeBind bind_error | ServeAnnounce service_error | NoUri

text \<open>
  Everything before the announcer and the accept loop start: the service, the announcer's
  configuration and the function that builds its packets at a time.
\<close>

definition serve_setup ::
  "(json \<Rightarrow> string option) \<Rightarrow> (bytes \<Rightarrow> bytes \<Rightarrow> bytes option) \<Rightarrow> (bytes \<Rightarrow> string)
   \<Rightarrow> (bytes \<Rightarrow> bytes \<Rightarrow> bool) \<Rightarrow> (nat \<Rightarrow> nat) \<Rightarrow> (nat \<Rightarrow> nat \<Rightarrow> bool) \<Rightarrow> (string \<Rightarrow> bytes option)
   \<Rightarrow> interfaces \<Rightarrow> string option \<Rightarrow> string option \<Rightarrow> (string \<Rightarrow> (string \<times> bool) list option)
   \<Rightarrow> f64 \<Rightarrow> string \<Rightarrow> conf_element \<Rightarrow> serve_command
   \<Rightarrow> (serve_error, scamp_service \<times> multicast_config \<times> (f64 \<Rightarrow> bool \<Rightarrow> (build_error, bytes) outcome)) outcome" where
  "serve_setup print sign b64 identity_ok rands free file ifs home hostname lookup timestamp rand_text config c =
     bind_outcome (ok_or KeyUnreadable (file (key_path config home c))) (\<lambda>key_pem.
     bind_outcome (ok_or CertUnreadableFile (file (cert_path config home c))) (\<lambda>cert_pem.
       (let bind_ip = service_addr (bus_info_from_config ifs config) in
        case bind_pem identity_ok rands free key_pem cert_pem bind_ip (serve_service rand_text c) of
          (Inl e, s) \<Rightarrow> Err (ServeBind e)
        | (Inr _, s0) \<Rightarrow>
            (let announce_ip = chosen_announce_ip hostname lookup bind_ip c;
                 s = set_announce_ip announce_ip s0;
                 interface = unwrap_or bind_ip (parse_ip announce_ip)
             in bind_outcome (map_err ServeAnnounce (service_announcement print sign b64 timestamp s True)) (\<lambda>packet.
                bind_outcome (ok_or NoUri (service_uri s)) (\<lambda>uri.
                  Ret (s, multicast_from_config config interface,
                    \<lambda>ts active. announce_raw print sign b64 ts (sv_identity s) (sc_sector c) [''json''] uri
                      (actions_snapshot s) key_pem cert_pem active)))))))"

lemma serve_service_fields: "sv_sector (serve_service rand_text c) = sc_sector c \<and> sv_envelopes (serve_service rand_text c) = [''json'']"
  by (simp add: serve_service_def register_action_def register_with_flags_def service_new_def)

text \<open>What the announcer of the tool sends is the announcement of its service.\<close>

lemma serve_announces_service:
  assumes "serve_setup print sign b64 identity_ok rands free file ifs home hostname lookup timestamp rand_text config c
      = Ret (s, mc, build)"
  shows "map_err BuildFailed (build ts active) = service_announcement print sign b64 ts s active"
proof -
  let ?ip = "service_addr (bus_info_from_config ifs config)"
  let ?announce_ip = "chosen_announce_ip hostname lookup ?ip c"
  obtain key cert where files: "file (key_path config home c) = Some key" "file (cert_path config home c) = Some cert"
    using assms unfolding serve_setup_def by (auto simp: bind_outcome_eq_Ret)
  obtain res s0 where bound: "bind_pem identity_ok rands free key cert ?ip (serve_service rand_text c) = (res, s0)"
    by (rule prod.exhaust)
  then have b: "bind_pem identity_ok rands free key cert ?ip (serve_service rand_text c) = (Inr (), s0)"
    using assms files by (cases res) (auto simp: serve_setup_def)
  have "s = set_announce_ip ?announce_ip s0"
    and "\<exists>uri. service_uri s = Some uri \<and> build = (\<lambda>ts active. announce_raw print sign b64 ts (sv_identity s)
        (sc_sector c) [''json''] uri (actions_snapshot s) key cert active)"
    using assms files b by (auto simp: serve_setup_def bind_outcome_eq_Ret Let_def)
  then show ?thesis
    using bind_pem_fields [OF b] serve_service_fields [of rand_text c]
    by (auto simp: service_announcement_def announce_raw_def set_announce_ip_def)
qed

end
