(* ===== verification/Command_Session.thy ===== *)
theory Command_Session
  imports Command_Line End_To_End
begin

text \<open>
  The commands of the tool as \<open>scamp-cli/src/main.rs\<close> runs them: which configuration and registry a command gets,
  the choice of a listing (list.rs), and \<open>serve\<close> with its announcer and accept loop side by side.  The session
  of two tools, one serving and one requesting, composes the command line with the wire.
\<close>

subsection \<open>The commands (main.rs, list.rs)\<close>

datatype list_command =
    ListActions actions_args
  | ListServices services_args
  | ListSectors bool

definition run_list ::
  "(table_row list \<Rightarrow> string) \<Rightarrow> ((string \<times> service_summary) list \<Rightarrow> (string \<times> service_summary) list)
   \<Rightarrow> (string list \<Rightarrow> string list) \<Rightarrow> registry \<Rightarrow> list_command \<Rightarrow> string" where
  "run_list render arrange arrange_sectors r c =
     (case c of
        ListActions args \<Rightarrow> list_actions render args r
      | ListServices args \<Rightarrow> list_services render arrange arrange_sectors args r
      | ListSectors raw \<Rightarrow> list_sectors render raw r)"

datatype cli_command =
    ListCommand list_command
  | RequestCommand request_command
  | ServeCommand serve_command

text \<open>What a command ends with; the loading of the registry may panic on a malformed announcement.\<close>

datatype 'a command_end = CommandOk 'a | CommandError cli_error | CommandPanic

text \<open>\<open>list\<close>, \<open>request\<close> and \<open>serve\<close> are the commands' own code, the first two on the registry loaded.\<close>

definition run_command ::
  "(registry_error, registry) outcome \<Rightarrow> (registry \<Rightarrow> list_command \<Rightarrow> 'a command_end)
   \<Rightarrow> (registry \<Rightarrow> request_command \<Rightarrow> 'a command_end) \<Rightarrow> (serve_command \<Rightarrow> 'a command_end)
   \<Rightarrow> cli_command \<Rightarrow> 'a command_end" where
  "run_command from_cache list request on_serve command =
     (case command of
        ListCommand c \<Rightarrow>
          (case from_cache of
             Ret r \<Rightarrow> list r c
           | Err e \<Rightarrow> CommandError (CliRegistry e)
           | Panic \<Rightarrow> CommandPanic)
      | RequestCommand c \<Rightarrow>
          (case request_registry from_cache c of
             Ret r \<Rightarrow> request r c
           | Err e \<Rightarrow> CommandError (CliRegistry e)
           | Panic \<Rightarrow> CommandPanic)
      | ServeCommand c \<Rightarrow> on_serve c)"

text \<open>\<open>main\<close>: without a configuration the tool runs with an empty one.\<close>

definition cli_config :: "config_error + conf_element \<Rightarrow> conf_element" where
  "cli_config loaded = (case loaded of Inr c \<Rightarrow> c | Inl e \<Rightarrow> config_from_content [])"

text \<open>
  \<open>serve\<close> in full: the announcer's task and the accept loop run side by side until the shutdown channel
  signals; \<open>clock k\<close> is the time stamp of the \<open>k\<close>th packet.
\<close>

definition run_served ::
  "scamp_service \<times> multicast_config \<times> (f64 \<Rightarrow> bool \<Rightarrow> (build_error, bytes) outcome)
   \<Rightarrow> (nat \<Rightarrow> f64) \<Rightarrow> (bytes \<Rightarrow> bytes option) \<Rightarrow> sleep_end list \<Rightarrow> run_event list \<Rightarrow> (nat \<times> nat) list
   \<Rightarrow> run_result \<times> announcer_status \<times> bytes list" where
  "run_served setup clock compress ends events looks =
     (case setup of
        (s, mc, build) \<Rightarrow>
          (run_service s events looks,
           run_announcer (\<lambda>k active. ok_value (build (clock k) active)) compress ends))"

subsection \<open>A served action\<close>

lemma serve_service_actions:
  "sv_actions (serve_service rand_text c) =
     [(''scamprstest.echo.v1'', \<lparr>ra_name = ''ScampRsTest.echo'', ra_version = 1, ra_flags = [],
         ra_handler = (\<lambda>k req. reply_ok (req_body req))\<rparr>),
      (''scamprstest.health_check.v1'', \<lparr>ra_name = ''ScampRsTest.health_check'', ra_version = 1, ra_flags = [],
         ra_handler = (\<lambda>k req. reply_ok ''{}'')\<rparr>)]"
  by (simp add: serve_service_def register_action_def register_with_flags_def service_new_def registration_key_def
      to_lowercase_def lower_char_def dec_of_int_def dec_of_nat.simps digit_char_def char_of_eq_iff)

lemma serve_setup_service:
  assumes "serve_setup print sign b64 identity_ok rands free file ifs home hostname lookup timestamp rand_text config c
      = Ret (s, mc, build)"
  shows "sv_actions s = sv_actions (serve_service rand_text c) \<and> service_reachable s \<and> service_uri s \<noteq> None
    \<and> sv_sector s = sc_sector c \<and> sv_envelopes s = [''json'']"
proof -
  let ?ip = "service_addr (bus_info_from_config ifs config)"
  obtain key cert where files: "file (key_path config home c) = Some key" "file (cert_path config home c) = Some cert"
    using assms unfolding serve_setup_def by (auto simp: bind_outcome_eq_Ret)
  obtain res s0 where bound: "bind_pem identity_ok rands free key cert ?ip (serve_service rand_text c) = (res, s0)"
    by (rule prod.exhaust)
  then have b: "bind_pem identity_ok rands free key cert ?ip (serve_service rand_text c) = (Inr (), s0)"
    using assms files by (cases res) (auto simp: serve_setup_def)
  have s: "s = set_announce_ip (chosen_announce_ip hostname lookup ?ip c) s0" "service_uri s \<noteq> None"
    using assms files b by (auto simp: serve_setup_def bind_outcome_eq_Ret Let_def)
  have "service_reachable (serve_service rand_text c)"
    unfolding serve_service_def register_action_def by (intro service_reachable.intros)
  then have "service_reachable s0"
    using service_reachable.bound [of "serve_service rand_text c" identity_ok rands free key cert ?ip] b by simp
  then have "service_reachable s" unfolding s(1) by (rule service_reachable.addressed)
  with s bind_pem_fields [OF b] serve_service_fields [of rand_text c] show ?thesis
    by (simp add: set_announce_ip_def)
qed

lemma direct_request_run:
  assumes "qc_connect c = Some addr" and "qc_file c = None" and "qc_body c = Some body"
    and "action_and_version (qc_action c) = (act, version)"
    and "client \<lparr>cc_service = \<lparr>si_identity = ''direct'', si_uri = ''beepish+tls://'' @ addr, si_fingerprint = None\<rparr>,
        cc_action = act, cc_version = version, cc_envelope = Json, cc_ticket = [], cc_client_id = 0, cc_body = body,
        cc_timeout = None\<rparr> = Inr resp"
  shows "run_request file is_pipe stdin client now rand r c
    = (Printed (''  * Connecting directly to '' @ addr) # response_lines resp, None)"
  using assms by (simp add: run_request_def request_service_def request_body_def)

text \<open>
  C7: The tool talks to itself.  \<open>scamp serve\<close> runs and \<open>scamp request --connect\<close> with the address of its
  URI calls ScampRsTest.echo with a body: the request needs no registry, goes over the wire as bytes cut
  in any way, is dispatched by the served connection, and the tool prints the body back and its size,
  without an error.
\<close>

theorem served_echo_requested:
  assumes serve: "serve_setup print sign b64 identity_ok rands free file ifs home hostname lookup timestamp rand_text
        config sc = Ret (s, mc, build)"
    and uri: "service_uri s = Some (''beepish+tls://'' @ addr)"
    and command: "qc_connect rc = Some addr" "qc_file rc = None" "qc_body rc = Some body" "length body \<le> u64_max"
      "action_and_version (qc_action rc) = (act, 1)" "to_lowercase act = ''scamprstest.echo''"
    and network: "network (''beepish+tls://'' @ addr) = Some (connection_env (\<lambda>n. True) None s)" "read_cuts cuts"
    and headers: "header_fits enc dec (first_header (announced_call [] act 1 body))"
      "header_fits enc dec (reply_header (reply_ok body) 1)"
  shows "run_command from_cache list
      (\<lambda>r c. CommandOk (run_request files is_pipe stdin (network_client enc dec cuts network) now rand r c)) on_serve
      (RequestCommand rc)
    = CommandOk ([Printed (''  * Connecting directly to '' @ addr)]
        @ (if body = [] then [] else [Printed (utf8_lossy body)])
        @ [Printed (newline @ ''  * Response: '' @ dec_of_nat (length body) @ '' bytes'')], None)"
proof -
  let ?args = "announced_call [] act 1 body"
  let ?h = "first_header ?args"
  let ?env = "connection_env (\<lambda>n. True) None s"
  have env: "env_actions ?env = map_of (sv_actions s)" "env_check ?env = None" "reliable ?env"
    by (simp_all add: connection_env_def reliable_def)
  have h: "action_key ?h = ''scamprstest.echo.v1''"
    by (simp add: first_header_def request_header_def lone_task_def announced_call_def Let_def action_key_def
        command(6) dec_of_int_def dec_of_nat.simps digit_char_def char_of_eq_iff)
  have reply: "reply_to ?env ?h body k = reply_ok body" for k
    using serve_setup_service [OF serve] by (simp add: reply_to_def env(1) serve_service_actions h request_of_def)
  have granted: "denial ?env ?h k = None" for k using env(2) by (simp add: denial_def)
  have "\<exists>k. exchange enc dec cuts ?env ?args = Inr (response_to ?env ?h (rq_body ?args) k)"
    by (rule exchange_reply [OF env(3) granted headers(1) _ _ network(2)])
      (simp_all add: announced_call_def [of "[]"] reply [unfolded announced_call_def] headers(2) command(4))
  then have "exchange enc dec cuts ?env ?args
      = Inr \<lparr>rs_header = reply_header (reply_ok body) 1, rs_body = body, rs_error = None\<rparr>"
    by (auto simp: response_to_def reply [unfolded announced_call_def] announced_call_def) (simp_all add: reply_ok_def)
  moreover define target where "target = ''beepish+tls://'' @ addr"
  ultimately have client: "network_client enc dec cuts network
      \<lparr>cc_service = \<lparr>si_identity = ''direct'', si_uri = target, si_fingerprint = None\<rparr>,
        cc_action = act, cc_version = 1, cc_envelope = Json, cc_ticket = [], cc_client_id = 0, cc_body = body,
        cc_timeout = None\<rparr> = Inr \<lparr>rs_header = reply_header (reply_ok body) 1, rs_body = body, rs_error = None\<rparr>"
    using network(1) by (simp add: network_client_def target_def [symmetric] args_of_def announced_call_def)
  have "h_error (reply_header (reply_ok body) 1) = None" by (simp add: reply_header_def reply_ok_def)
  with direct_request_run [OF command(1-3,5), of "network_client enc dec cuts network", OF client [unfolded target_def]]
    direct_request_unchecked [OF command(1), of from_cache]
  show ?thesis by (simp add: run_command_def response_lines_def)
qed

subsection \<open>A witness\<close>

definition demo_serve :: serve_command where
  "demo_serve = \<lparr>sc_name = ''demo'', sc_sector = ''main'', sc_key = Some ''k'', sc_cert = Some ''c'',
     sc_announce_ip = Some ''10.0.0.1''\<rparr>"

definition demo_request :: request_command where
  "demo_request = \<lparr>qc_action = ''ScampRsTest.echo~1'', qc_connect = Some ''10.0.0.1:30105'', qc_file = None,
     qc_body = Some ''hi'', qc_header = []\<rparr>"

definition demo_setup ::
  "(serve_error, scamp_service \<times> multicast_config \<times> (f64 \<Rightarrow> bool \<Rightarrow> (build_error, bytes) outcome)) outcome" where
  "demo_setup = serve_setup (\<lambda>v. Some ''[3]'') (\<lambda>k m. Some ''signed'') (\<lambda>s. ''c2lnbmVk'') (\<lambda>c k. True) (\<lambda>i. 5)
     (\<lambda>i p. True) (\<lambda>p. Some (''CERT'' @ newline)) [] None None (\<lambda>h. None) 7 ''abc'' (config_from_content []) demo_serve"

lemma demo_served:
  "\<exists>s mc build. demo_setup = Ret (s, mc, build) \<and> service_uri s = Some ''beepish+tls://10.0.0.1:30105''"
  by (simp add: demo_setup_def serve_setup_def demo_serve_def key_path_def cert_path_def pem_path_def Let_def
      bind_pem_def BIND_TRIES_def bind_loop_first random_port_def FIRST_PORT_def LAST_PORT_def service_announcement_def
      set_announce_ip_def service_uri_def chosen_announce_ip_def build_announcement_packet_def newline_def
      dec_of_nat.simps digit_char_def char_of_eq_iff)

lemma served_echo_requested_witness:
  "\<exists>s mc build. demo_setup = Ret (s, mc, build)
    \<and> run_command (Err NoCachePath) (\<lambda>r c. CommandPanic)
        (\<lambda>r c. CommandOk (run_request (\<lambda>p. None) False [] (network_client
            (pair_enc (first_header (announced_call [] ''ScampRsTest.echo'' 1 ''hi'')))
            (pair_dec (first_header (announced_call [] ''ScampRsTest.echo'' 1 ''hi'')) (reply_header (reply_ok ''hi'') 1))
            byte_cuts [''beepish+tls://'' @ ''10.0.0.1:30105'' \<mapsto> connection_env (\<lambda>n. True) None s])
          0 0 r c))
        (\<lambda>c. CommandPanic) (RequestCommand demo_request)
      = CommandOk ([Printed (''  * Connecting directly to '' @ ''10.0.0.1:30105'')]
          @ (if ''hi'' = [] then [] else [Printed (utf8_lossy ''hi'')])
          @ [Printed (newline @ ''  * Response: '' @ dec_of_nat (length ''hi'') @ '' bytes'')], None)"
proof -
  obtain s mc build where served: "demo_setup = Ret (s, mc, build)"
    "service_uri s = Some (''beepish+tls://'' @ ''10.0.0.1:30105'')"
    using demo_served by auto
  have command: "qc_connect demo_request = Some ''10.0.0.1:30105''" "qc_file demo_request = None"
    "qc_body demo_request = Some ''hi''" "length ''hi'' \<le> u64_max"
    "action_and_version (qc_action demo_request) = (''ScampRsTest.echo'', 1)"
    "to_lowercase ''ScampRsTest.echo'' = ''scamprstest.echo''"
    by (simp_all add: demo_request_def u64_max_def) code_simp+
  let ?h = "first_header (announced_call [] ''ScampRsTest.echo'' 1 ''hi'')" and ?r = "reply_header (reply_ok ''hi'') 1"
  let ?network = "\<lambda>s. [''beepish+tls://'' @ ''10.0.0.1:30105'' \<mapsto> connection_env (\<lambda>n. True) None s]"
  have "canonical_header ?h" "canonical_header ?r" "?h \<noteq> ?r"
    by (simp_all add: canonical_header_def first_header_def request_header_def lone_task_def announced_call_def
        reply_header_def reply_ok_def Let_def)
  from pair_fits [OF this] have fits: "header_fits (pair_enc ?h) (pair_dec ?h ?r) ?h"
    "header_fits (pair_enc ?h) (pair_dec ?h ?r) ?r" by blast+
  have env: "?network s (''beepish+tls://'' @ ''10.0.0.1:30105'') = Some (connection_env (\<lambda>n. True) None s)" by simp
  show ?thesis
    by (intro exI conjI, rule served(1),
        rule served_echo_requested [where network = "?network s" and addr = "''10.0.0.1:30105''", OF served(1) [unfolded demo_setup_def] served(2) command env byte_cuts fits])
qed

end
