(* ===== verification/Mock_Client.thy ===== *)
theory Mock_Client
  imports Registry
begin

text \<open>
  The mock client for tests of services, \<open>scamp/src/transport/mock.rs\<close>: a list of expectations, from
  which a request takes the first one of its action.  A body is given by what reading it to its end
  gives, None for an error; the sleep takes time only.
\<close>

record expectation =
  ex_pathver :: string
  ex_req_headers :: "(string \<times> string) list"
  ex_req_body :: bytes
  ex_res_headers :: "(string \<times> string) list"
  ex_res_body :: bytes
  ex_sleep :: "u64 option"

record mock_response =
  mr_headers :: "(string \<times> string) list"
  mr_body :: bytes

datatype mock_error = NoExpectation string | HeadersDiffer | BodyDiffers

type_synonym mock_client = "expectation list"

definition mock_new :: mock_client where
  "mock_new = []"

definition mock_expect :: "expectation \<Rightarrow> mock_client \<Rightarrow> mock_client" where
  "mock_expect e m = m @ [e]"

definition mock_clear :: "mock_client \<Rightarrow> mock_client" where
  "mock_clear m = []"

definition expectations_met :: "mock_client \<Rightarrow> bool" where
  "expectations_met m \<longleftrightarrow> m = []"

definition expectation_count :: "mock_client \<Rightarrow> nat" where
  "expectation_count m = length m"

text \<open>\<open>position\<close> and \<open>remove\<close> in one: the first expectation for which the test holds, and the others.\<close>

fun take_first :: "('a \<Rightarrow> bool) \<Rightarrow> 'a list \<Rightarrow> ('a \<times> 'a list) option" where
  "take_first P [] = None"
| "take_first P (x # xs) =
     (if P x then Some (x, xs) else map_option (\<lambda>(y, ys). (y, x # ys)) (take_first P xs))"

definition mock_request ::
  "action_entry \<Rightarrow> (string \<times> string) list \<Rightarrow> bytes option \<Rightarrow> mock_client
   \<Rightarrow> (mock_error, mock_response) outcome \<times> mock_client" where
  "mock_request e headers body m =
     (let pathver = a_path (ae_action e) @ ''~'' @ dec_of_nat (unat (a_version (ae_action e))) in
      case take_first (\<lambda>x. ex_pathver x = pathver) m of
        None \<Rightarrow> (Err (NoExpectation pathver), m)
      | Some (x, rest) \<Rightarrow>
          if headers \<noteq> ex_req_headers x then (Err HeadersDiffer, rest)
          else (case body of
                  None \<Rightarrow> (Panic, rest)
                | Some buf \<Rightarrow>
                    if buf = ex_req_body x
                    then (Ret \<lparr>mr_headers = [(''content-type'', ''application/json'')],
                               mr_body = ex_res_body x\<rparr>, rest)
                    else (Err BodyDiffers, rest)))"

subsection \<open>Expectations are used once, in order\<close>

lemma take_first_Some:
  "take_first P xs = Some (y, ys)
   \<Longrightarrow> \<exists>us vs. xs = us @ y # vs \<and> ys = us @ vs \<and> P y \<and> (\<forall>u \<in> set us. \<not> P u)"
proof (induction xs arbitrary: ys)
  case (Cons x xs)
  show ?case
  proof (cases "P x")
    case True
    with Cons.prems show ?thesis by (intro exI [of _ "[]"] exI [of _ xs]) simp
  next
    case False
    with Cons.prems obtain zs where z: "take_first P xs = Some (y, zs)" "ys = x # zs" by auto
    from Cons.IH [OF z(1)] obtain us vs where "xs = us @ y # vs" "zs = us @ vs" "P y" "\<forall>u \<in> set us. \<not> P u"
      by blast
    with False z(2) show ?thesis by (intro exI [of _ "x # us"] exI [of _ vs]) simp
  qed
qed simp

text \<open>An answer is that of the oldest expectation of the action, which is used up.\<close>

lemma mock_request_answer:
  assumes "mock_request e headers body m = (Ret resp, m')"
  shows "\<exists>us x vs. m = us @ x # vs \<and> m' = us @ vs
    \<and> ex_pathver x = a_path (ae_action e) @ ''~'' @ dec_of_nat (unat (a_version (ae_action e)))
    \<and> (\<forall>u \<in> set us. ex_pathver u \<noteq> ex_pathver x)
    \<and> headers = ex_req_headers x \<and> body = Some (ex_req_body x) \<and> mr_body resp = ex_res_body x"
proof -
  let ?pv = "a_path (ae_action e) @ ''~'' @ dec_of_nat (unat (a_version (ae_action e)))"
  obtain x rest where x: "take_first (\<lambda>x. ex_pathver x = ?pv) m = Some (x, rest)"
    using assms by (cases "take_first (\<lambda>x. ex_pathver x = ?pv) m") (auto simp: mock_request_def)
  with assms have "headers = ex_req_headers x" "body = Some (ex_req_body x)" "mr_body resp = ex_res_body x" "m' = rest"
    by (auto simp: mock_request_def split: if_splits option.splits)
  moreover from take_first_Some [OF x] obtain us vs where "m = us @ x # vs" "rest = us @ vs"
    "ex_pathver x = ?pv" "\<forall>u \<in> set us. ex_pathver u \<noteq> ?pv" by blast
  ultimately show ?thesis by (intro exI [of _ us] exI [of _ x] exI [of _ vs]) simp
qed

text \<open>The headers an expectation asks for in the response never reach it.\<close>

lemma mock_response_headers:
  "mock_request e headers body m = (Ret resp, m') \<Longrightarrow> mr_headers resp = [(''content-type'', ''application/json'')]"
  by (auto simp: mock_request_def Let_def split: option.splits if_splits)

end
