(* ===== verification/Full_Stack.thy ===== *)
theory Full_Stack
  imports End_To_End
begin

text \<open>
  The whole path through files, as \<open>scamp/tests/e2e_full_stack.rs\<close> runs it: the announcement of a service
  (service/announce.rs) is written to a cache file (discovery/cache_file.rs), a registry is loaded from the
  files a configuration names (config.rs, auth/authorized_services.rs, discovery/service_registry.rs), the
  action is looked up and called over a connection (End_To_End).

  The lemmas show that the announcement's text never holds the delimiter line, so it is read back as one
  record, that the registry then finds the action, and that the call gets the handler's reply.
\<close>

subsection \<open>An announcement in a cache file\<close>

lemma find_sub_drop_None: "p \<noteq> [] \<Longrightarrow> find_sub p (s @ t) = None \<Longrightarrow> find_sub p t = None"
  by (induction s) (auto split: if_splits)

text \<open>
  The announcement is in the file once, its buffers cut anywhere except inside the delimiter line
  at the end.
\<close>

definition cached_text :: "string \<Rightarrow> read_result list \<Rightarrow> bool" where
  "cached_text text reads \<longleftrightarrow>
     (\<exists>bs b. reads = map Chunk (bs @ [b @ RECORD_DELIMITER]) \<and> [] \<notin> set bs \<and> concat bs @ b = text)"

lemma pieces_cached:
  assumes "find_sub RECORD_DELIMITER (concat bs @ b @ butlast RECORD_DELIMITER) = None"
  shows "pieces cur (bs @ [b @ RECORD_DELIMITER]) = [cur @ concat bs @ b, []]"
  using assms
proof (induction bs arbitrary: cur)
  case Nil
  then have "find_sub RECORD_DELIMITER (b @ butlast RECORD_DELIMITER) = None" by simp
  from split_delimiter [OF this, of "[]"] show ?case by (simp add: pieces.simps(2))
next
  case (Cons c bs)
  then have all: "find_sub RECORD_DELIMITER (c @ concat bs @ b @ butlast RECORD_DELIMITER) = None" by simp
  note none = find_sub_take_None [OF all] find_sub_drop_None [OF delimiter_ne all]
  show ?case using pieces_no_match [OF none(1), of cur] Cons.IH [OF none(2), of "cur @ c"] by simp
qed

lemma no_delimiter_text:
  "CHR 0x0A \<notin> set j \<Longrightarrow> CHR ''%'' \<notin> set t \<Longrightarrow> find_sub RECORD_DELIMITER (j @ t @ butlast RECORD_DELIMITER) = None"
proof (induction j)
  case Nil
  from Nil(2) have "find_sub RECORD_DELIMITER (t @ butlast RECORD_DELIMITER) = None"
  proof (induction t)
    case (Cons c t)
    have "\<not> prefix RECORD_DELIMITER (c # t @ butlast RECORD_DELIMITER)"
      using Cons.prems by (cases t) (auto simp: RECORD_DELIMITER_def prefix_def)
    with Cons show ?case by simp
  qed (simp add: RECORD_DELIMITER_def)
  then show ?case by simp
qed (auto simp: RECORD_DELIMITER_def prefix_def)

lemma cache_of_announcement:
  assumes sent: "service_announcement print sign b64 ts s True = Ret text"
    and laws: "json_laws print dec reread" "sv_key_pem s = Some key" "sv_cert_pem s = Some (cert @ newline)"
      "signing_laws public_key b64_decode verify (sign key) b64 cert" "CHR ''%'' \<notin> set cert"
      "\<And>d. CHR ''%'' \<notin> set (b64 d)"
    and cached: "cached_text text reads"
  shows "cache_records pp (cache_new reads) = [record_item pp text]"
proof -
  from announced_text [OF sent laws(2,3)] obtain uri json sg where
    json: "print (JArr (announcement_json (sv_identity s) (sv_sector s) (sv_envelopes s) uri
        (actions_snapshot s) 1 5 True ts)) = Some json"
    and sg: "sign key json = Some sg"
    and msg: "text = json @ blank_line @ cert @ blank_line @ wrap_from 76 0 (b64 sg) @ blank_line" by blast
  have j: "CHR 0x0A \<notin> set json" using laws(1) json unfolding json_laws_def by blast
  have wrapped: "set (wrap_from 76 i t) \<subseteq> insert CHR 0x0A (set t)" for i t
    by (induction t arbitrary: i) (auto simp: newline_def)
  from wrapped [of 0 "b64 sg"] laws(6) [of sg] have "CHR ''%'' \<notin> set (wrap_from 76 0 (b64 sg))" by auto
  with laws(5) have "CHR ''%'' \<notin> set (blank_line @ cert @ blank_line @ wrap_from 76 0 (b64 sg) @ blank_line)"
    by (auto simp: blank_line_eq)
  from no_delimiter_text [OF j this] have none: "find_sub RECORD_DELIMITER (text @ butlast RECORD_DELIMITER) = None"
    by (simp add: msg)
  obtain bs b where reads: "reads = map Chunk (bs @ [b @ RECORD_DELIMITER])" "[] \<notin> set bs" "concat bs @ b = text"
    using cached by (auto simp: cached_text_def)
  have "text \<noteq> []" by (simp add: msg blank_line_eq)
  moreover have "pieces [] (bs @ [b @ RECORD_DELIMITER]) = [text, []]"
    using pieces_cached [of bs b "[]"] none reads(3) by (simp flip: append_assoc)
  moreover have "[] \<notin> set (bs @ [b @ RECORD_DELIMITER])" using reads(2) by (simp add: RECORD_DELIMITER_def)
  ultimately show ?thesis unfolding reads(1) by (simp add: cache_records_pieces nonempty_def del: map_append)
qed

subsection \<open>The registry of the cache\<close>

text \<open>The files a configuration names: the cache as its reads, the authorized services as text.\<close>

definition discovery_files ::
  "(string \<Rightarrow> file_view) \<Rightarrow> (string \<Rightarrow> read_result list option) \<Rightarrow> conf_element \<Rightarrow> read_result list \<Rightarrow> string \<Rightarrow> bool" where
  "discovery_files file open_file config reads content \<longleftrightarrow>
     (\<exists>cache_path auth_path mtime.
        config_get Some config ''discovery.cache_path'' = Some (Some cache_path)
        \<and> open_file cache_path = Some reads
        \<and> config_get Some config ''bus.authorized_services'' = Some (Some auth_path) \<and> auth_path \<noteq> []
        \<and> file auth_path = \<lparr>fv_content = Some content, fv_modified = Some mtime\<rparr>)"

lemma registry_of_files:
  assumes "discovery_files file open_file config reads content"
  shows "\<exists>svc. registry_from_cache lib file open_file pp rnd sig_valid clock config
    = inject_all rnd sig_valid (is_authorized lib (parse_content lib content svc)) clock 0
        (cache_records pp (cache_new reads)) registry_empty"
  using assms
  by (auto simp: discovery_files_def registry_from_cache_def reload_from_cache_def load_services_def
      reload_services_def registry_empty_def)

lemma found_of_candidate:
  assumes "candidate r sector act version envelope e"
  shows "\<exists>e. find_action r now rand sector act version = Some e \<and> e \<in> table_entries (rg_actions r)"
proof -
  from assms obtain es where es: "map_of (rg_actions r) (to_lowercase (make_index_key sector act version)) = Some es"
    and "filter routable es \<noteq> []"
    by (auto simp: candidate_def find_actions_def routable_def filter_empty_conv split: option.splits)
  with pick_healthy_exact [of r now rand "filter routable es"] obtain e' where
    "pick_healthy r now rand (filter routable es) = Some e'" "e' \<in> set es" by fastforce
  moreover from this es have "e' \<in> table_entries (rg_actions r)"
    using map_of_SomeD [OF es] by (auto simp: table_entries_def)
  ultimately show ?thesis by (simp add: find_action_def get_action_def es)
qed


text \<open>The registry a client loads from such a cache, and what it finds there.\<close>

lemma cached_registry:
  assumes laws: "exchange_laws print jdec reread compress decompress sign b64 public_key b64_decode verify digits_re s cert"
    and percent: "CHR ''%'' \<notin> set cert" "\<And>d. CHR ''%'' \<notin> set (b64 d)"
    and sent: "service_announcement print sign b64 ts s True = Ret text"
    and actions: "\<forall>ai \<in> set (actions_snapshot s). 0 \<le> sint (ai_version ai)"
      "a \<in> set (announced_actions (sv_sector s) (sv_envelopes s) (actions_snapshot s))" "sv_envelopes s \<noteq> []"
    and files: "cached_text text reads" "discovery_files file open_file config reads content"
    and certified: "cert_pem_fingerprint b64_decode sha1 cert = Some fp"
    and allowed: "regex_laws lib" "simple_line content fp" "plain_text (sv_sector s)" "plain_text (a_path a)"
      "prefix ''_meta.'' (a_path a) \<or> CHR '':'' \<notin> set (sv_sector s) \<and> CHR '':'' \<notin> set (a_path a)
        \<and> content_allows content fp (sv_sector s @ '':'' @ a_path a)"
    and fresh: "\<not> expired rnd (clock 0) (ab_params (announced_body s (Some fp) (reread ts)))"
  shows "\<exists>r e. registry_from_cache lib file open_file (announcement_parser digits_re jdec b64_decode sha1) rnd
        (signature_is_valid (verify_rsa_sha256 public_key b64_decode verify)) clock config = Ret r
    \<and> find_action r now rand (sv_sector s) (a_path a) (a_version a) = Some e
    \<and> ae_info e = ab_info (announced_body s (Some fp) (reread ts))"
proof -
  let ?parse = "announcement_parser digits_re jdec b64_decode sha1"
  let ?valid = "signature_is_valid (verify_rsa_sha256 public_key b64_decode verify)"
  from laws obtain key where l: "json_laws print jdec reread" "digits_ok digits_re"
    "sv_cert_pem s = Some (cert @ newline)" "no_blank cert" "sv_key_pem s = Some key"
    "signing_laws public_key b64_decode verify (sign key) b64 cert"
    by (auto simp: exchange_laws_def)
  have a: "dotted (actions_snapshot s) \<noteq> []" "a_sector a = sv_sector s" "a_envelopes a = sv_envelopes s"
    using actions(2) by (auto simp: announced_actions_def announced_action_def namespaces_def in_namespace_def Let_def)
  obtain p where p: "utf8_valid text" "?parse text = Ret p" "?valid p" "pk_body p = announced_body s (Some fp) (reread ts)"
    using announced_parsed [OF l sent actions(1) a(1), of sha1] unfolding certified by blast
  obtain svc where svc: "registry_from_cache lib file open_file ?parse rnd ?valid clock config
      = inject_all rnd ?valid (is_authorized lib (parse_content lib content svc)) clock 0
          (cache_records ?parse (cache_new reads)) registry_empty"
    using registry_of_files [OF files(2)] by blast
  let ?auth = "is_authorized lib (parse_content lib content svc)"
  let ?r = "inject_packet rnd ?valid ?auth (clock 0) p registry_empty"
  have "cache_records ?parse (cache_new reads) = [Ret p]"
    using cache_of_announcement [OF sent l(1,5,3,6) percent files(1)] p(1,2)
    by (simp add: record_item_def from_utf8_def)
  with svc have loaded: "registry_from_cache lib file open_file ?parse rnd ?valid clock config = Ret ?r" by simp
  have b: "ab_info (pk_body p) = \<lparr>si_identity = sv_identity s, si_uri = unwrap_or [] (service_uri s), si_fingerprint = Some fp\<rparr>"
    "ab_params (pk_body p) = \<lparr>ap_weight = 1, ap_interval = 5000, ap_timestamp = reread ts\<rparr>"
    "ab_actions (pk_body p) = announced_actions (sv_sector s) (sv_envelopes s) (actions_snapshot s)"
    by (simp_all add: p(4) announced_body_def)
  have fp: "fingerprint_of (ab_info (pk_body p)) = fp" by (simp add: b fingerprint_of_def)
  have auth: "?auth fp (sv_sector s) (a_path a)"
    using is_authorized_content [OF allowed(1-4)] allowed(5) by blast
  obtain e where "candidate ?r (a_sector a) (a_path a) (a_version a) (hd (a_envelopes a)) e"
  proof (rule that, rule injected_candidate [where auth = ?auth])
    show "\<not> expired rnd (clock 0) (ab_params (pk_body p))" using fresh by (simp add: p(4))
  qed (use p(3) actions(2,3) a(2,3) auth in \<open>simp_all add: b fp [unfolded b] registry_empty_def\<close>)
  from found_of_candidate [OF this, of now rand] obtain e' where
    "find_action ?r now rand (sv_sector s) (a_path a) (a_version a) = Some e'" "e' \<in> table_entries (rg_actions ?r)"
    unfolding a(2) by blast
  with loaded entries_of_one [OF this(2)] show ?thesis unfolding p(4) by blast
qed




subsection \<open>Witnesses\<close>

definition cached_config :: conf_element where
  "cached_config = config_from_content
     (''discovery.cache_path = /cache'' @ newline @ ''bus.authorized_services = /auth'' @ newline)"

definition allowed_content :: string where
  "allowed_content = ''64 main:ALL'' @ newline"

definition cached_reads :: "string \<Rightarrow> read_result list" where
  "cached_reads text = [Chunk [hd text], Chunk (tl text @ RECORD_DELIMITER)]"

lemma cached_config_lines:
  "List.map_filter conf_line (lines (''discovery.cache_path = /cache'' @ newline @ ''bus.authorized_services = /auth'' @ newline))
     = [(''discovery.cache_path'', ''/cache''), (''bus.authorized_services'', ''/auth'')]"
  by code_simp

lemma cached_config_values:
  "config_get Some cached_config ''discovery.cache_path'' = Some (Some ''/cache'')"
  "config_get Some cached_config ''bus.authorized_services'' = Some (Some ''/auth'')"
  unfolding cached_config_def config_from_content_def parse_config_def config_get_value_at parse_lines_value
    cached_config_lines value_at_default
  by (simp_all add: named_def parse_usize_def parse_uint_def is_digit_def rewrite_value_def)

lemma cached_files:
  "discovery_files (\<lambda>p. \<lparr>fv_content = Some allowed_content, fv_modified = Some 0\<rparr>) [''/cache'' \<mapsto> reads] cached_config reads
     allowed_content"
  by (simp add: discovery_files_def cached_config_values)

lemma allowed_lines: "map_of (rev (auth_lines allowed_content)) ''64'' = Some ''main:ALL''"
  unfolding allowed_content_def newline_def by code_simp

lemma allowed_tokens: "line_tokens ''main:ALL'' = [''main'' @ '':ALL'']"
  by code_simp

lemma allowed_simple: "simple_line allowed_content ''64''"
proof -
  have "simple_token (''main'' @ '':ALL'')"
    unfolding simple_token_def by (auto simp: plain_text_def is_ascii_def)
  then show ?thesis unfolding simple_line_def allowed_lines option.case allowed_tokens by simp
qed

lemma allowed_health: "content_allows allowed_content ''64'' (''main'' @ '':'' @ ''api.status.health_check'')"
  unfolding content_allows_def allowed_lines option.case allowed_tokens by code_simp


end
