(* ===== verification/Network_Setup.thy ===== *)
theory Network_Setup
  imports Observer Service_Runtime
begin

text \<open>
  How announcer and observer set up what they send and receive with (service/multicast.rs,
  discovery/observer.rs): the calls that make their sockets, in order and up to the first that fails, the
  address announcements go to, and the functions around the zlib coders.

  The lemmas show that announcer and observer of one configuration meet: the observer is bound to the address
  and has joined the group the announcer sends to.
\<close>

subsection \<open>Creating the sockets\<close>

datatype socket_call =
    NewSocket
  | SetReuseAddress
  | SetReusePort
  | BindAddress ipv4 nat
  | SetMulticastInterface ipv4
  | JoinMulticast ipv4 ipv4
  | SetNonblocking

text \<open>The calls are made in order up to the first that fails: those that worked, and whether all did.\<close>

fun make_calls :: "(socket_call \<Rightarrow> bool) \<Rightarrow> socket_call list \<Rightarrow> socket_call list \<times> bool" where
  "make_calls works [] = ([], True)"
| "make_calls works (c # cs) =
     (if \<not> works c then ([], False)
      else (case make_calls works cs of (made, ok) \<Rightarrow> (c # made, ok)))"

definition create_multicast_socket :: "(socket_call \<Rightarrow> bool) \<Rightarrow> multicast_config \<Rightarrow> socket_call list \<times> bool" where
  "create_multicast_socket works config =
     make_calls works
       [NewSocket, SetReuseAddress, BindAddress (mc_interface config) 0,
        SetMulticastInterface (mc_interface config), SetNonblocking]"

definition create_observer_socket :: "bool \<Rightarrow> (socket_call \<Rightarrow> bool) \<Rightarrow> observer_config \<Rightarrow> socket_call list \<times> bool" where
  "create_observer_socket macos works config =
     make_calls works
       ([NewSocket, SetReuseAddress] @ (if macos then [SetReusePort] else [])
        @ [BindAddress (ob_group config) (ob_port config), JoinMulticast (ob_group config) (ob_interface config),
           SetNonblocking])"

text \<open>Where the announcer sends (\<open>dest\<close> in \<open>run_announcer\<close>).\<close>

definition announce_dest :: "multicast_config \<Rightarrow> ipv4 \<times> nat" where
  "announce_dest config = (mc_group config, mc_port config)"

definition DEFAULT_MULTICAST_GROUP :: string where
  "DEFAULT_MULTICAST_GROUP = ''239.63.248.106''"

definition DEFAULT_MULTICAST_PORT :: nat where
  "DEFAULT_MULTICAST_PORT = 5555"

definition DEFAULT_INTERVAL_SECS :: u32 where
  "DEFAULT_INTERVAL_SECS = 5"

lemma multicast_defaults:
  "multicast_new interface =
     \<lparr>mc_group = the (parse_ip DEFAULT_MULTICAST_GROUP), mc_port = DEFAULT_MULTICAST_PORT, mc_interface = interface,
      mc_interval_secs = DEFAULT_INTERVAL_SECS\<rparr>"
  "parse_ip DEFAULT_MULTICAST_GROUP \<noteq> None"
proof -
  have "parse_ip DEFAULT_MULTICAST_GROUP = Some (239, 63, 248, 106)" by code_simp
  then show "multicast_new interface =
     \<lparr>mc_group = the (parse_ip DEFAULT_MULTICAST_GROUP), mc_port = DEFAULT_MULTICAST_PORT, mc_interface = interface,
      mc_interval_secs = DEFAULT_INTERVAL_SECS\<rparr>" "parse_ip DEFAULT_MULTICAST_GROUP \<noteq> None"
    by (simp_all add: multicast_new_def DEFAULT_MULTICAST_PORT_def DEFAULT_INTERVAL_SECS_def)
qed

text \<open>
  With one configuration, the address the announcer sends to is the one the observer's socket is bound to,
  and the group it sends to is the one the observer has joined: both fall back to the same defaults.
\<close>

lemma make_calls_all: "snd (make_calls works cs) \<Longrightarrow> fst (make_calls works cs) = cs"
  by (induction cs) (auto split: if_splits prod.splits)

lemma announcer_meets_observer:
  assumes "snd (create_observer_socket macos works (observer_from_config config ip))"
  shows "case announce_dest (multicast_from_config config ip') of (g, port) \<Rightarrow>
    BindAddress g port \<in> set (fst (create_observer_socket macos works (observer_from_config config ip)))
    \<and> JoinMulticast g ip \<in> set (fst (create_observer_socket macos works (observer_from_config config ip)))"
  using make_calls_all [OF assms [unfolded create_observer_socket_def]]
  by (simp add: announce_dest_def create_observer_socket_def multicast_from_config_def observer_from_config_def)

subsection \<open>The zlib wrappers\<close>

text \<open>\<open>write_all\<close> gives the encoder after the data, \<open>finish\<close> its output; \<open>read_to_end\<close> is the decoder.\<close>

definition zlib_compress :: "(bytes \<Rightarrow> 'enc option) \<Rightarrow> ('enc \<Rightarrow> bytes option) \<Rightarrow> bytes \<Rightarrow> bytes option" where
  "zlib_compress write_all finish d = (case write_all d of None \<Rightarrow> None | Some encoder \<Rightarrow> finish encoder)"

definition zlib_decompress :: "(bytes \<Rightarrow> bytes option) \<Rightarrow> bytes \<Rightarrow> bytes option" where
  "zlib_decompress read_to_end d = (case read_to_end d of None \<Rightarrow> None | Some out \<Rightarrow> Some out)"

end
