(* ===== verification/Unit_Tests.thy ===== *)
theory Unit_Tests
  imports Authz Bus_Info Rpc_Support Service_Runtime Announcement_Packet Authorized_Services Mock_Client
begin

text \<open>
  The unit tests that stand beside the code, as statements about the model: each test is a boolean
  definition named after its function, and each holds for every behaviour of the libraries that does
  what the test's own data need.  A test that asserts what the model does not do would fail here.
\<close>

subsection \<open>Tickets (auth/ticket.rs)\<close>

definition test_parse_ticket_fields :: "(string \<Rightarrow> bytes option) \<Rightarrow> bool" where
  "test_parse_ticket_fields b64url \<longleftrightarrow>
     (case ticket_parse b64url ''1,42,100,1700000000,3600,1+2+3,AAAA'' of
        Ret (ticket, _) \<Rightarrow>
          tk_version ticket = 1 \<and> tk_user_id ticket = 42 \<and> tk_client_id ticket = 100
          \<and> tk_validity_start ticket = 1700000000 \<and> tk_ttl ticket = 3600 \<and> tk_privileges ticket = [1, 2, 3]
      | _ \<Rightarrow> False)"

definition test_parse_ticket_no_privileges :: "(string \<Rightarrow> bytes option) \<Rightarrow> bool" where
  "test_parse_ticket_no_privileges b64url \<longleftrightarrow>
     (case ticket_parse b64url ''1,42,100,1700000000,3600,,AAAA'' of
        Ret (ticket, _) \<Rightarrow> tk_privileges ticket = []
      | _ \<Rightarrow> False)"

definition is_err :: "('e, 'a) outcome \<Rightarrow> bool" where
  "is_err x = (case x of Err e \<Rightarrow> True | _ \<Rightarrow> False)"

definition test_parse_ticket_too_few_fields :: "(string \<Rightarrow> bytes option) \<Rightarrow> bool" where
  "test_parse_ticket_too_few_fields b64url \<longleftrightarrow> is_err (ticket_parse b64url ''1,42,100'')"

definition test_parse_ticket_bad_version :: "(string \<Rightarrow> bytes option) \<Rightarrow> bool" where
  "test_parse_ticket_bad_version b64url \<longleftrightarrow>
     (case ticket_parse b64url ''2,42,100,1700000000,3600,,AAAA'' of
        Err e \<Rightarrow> find_sub ''Unsupported ticket version'' (ticket_error_text e) \<noteq> None
      | _ \<Rightarrow> False)"

definition test_has_privilege :: bool where
  "test_has_privilege \<longleftrightarrow>
     (let t = \<lparr>tk_version = 1, tk_user_id = 1, tk_client_id = 1, tk_validity_start = 0, tk_ttl = 0,
               tk_privileges = [10, 20, 30]\<rparr>
      in has_privilege t 20 \<and> \<not> has_privilege t 99 \<and> has_all_privileges t [10, 30]
         \<and> \<not> has_all_privileges t [10, 99])"

lemma ticket_field_values:
  "parse_u32 ''1'' = Some 1" "parse_u32 ''2'' = Some 2" "parse_u64 ''42'' = Some 42" "parse_u64 ''100'' = Some 100"
  "parse_u64 ''1700000000'' = Some 1700000000" "parse_u64 ''3600'' = Some 3600"
  "privilege_list ''1+2+3'' = Ret [1, 2, 3]"
  by (simp_all add: parse_u32_def parse_u64_def parse_uint_def is_digit_def u32_max_def u64_max_def
      privilege_list_def)

lemma ticket_splits:
  "split_char CHR '','' ''1,42,100,1700000000,3600,1+2+3,AAAA'' = [''1'', ''42'', ''100'', ''1700000000'', ''3600'', ''1+2+3'', ''AAAA'']"
  "split_char CHR '','' ''1,42,100,1700000000,3600,,AAAA'' = [''1'', ''42'', ''100'', ''1700000000'', ''3600'', [], ''AAAA'']"
  "split_char CHR '','' ''2,42,100,1700000000,3600,,AAAA'' = [''2'', ''42'', ''100'', ''1700000000'', ''3600'', [], ''AAAA'']"
  "split_char CHR '','' ''1,42,100'' = [''1'', ''42'', ''100'']"
  by simp_all

lemma ticket_tests:
  assumes "b64url ''AAAA'' \<noteq> None"
  shows "test_parse_ticket_fields b64url" and "test_parse_ticket_no_privileges b64url"
    and "test_parse_ticket_too_few_fields b64url" and "test_parse_ticket_bad_version b64url" and test_has_privilege
proof -
  obtain sig where sig: "b64url ''AAAA'' = Some sig" using assms by blast
  show "test_parse_ticket_fields b64url" "test_parse_ticket_no_privileges b64url"
    "test_parse_ticket_too_few_fields b64url"
    by (simp_all add: test_parse_ticket_fields_def test_parse_ticket_no_privileges_def
        test_parse_ticket_too_few_fields_def is_err_def ticket_parse_def ticket_splits ticket_field_values
        sig privilege_list_def [of "[]"])
  have "find_sub ''Unsupported ticket version'' (ticket_error_text (UnsupportedVersion 2)) \<noteq> None" by code_simp
  then show "test_parse_ticket_bad_version b64url"
    by (simp add: test_parse_ticket_bad_version_def ticket_parse_def ticket_splits ticket_field_values)
  show test_has_privilege by (simp add: test_has_privilege_def has_privilege_def has_all_privileges_def)
qed

subsection \<open>The authorization table (auth/authz.rs)\<close>

definition authz_test_doc :: json where
  "authz_test_doc = JObj
     [(''auth.getauthztable'', JArr [JInt 1, JInt 2]), (''product.sku.fetch'', JArr [JInt 3]),
      (''public.action'', JArr []), (''_NAMES'', JArr [JNull, JStr ''admin'', JStr ''read'', JStr ''product_read''])]"

definition test_parse_authz_response :: "(bytes \<Rightarrow> json option) \<Rightarrow> bytes \<Rightarrow> bool" where
  "test_parse_authz_response dec body \<longleftrightarrow>
     (case parse_authz_response dec body of
        Ret table \<Rightarrow>
          table ''auth.getauthztable'' = Some [1, 2] \<and> table ''product.sku.fetch'' = Some [3]
          \<and> table ''public.action'' = Some [] \<and> table ''_NAMES'' = None
      | _ \<Rightarrow> False)"

definition test_parse_authz_response_empty :: "(bytes \<Rightarrow> json option) \<Rightarrow> bool" where
  "test_parse_authz_response_empty dec \<longleftrightarrow>
     (case parse_authz_response dec ''{}'' of Ret table \<Rightarrow> table = Map.empty | _ \<Rightarrow> False)"

lemma authz_tests:
  "dec body = Some authz_test_doc \<Longrightarrow> test_parse_authz_response dec body"
  "dec ''{}'' = Some (JObj []) \<Longrightarrow> test_parse_authz_response_empty dec"
proof -
  have lower: "to_lowercase ''auth.getauthztable'' = ''auth.getauthztable''"
    "to_lowercase ''product.sku.fetch'' = ''product.sku.fetch''" "to_lowercase ''public.action'' = ''public.action''"
    by (simp_all add: to_lowercase_def lower_char_def char_of_eq_iff)
  show "dec body = Some authz_test_doc \<Longrightarrow> test_parse_authz_response dec body"
    by (simp add: test_parse_authz_response_def parse_authz_response_def authz_test_doc_def List.map_filter_simps lower)
  show "dec ''{}'' = Some (JObj []) \<Longrightarrow> test_parse_authz_response_empty dec"
    by (simp add: test_parse_authz_response_empty_def parse_authz_response_def)
qed

subsection \<open>Addresses (bus_info.rs)\<close>

definition test_get_interface_addrs_has_loopback :: "ifaddr_entry list option \<Rightarrow> bool" where
  "test_get_interface_addrs_has_loopback reported \<longleftrightarrow>
     list_ex is_loopback (concat (map snd (get_interface_addrs reported)))"

definition test_interfaces :: interfaces where
  "test_interfaces =
     [(''lo'', [(127, 0, 0, 1)]), (''eth0'', [(10, 0, 0, 5)]), (''eth1'', [(192, 168, 1, 100)])]"

definition test_find_default_ip_prefers_private :: "interfaces \<Rightarrow> bool" where
  "test_find_default_ip_prefers_private ifs \<longleftrightarrow> find_default_ip ifs = Some (10, 0, 0, 5)"

definition test_resolve_if_syntax :: bool where
  "test_resolve_if_syntax \<longleftrightarrow>
     resolve_addr_list (Some (Some ''if:eth0'')) [(''eth0'', [(10, 0, 0, 5)])] None = [(10, 0, 0, 5)]"

definition test_resolve_raw_ip :: bool where
  "test_resolve_raw_ip \<longleftrightarrow> resolve_addr_list (Some (Some ''192.168.1.50'')) [] None = [(192, 168, 1, 50)]"

text \<open>The hash map may give the interfaces in any order.\<close>

lemma find_default_ip_any_order:
  assumes "mset ifs = mset test_interfaces"
  shows "test_find_default_ip_prefers_private ifs"
proof -
  have ips: "set (usable_ips ifs) = {(10, 0, 0, 5), (192, 168, 1, 100)}"
  proof -
    have "set ifs = set test_interfaces" using assms by (metis set_mset_mset)
    then have "set (usable_ips ifs) = set (usable_ips test_interfaces)"
      unfolding usable_ips_def set_filter set_concat set_map by (rule arg_cong)
    also have "usable_ips test_interfaces = [(10, 0, 0, 5), (192, 168, 1, 100)]" by code_simp
    finally show ?thesis by simp
  qed
  then obtain ip where ip: "find_default_ip ifs = Some ip"
    using find_default_ip_None [of ifs] by fastforce
  from find_default_ip_best [OF this] have "ip \<in> {(10, 0, 0, 5), (192, 168, 1, 100)}" "ip_rank ip \<le> ip_rank (10, 0, 0, 5)"
    by (auto simp: best_address_def ips)
  then have "ip = (10, 0, 0, 5)" by (auto simp: ip_rank_def)
  with ip show ?thesis by (simp add: test_find_default_ip_prefers_private_def)
qed

lemma bus_info_tests: test_resolve_if_syntax test_resolve_raw_ip
  by code_simp+

lemma loopback_test:
  assumes "e \<in> set es" and "ie_addr e = Some (True, ip)" and "is_loopback ip"
  shows "test_get_interface_addrs_has_loopback (Some es)"
proof -
  let ?name = "utf8_lossy (ie_name e)"
  obtain a b c d where abcd: "ip = (a, b, c, d)" by (cases ip)
  have ip: "ip \<in> set (addresses_named ?name es)"
    using assms(1,2) by (force simp: addresses_named_def List.map_filter_def abcd intro!: image_eqI [of _ _ e])
  then have "map_of (get_interface_addrs (Some es)) ?name = Some (addresses_named ?name es)"
    by (auto simp: interface_addresses)
  from map_of_SomeD [OF this] ip assms(3) show ?thesis
    by (force simp: test_get_interface_addrs_has_loopback_def list_ex_iff)
qed

subsection \<open>Configuration files (config.rs)\<close>

text \<open>The sample file \<open>scamp/samples/soa.conf\<close>, line by line.\<close>

definition soa_conf :: string where
  "soa_conf = concat (map (\<lambda>l. l @ newline)
     [''bus.address = if:eth0'', ''bus.authorized_services = /etc/GT/authorized_services'',
      ''discovery.cache_path = /backplane/discovery/discovery'', ''discovery.local_multicast = 1'',
      ''http.listener.0.aliases = *:443'', ''http.listener.0.binaryjs = 1'', ''http.listener.0.groups = foosector'',
      ''http.listener.0.port = 443'', ''http.listener.1.aliases = *:444'',
      ''http.listener.1.groups = barsector,bazsector'', ''http.listener.1.port = 444'', ''worker.limit = 2''])"

definition test_parse_config :: bool where
  "test_parse_config \<longleftrightarrow> write_element [] (parse_config None soa_conf) = soa_conf"

definition test_inline_comments :: bool where
  "test_inline_comments \<longleftrightarrow>
     (let root = parse_config None (''foo.bar = hello # this is a comment'' @ newline @ ''foo.baz = world'' @ newline)
      in map_option ce_value (element_get root ''foo.bar'') = Some (Some ''hello'')
         \<and> map_option ce_value (element_get root ''foo.baz'') = Some (Some ''world''))"

definition test_first_wins_duplicate_keys :: bool where
  "test_first_wins_duplicate_keys \<longleftrightarrow>
     (let root = parse_config None (''foo.bar = first'' @ newline @ ''foo.bar = second'' @ newline)
      in map_option ce_value (element_get root ''foo.bar'') = Some (Some ''first''))"

lemma comment_lines:
  "map conf_line (lines (''foo.bar = hello # this is a comment'' @ newline @ ''foo.baz = world'' @ newline))
     = [Some (''foo.bar'', ''hello''), Some (''foo.baz'', ''world'')]"
  "map conf_line (lines (''foo.bar = first'' @ newline @ ''foo.bar = second'' @ newline))
     = [Some (''foo.bar'', ''first''), Some (''foo.bar'', ''second'')]"
  by code_simp+

definition soa_lines :: "(string \<times> string) list" where
  "soa_lines =
     [(''bus.address'', ''if:eth0''), (''bus.authorized_services'', ''/etc/GT/authorized_services''),
      (''discovery.cache_path'', ''/backplane/discovery/discovery''), (''discovery.local_multicast'', ''1''),
      (''http.listener.0.aliases'', ''*:443''), (''http.listener.0.binaryjs'', ''1''),
      (''http.listener.0.groups'', ''foosector''), (''http.listener.0.port'', ''443''),
      (''http.listener.1.aliases'', ''*:444''), (''http.listener.1.groups'', ''barsector,bazsector''),
      (''http.listener.1.port'', ''444''), (''worker.limit'', ''2'')]"

lemma soa_conf_lines: "map conf_line (lines soa_conf) = map Some soa_lines"
  by code_simp

text \<open>The tree as a function of the parsed lines.\<close>

lemma parse_lines_parsed:
  "map conf_line ls = map Some kvs
   \<Longrightarrow> parse_lines None ls tree = foldl (\<lambda>t (k, v). put_value (split_char CHR ''.'' k) v t) tree kvs"
proof (induction kvs arbitrary: ls tree)
  case (Cons kv kvs)
  then obtain l ls' where "ls = l # ls'" by (cases ls) auto
  with Cons show ?case by (cases kv) (simp add: rewrite_value_def)
qed simp

lemma names_not_numbers:
  "parse_usize ''foo'' = None" "parse_usize ''bar'' = None" "parse_usize ''baz'' = None"
  "parse_usize ''0'' = Some 0" "parse_usize ''1'' = Some 1"
  by (simp_all add: parse_usize_def parse_uint_def is_digit_def u64_max_def)

lemma small_numbers: "dec_of_nat 0 = ''0''" "dec_of_nat (Suc 0) = ''1''"
  by code_simp+

lemma soa_names:
  "list_all (\<lambda>s. parse_usize s = None)
     [''bus'', ''address'', ''authorized_services'', ''discovery'', ''cache_path'', ''local_multicast'', ''http'',
      ''listener'', ''aliases'', ''binaryjs'', ''groups'', ''port'', ''worker'', ''limit'']"
  by (simp add: parse_usize_def parse_uint_def is_digit_def)

lemma config_tests: test_inline_comments test_first_wins_duplicate_keys
proof -
  note tree = names_not_numbers conf_default_def btree_entry_def
  have c: "parse_lines None (lines (''foo.bar = hello # this is a comment'' @ newline @ ''foo.baz = world'' @ newline)) conf_default
      = foldl (\<lambda>t (k, v). put_value (split_char CHR ''.'' k) v t) conf_default [(''foo.bar'', ''hello''), (''foo.baz'', ''world'')]"
    by (rule parse_lines_parsed) (simp only: comment_lines list.map)
  have d: "parse_lines None (lines (''foo.bar = first'' @ newline @ ''foo.bar = second'' @ newline)) conf_default
      = foldl (\<lambda>t (k, v). put_value (split_char CHR ''.'' k) v t) conf_default [(''foo.bar'', ''first''), (''foo.bar'', ''second'')]"
    by (rule parse_lines_parsed) (simp only: comment_lines list.map)
  show test_inline_comments
    unfolding test_inline_comments_def parse_config_def Let_def c by (simp add: tree element_get_def)
  show test_first_wins_duplicate_keys
    unfolding test_first_wins_duplicate_keys_def parse_config_def Let_def d by (simp add: tree element_get_def)
qed

lemma config_roundtrip_test: test_parse_config
proof -
  have "parse_lines None (lines soa_conf) conf_default
      = foldl (\<lambda>t (k, v). put_value (split_char CHR ''.'' k) v t) conf_default soa_lines"
    by (rule parse_lines_parsed [OF soa_conf_lines])
  also have "write_element [] \<dots> = soa_conf" using soa_names
    by (simp add: soa_lines_def names_not_numbers conf_default_def btree_entry_def grow_list_def Let_def
        value_line_def small_numbers soa_conf_def newline_def)
  finally show ?thesis by (simp add: test_parse_config_def parse_config_def)
qed

lemma soa_conf_to_string: "element_to_string (config_from_content soa_conf) = soa_conf"
  using config_roundtrip_test by (simp add: element_to_string_def config_from_content_def test_parse_config_def)

subsection \<open>Names (rpc_support.rs, scamp-macros)\<close>

definition test_module_path_to_namespace :: bool where
  "test_module_path_to_namespace \<longleftrightarrow>
     module_path_to_namespace ''my_crate::actions::config::user::credentials'' = ''Config.User.Credentials''
     \<and> module_path_to_namespace ''scamp::actions::constant::ship::carrier'' = ''Constant.Ship.Carrier''
     \<and> module_path_to_namespace ''scamp::actions::download::po'' = ''Download.Po''
     \<and> module_path_to_namespace ''scamp::actions::product::photo_sample'' = ''Product.PhotoSample''"

definition test_module_path_no_actions_segment :: bool where
  "test_module_path_no_actions_segment \<longleftrightarrow> module_path_to_namespace ''scamp::handlers::echo'' = ''Handlers.Echo''"

definition test_snake_to_pascal :: bool where
  "test_snake_to_pascal \<longleftrightarrow>
     snake_to_pascal ''carrier_class'' = ''CarrierClass'' \<and> snake_to_pascal ''config'' = ''Config''
     \<and> snake_to_pascal ''photo_sample'' = ''PhotoSample''"

definition test_snake_to_camel :: bool where
  "test_snake_to_camel \<longleftrightarrow>
     map snake_to_camel
       [''set_login_data'', ''create_api_key'', ''fetch'', ''journalentries'', ''health_check'', ''pdf'']
     = [''setLoginData'', ''createApiKey'', ''fetch'', ''journalentries'', ''healthCheck'', ''pdf'']"

lemma name_tests:
  test_module_path_to_namespace test_module_path_no_actions_segment test_snake_to_pascal test_snake_to_camel
  by code_simp+

subsection \<open>Run lengths (service/announce.rs, service_info/tests.rs)\<close>

definition test_rle_encode_strings :: bool where
  "test_rle_encode_strings \<longleftrightarrow>
     rle_encode_strings [''a'', ''a'', ''b'', ''c'', ''c'', ''c'']
     = [JArr [JInt 2, JStr ''a''], JStr ''b'', JArr [JInt 3, JStr ''c'']]"

definition test_rle_encode_strings_empty :: bool where
  "test_rle_encode_strings_empty \<longleftrightarrow> rle_encode_strings [] = []"

definition test_rle_encode_numbers :: bool where
  "test_rle_encode_numbers \<longleftrightarrow>
     rle_encode_numbers [1, 1, 1, 2, 3, 3] = [JArr [JInt 3, JInt 1], JInt 2, JArr [JInt 2, JInt 3]]"

definition unrle_strings :: "(string \<times> json) list \<Rightarrow> bool \<Rightarrow> nat \<Rightarrow> (info_error, string list) outcome" where
  "unrle_strings obj required len = unrle de_string obj ''v'' required len"

definition test_unrle_plain_values :: bool where
  "test_unrle_plain_values \<longleftrightarrow>
     unrle_strings [(''v'', JArr [JStr ''a'', JStr ''b'', JStr ''c''])] True 3 = Ret [''a'', ''b'', ''c'']"

definition test_unrle_with_repeats :: bool where
  "test_unrle_with_repeats \<longleftrightarrow>
     unrle_strings [(''v'', JArr [JArr [JInt 3, JStr ''x''], JStr ''y''])] True 4 = Ret [''x'', ''x'', ''x'', ''y'']"

definition test_unrle_missing_optional :: bool where
  "test_unrle_missing_optional \<longleftrightarrow> unrle_strings [] False 3 = Ret [[], [], []]"

definition test_unrle_missing_required :: bool where
  "test_unrle_missing_required \<longleftrightarrow> is_err (unrle_strings [] True 0)"

definition test_unrle_single_value_broadcast :: bool where
  "test_unrle_single_value_broadcast \<longleftrightarrow>
     unrle_strings [(''v'', JStr ''same'')] True 3 = Ret [''same'', ''same'', ''same'']"

definition test_unrle_bad_repeat_chunk :: bool where
  "test_unrle_bad_repeat_chunk \<longleftrightarrow>
     is_err (unrle de_u32 [(''v'', JArr [JArr [JInt 1, JInt 2, JInt 3]])] ''v'' True 0)"

lemma run_length_tests:
  test_rle_encode_strings test_rle_encode_strings_empty test_rle_encode_numbers
  by code_simp+

lemma unrle_tests:
  test_unrle_plain_values test_unrle_with_repeats test_unrle_missing_optional test_unrle_missing_required
  test_unrle_single_value_broadcast test_unrle_bad_repeat_chunk
  by code_simp+

subsection \<open>Wrapped base64 (service/announce.rs)\<close>

definition test_base64_wrapped :: "(bytes \<Rightarrow> string) \<Rightarrow> bool" where
  "test_base64_wrapped b64 \<longleftrightarrow>
     (let encoded = base64_encode_wrapped b64 (replicate 256 (CHR 0xAB)) 76
      in list_all (\<lambda>line. length line \<le> 76) (split_char CHR 0x0A (trim_end encoded)) \<and> last encoded = CHR 0x0A)"

lemma wrapped_lines:
  assumes "CHR 0x0A \<notin> set s" and "0 < width"
  shows "list_all (\<lambda>l. length l \<le> width) (split_char CHR 0x0A (wrap_from width i s))
    \<and> length (hd (split_char CHR 0x0A (wrap_from width i s)))
        \<le> (if 0 < i \<and> i mod width = 0 then 0 else width - i mod width)"
  using assms(1)
proof (induction s arbitrary: i)
  case (Cons c s)
  obtain l ls where l: "split_char CHR 0x0A (wrap_from width (Suc i) s) = l # ls"
    by (cases "split_char CHR 0x0A (wrap_from width (Suc i) s)") simp_all
  from Cons.IH [of "Suc i"] Cons.prems l have ih: "list_all (\<lambda>l. length l \<le> width) (l # ls)"
    "length l \<le> (if Suc i mod width = 0 then 0 else width - Suc i mod width)" by auto
  have "Suc (length l) \<le> width - i mod width" if "i mod width < width"
  proof (cases "Suc i mod width = 0")
    case False
    with that have "Suc i mod width = Suc (i mod width)" by (simp add: mod_Suc split: if_splits)
    with ih(2) False mod_less_divisor [OF assms(2), of "Suc i"] show ?thesis by simp
  qed (use ih(2) that in simp)
  with mod_less_divisor [OF assms(2)] have "Suc (length l) \<le> width - i mod width" by blast
  with Cons.prems l ih(1) show ?case by auto
qed (use assms in simp)

lemma lines_of_prefix:
  "list_all (\<lambda>l. length l \<le> n) (split_char d (p @ q)) \<Longrightarrow> list_all (\<lambda>l. length l \<le> n) (split_char d p)"
proof -
  have "list_all (\<lambda>l. length l \<le> n) (split_char d p) \<and> length (hd (split_char d p)) \<le> length (hd (split_char d (p @ q)))"
    if "list_all (\<lambda>l. length l \<le> n) (split_char d (p @ q))"
    using that
  proof (induction p arbitrary: n)
    case (Cons c p)
    obtain l ls m ms where l: "split_char d (p @ q) = l # ls" "split_char d p = m # ms"
      by (cases "split_char d (p @ q)"; cases "split_char d p") simp_all
    have "list_all (\<lambda>l. length l \<le> n) (l # ls)" using Cons.prems l by (auto split: if_splits)
    with Cons.IH [of n] Cons.prems l show ?case by (auto split: if_splits)
  qed simp
  then show "list_all (\<lambda>l. length l \<le> n) (split_char d (p @ q)) \<Longrightarrow> list_all (\<lambda>l. length l \<le> n) (split_char d p)"
    by blast
qed

lemma split_char_snoc: "split_char d (s @ [d]) = split_char d s @ [[]]"
proof (induction s)
  case (Cons c s)
  then show ?case by (cases "split_char d s") auto
qed simp

lemma trim_end_prefix: "\<exists>q. s = trim_end s @ q"
  by (induction s) auto

lemma base64_wrapped_test:
  assumes "\<And>d. CHR 0x0A \<notin> set (b64 d)"
  shows "test_base64_wrapped b64"
proof -
  let ?d = "replicate 256 (CHR 0xAB)"
  let ?e = "base64_encode_wrapped b64 ?d 76"
  have "list_all (\<lambda>l. length l \<le> 76) (split_char CHR 0x0A (wrap_from 76 0 (b64 ?d)))"
    using wrapped_lines [OF assms, of 76] by simp
  then have "list_all (\<lambda>l. length l \<le> 76) (split_char CHR 0x0A ?e)"
    by (simp add: base64_encode_wrapped_def split_char_snoc)
  moreover obtain q where "?e = trim_end ?e @ q" using trim_end_prefix by blast
  ultimately have "list_all (\<lambda>l. length l \<le> 76) (split_char CHR 0x0A (trim_end ?e))"
    using lines_of_prefix by metis
  then show ?thesis by (simp add: test_base64_wrapped_def Let_def base64_encode_wrapped_def)
qed

subsection \<open>Certificates (crypto.rs)\<close>

definition upper_hex :: "char \<Rightarrow> bool" where
  "upper_hex c \<longleftrightarrow> is_digit c \<or> (65 \<le> byte_val c \<and> byte_val c \<le> 70)"

definition test_fingerprint_format :: "(bytes \<Rightarrow> bytes) \<Rightarrow> bool" where
  "test_fingerprint_format sha1 \<longleftrightarrow>
     (let fp = cert_sha1_fingerprint sha1 ''test certificate data''
      in CHR '':'' \<in> set fp \<and> length fp = 59 \<and> (\<forall>c \<in> set fp. upper_hex c \<or> c = CHR '':''))"

definition test_pem_to_der :: "(string \<Rightarrow> bytes option) \<Rightarrow> bool" where
  "test_pem_to_der b64_decode \<longleftrightarrow>
     pem_to_der b64_decode
       (''-----BEGIN CERTIFICATE-----'' @ newline @ ''AQIDBA=='' @ newline @ ''-----END CERTIFICATE-----'' @ newline)
     = Some [CHR 0x01, CHR 0x02, CHR 0x03, CHR 0x04]"

lemma hex_byte_upper: "\<forall>d \<in> set (hex_byte c). upper_hex d"
proof -
  have "upper_hex (hex_digit n)" if "n < 16" for n
    using that by (auto simp: hex_digit_def upper_hex_def is_digit_def)
  moreover have "byte_val c div 16 < 16" by (simp add: less_mult_imp_div_less)
  ultimately show ?thesis by (simp add: hex_byte_def)
qed

lemma join_pairs_length:
  "\<forall>x \<in> set xs. length x = 2 \<Longrightarrow> xs \<noteq> [] \<Longrightarrow> length (join [c] xs) = 3 * length xs - 1"
proof (induction xs)
  case (Cons x xs)
  then show ?case by (cases xs) auto
qed simp

lemma set_join: "set (join [c] xs) \<subseteq> insert c (\<Union>(set ` set xs))"
proof (induction xs)
  case (Cons x xs)
  then show ?case by (cases xs) auto
qed simp

lemma two_elements: "1 < length xs \<Longrightarrow> \<exists>x y ys. xs = x # y # ys"
  by (cases xs; cases "tl xs") auto

lemma fingerprint_test:
  assumes "length (sha1 ''test certificate data'') = 20"
  shows "test_fingerprint_format sha1"
proof -
  let ?hs = "map hex_byte (sha1 ''test certificate data'')"
  have hs: "?hs \<noteq> []" "\<forall>x \<in> set ?hs. length x = 2" "length ?hs = 20"
    using assms by (auto simp: hex_byte_def)
  have "length (join '':'' ?hs) = 59" using join_pairs_length [OF hs(2,1), of "CHR '':''"] hs(3) by simp
  moreover have "CHR '':'' \<in> set (join '':'' ?hs)"
  proof -
    obtain x y ys where "?hs = x # y # ys" using two_elements [of ?hs] hs(3) by auto
    then show ?thesis by simp
  qed
  moreover have "\<forall>c \<in> set (join '':'' ?hs). upper_hex c \<or> c = CHR '':''"
    using set_join [of "CHR '':''" ?hs] hex_byte_upper by fastforce
  ultimately show ?thesis by (simp add: test_fingerprint_format_def cert_sha1_fingerprint_def Let_def)
qed

lemma pem_test:
  assumes "b64_decode ''AQIDBA=='' = Some [CHR 0x01, CHR 0x02, CHR 0x03, CHR 0x04]"
  shows "test_pem_to_der b64_decode"
proof -
  have "concat (filter (\<lambda>l. \<not> prefix ''-----'' l) (lines
      (''-----BEGIN CERTIFICATE-----'' @ newline @ ''AQIDBA=='' @ newline @ ''-----END CERTIFICATE-----'' @ newline)))
      = ''AQIDBA==''"
    by (simp add: lines_def strip_cr_def newline_def)
  with assms show ?thesis by (simp only: test_pem_to_der_def pem_to_der_def)
qed


subsection \<open>Authorized services (auth/authorized_services.rs)\<close>

definition make_auth :: "'rx regex_lib \<Rightarrow> string \<Rightarrow> 'rx auth_services" where
  "make_auth lib content = parse_content lib content auth_empty"

definition test_all_sectors_authorized :: "'rx regex_lib \<Rightarrow> bool" where
  "test_all_sectors_authorized lib \<longleftrightarrow>
     (let auth = make_auth lib ''BC:6E:86 background:ALL, main:ALL, web:ALL''
      in is_authorized lib auth ''BC:6E:86'' ''main'' ''Product.Sku.fetch''
         \<and> is_authorized lib auth ''BC:6E:86'' ''background'' ''Worker.process''
         \<and> is_authorized lib auth ''BC:6E:86'' ''web'' ''Page.render'')"

definition test_no_colon_defaults_to_main :: "'rx regex_lib \<Rightarrow> bool" where
  "test_no_colon_defaults_to_main lib \<longleftrightarrow>
     (let auth = make_auth lib ''FP:AA:BB Product.Sku''
      in is_authorized lib auth ''FP:AA:BB'' ''main'' ''Product.Sku.fetch''
         \<and> \<not> is_authorized lib auth ''FP:AA:BB'' ''web'' ''Product.Sku.fetch'')"

definition test_meta_always_authorized :: "'rx regex_lib \<Rightarrow> bool" where
  "test_meta_always_authorized lib \<longleftrightarrow>
     is_authorized lib (make_auth lib ''FP:AA:BB SomeAction'') ''UNKNOWN:FP'' ''main'' ''_meta.documentation''"

definition test_unknown_fingerprint_denied :: "'rx regex_lib \<Rightarrow> bool" where
  "test_unknown_fingerprint_denied lib \<longleftrightarrow>
     \<not> is_authorized lib (make_auth lib ''FP:AA:BB main:ALL'') ''OTHER:FP'' ''main'' ''Product.Sku.fetch''"

definition test_colon_in_sector_rejected :: "'rx regex_lib \<Rightarrow> bool" where
  "test_colon_in_sector_rejected lib \<longleftrightarrow>
     \<not> is_authorized lib (make_auth lib ''FP:AA:BB main:ALL'') ''FP:AA:BB'' ''evil:sector'' ''Action''"

definition test_colon_in_action_rejected :: "'rx regex_lib \<Rightarrow> bool" where
  "test_colon_in_action_rejected lib \<longleftrightarrow>
     \<not> is_authorized lib (make_auth lib ''FP:AA:BB main:ALL'') ''FP:AA:BB'' ''main'' ''evil:action''"

definition test_case_insensitive :: "'rx regex_lib \<Rightarrow> bool" where
  "test_case_insensitive lib \<longleftrightarrow>
     (let auth = make_auth lib ''FP:AA:BB Product.Sku''
      in is_authorized lib auth ''FP:AA:BB'' ''main'' ''product.sku.fetch''
         \<and> is_authorized lib auth ''FP:AA:BB'' ''main'' ''PRODUCT.SKU.fetch'')"

definition commented_file :: string where
  "commented_file = ''# This is a comment'' @ newline @ ''FP:AA:BB main:ALL # inline comment''"

definition test_comment_handling :: "'rx regex_lib \<Rightarrow> bool" where
  "test_comment_handling lib \<longleftrightarrow>
     is_authorized lib (make_auth lib commented_file) ''FP:AA:BB'' ''main'' ''Action.test''"

definition test_prefix_match_with_dot_boundary :: "'rx regex_lib \<Rightarrow> bool" where
  "test_prefix_match_with_dot_boundary lib \<longleftrightarrow>
     (let auth = make_auth lib ''FP:AA:BB Product''
      in is_authorized lib auth ''FP:AA:BB'' ''main'' ''Product.Sku.fetch''
         \<and> is_authorized lib auth ''FP:AA:BB'' ''main'' ''Product''
         \<and> \<not> is_authorized lib auth ''FP:AA:BB'' ''main'' ''ProductExtra.fetch'')"

text \<open>The lines and tokens of the files.\<close>

lemma auth_file_lines:
  "auth_lines ''BC:6E:86 background:ALL, main:ALL, web:ALL'' = [(''BC:6E:86'', ''background:ALL, main:ALL, web:ALL'')]"
  "auth_lines ''FP:AA:BB Product.Sku'' = [(''FP:AA:BB'', ''Product.Sku'')]"
  "auth_lines ''FP:AA:BB SomeAction'' = [(''FP:AA:BB'', ''SomeAction'')]"
  "auth_lines ''FP:AA:BB main:ALL'' = [(''FP:AA:BB'', ''main:ALL'')]"
  "auth_lines ''FP:AA:BB Product'' = [(''FP:AA:BB'', ''Product'')]"
  "auth_lines commented_file = [(''FP:AA:BB'', ''main:ALL'')]"
  by (simp_all add: auth_lines_def lines_def strip_cr_def parse_auth_line_def strip_comment_def nth_part_def newline_def commented_file_def
      trim_def trim_start.simps ws_len_def Let_def List.map_filter_simps)

lemma auth_file_tokens:
  "line_tokens ''background:ALL, main:ALL, web:ALL'' = [''background:ALL'', ''main:ALL'', ''web:ALL'']"
  "line_tokens ''Product.Sku'' = [''Product.Sku'']" "line_tokens ''SomeAction'' = [''SomeAction'']"
  "line_tokens ''main:ALL'' = [''main:ALL'']" "line_tokens ''Product'' = [''Product'']"
  by (simp_all add: line_tokens_def trim_def trim_start.simps ws_len_def Let_def)

lemma auth_simple_tokens:
  "simple_token (''background'' @ '':ALL'')" "simple_token (''main'' @ '':ALL'')" "simple_token (''web'' @ '':ALL'')"
  "simple_token ''Product.Sku''" "simple_token ''SomeAction''" "simple_token ''Product''"
  unfolding simple_token_def by (auto simp: plain_text_def is_ascii_def)


lemma authorized_services_tests:
  assumes laws: "regex_laws lib"
  shows "test_all_sectors_authorized lib" and "test_no_colon_defaults_to_main lib"
    and "test_meta_always_authorized lib" and "test_unknown_fingerprint_denied lib"
    and "test_colon_in_sector_rejected lib" and "test_colon_in_action_rejected lib"
    and "test_case_insensitive lib" and "test_comment_handling lib"
    and "test_prefix_match_with_dot_boundary lib"
proof -
  note tokens = auth_file_tokens auth_simple_tokens [simplified]
  note decide = is_authorized_content [OF laws] simple_line_def content_allows_def auth_file_lines tokens
    token_allows_def literal_match_def prefix_match_def plain_text_def is_ascii_def to_lowercase_def lower_char_def
    char_of_eq_iff make_auth_def
  show "test_all_sectors_authorized lib" by (simp add: test_all_sectors_authorized_def decide)
  show "test_no_colon_defaults_to_main lib" by (simp add: test_no_colon_defaults_to_main_def decide)
  show "test_meta_always_authorized lib" by (simp add: test_meta_always_authorized_def is_authorized_def)
  show "test_unknown_fingerprint_denied lib" by (simp add: test_unknown_fingerprint_denied_def decide)
  show "test_colon_in_sector_rejected lib" by (simp add: test_colon_in_sector_rejected_def is_authorized_def)
  show "test_colon_in_action_rejected lib" by (simp add: test_colon_in_action_rejected_def is_authorized_def)
  show "test_case_insensitive lib"
    by (simp add: test_case_insensitive_def decide)
      (simp add: eq_commute [of "CHR ''p''"] eq_commute [of "CHR ''s''"] char_of_eq_iff)
  show "test_comment_handling lib" by (simp add: test_comment_handling_def decide)
  show "test_prefix_match_with_dot_boundary lib" by (simp add: test_prefix_match_with_dot_boundary_def decide)
qed

subsection \<open>The mock client (transport/mock.rs)\<close>

definition json_headers :: "(string \<times> string) list" where
  "json_headers = [(''content-type'', ''application/json'')]"

definition foo_bar_entry :: action_entry where
  "foo_bar_entry =
     \<lparr>ae_action = \<lparr>a_path = ''foo.bar'', a_version = 1, a_pathver = ''foo.bar~1'', a_flags = [], a_sector = ''main'',
                    a_envelopes = [''json''], a_section = V3\<rparr>,
      ae_info = \<lparr>si_identity = ''test:abcd'', si_uri = ''beepish+tls://127.0.0.1:30100'', si_fingerprint = None\<rparr>,
      ae_params = \<lparr>ap_weight = 1, ap_interval = 5000, ap_timestamp = 0\<rparr>, ae_authorized = True\<rparr>"

definition test_mock_client :: "bytes \<Rightarrow> bytes \<Rightarrow> bool" where
  "test_mock_client sent answer \<longleftrightarrow>
     (let client = mock_expect
            \<lparr>ex_pathver = ''foo.bar~1'', ex_req_headers = json_headers, ex_req_body = sent,
             ex_res_headers = json_headers, ex_res_body = answer, ex_sleep = None\<rparr> mock_new
      in case mock_request foo_bar_entry json_headers (Some sent) client of
           (Ret response, client') \<Rightarrow> mr_body response = answer \<and> expectations_met client'
         | _ \<Rightarrow> False)"

lemma mock_client_test: "test_mock_client sent answer"
  by (simp add: test_mock_client_def mock_new_def mock_expect_def mock_request_def foo_bar_entry_def small_numbers
      expectations_met_def Let_def)

subsection \<open>Multicast (service/multicast.rs)\<close>

definition test_default_config :: bool where
  "test_default_config \<longleftrightarrow>
     (let cfg = multicast_new (10, 0, 0, 1)
      in mc_group cfg = (239, 63, 248, 106) \<and> mc_port cfg = 5555 \<and> mc_interval_secs cfg = 5)"

lemma multicast_test: test_default_config
  by (simp add: test_default_config_def multicast_new_def)

end
