(* ===== verification/Wire_Tests.thy ===== *)
theory Wire_Tests
  imports Perl_Interop
begin

text \<open>
  The tests of the wire format, \<open>proto/tests.rs\<close> and \<open>proto/fixture_tests.rs\<close>, as statements about
  the model, with the helper that reads all packets of a buffer.  Texts of JSON are given to the
  library; the tests that start from one take the document it denotes.
\<close>

subsection \<open>The header and its fields (proto/tests.rs)\<close>

definition test_envelope_format_serde :: bool where
  "test_envelope_format_serde \<longleftrightarrow>
     ser_envelope Json = JStr ''json'' \<and> ser_envelope JsonStore = JStr ''jsonstore''
     \<and> ser_envelope (OtherFormat ''extdirect'') = JStr ''extdirect''
     \<and> de_envelope (JStr ''json'') = Some Json \<and> de_envelope (JStr ''jsonstore'') = Some JsonStore
     \<and> de_envelope (JStr ''web'') = Some (OtherFormat ''web'')"

definition test_message_type_serde :: bool where
  "test_message_type_serde \<longleftrightarrow>
     ser_message_type Request = JStr ''request'' \<and> ser_message_type Reply = JStr ''reply''
     \<and> de_message_type (JStr ''request'') = Some Request \<and> de_message_type (JStr ''reply'') = Some Reply"

definition test_flex_int_from_integer :: bool where
  "test_flex_int_from_integer \<longleftrightarrow> de_flex_int (JInt 42) = Some 42"

definition test_flex_int_from_string :: bool where
  "test_flex_int_from_string \<longleftrightarrow> de_flex_int (JStr ''42'') = Some 42"

definition test_flex_int_from_negative :: bool where
  "test_flex_int_from_negative \<longleftrightarrow> de_flex_int (JInt (- 1)) = Some (- 1)"

definition test_flex_int_serialize :: bool where
  "test_flex_int_serialize \<longleftrightarrow> ser_flex_int 42 = JInt 42"

lemma serde_tests:
  test_envelope_format_serde test_message_type_serde test_flex_int_from_integer test_flex_int_from_negative
  by (simp_all add: test_envelope_format_serde_def test_message_type_serde_def de_envelope_def envelope_of_str_def
      de_message_type_def test_flex_int_from_integer_def test_flex_int_from_negative_def)

lemma flex_int_tests: test_flex_int_from_string test_flex_int_serialize
  by (simp_all add: test_flex_int_from_string_def test_flex_int_serialize_def ser_flex_int_def parse_i64_def
      parse_sint_def is_digit_def)

text \<open>The members of a header, where the tests look for pieces of its text.\<close>

definition header_members :: "packet_header \<Rightarrow> (string \<times> json) list" where
  "header_members h = (case json_of_header h of JObj ms \<Rightarrow> ms | _ \<Rightarrow> [])"

definition test_packet_header_json_field_names :: bool where
  "test_packet_header_json_field_names \<longleftrightarrow>
     (let ms = header_members
        \<lparr>h_action = ''API.Status.health_check'', h_envelope = Json, h_error = None, h_error_code = None,
         h_error_data = None, h_request_id = 1, h_client_id = 123, h_ticket = ''some-ticket'',
         h_identifying_token = [], h_message_type = Request, h_version = 1\<rparr>
      in map_of ms ''type'' = Some (JStr ''request'') \<and> map_of ms ''envelope'' = Some (JStr ''json'')
         \<and> map_of ms ''error'' = None \<and> map_of ms ''error_code'' = None
         \<and> map_of ms ''identifying_token'' = Some (JStr [])
         \<and> map_of ms ''action'' = Some (JStr ''API.Status.health_check''))"

definition test_packet_header_roundtrip :: bool where
  "test_packet_header_roundtrip \<longleftrightarrow>
     (let hdr = \<lparr>h_action = ''Product.Sku.fetch'', h_envelope = Json, h_error = None, h_error_code = None,
                h_error_data = None, h_request_id = 42, h_client_id = 7,
                h_ticket = ''1,100,200,1700000000,3600,admin,sig'', h_identifying_token = ''tok'',
                h_message_type = Request, h_version = 1\<rparr>
      in header_of_json (json_of_header hdr) = Some hdr)"

definition test_packet_header_deserialize_go_format :: bool where
  "test_packet_header_deserialize_go_format \<longleftrightarrow>
     (case header_of_json (JObj
         [(''action'', JStr ''Product.Sku.fetch''), (''envelope'', JStr ''json''), (''request_id'', JInt 1),
          (''client_id'', JInt 42), (''ticket'', JStr []), (''identifying_token'', JStr []),
          (''type'', JStr ''request''), (''version'', JInt 1)]) of
        Some hdr \<Rightarrow> h_action hdr = ''Product.Sku.fetch'' \<and> h_message_type hdr = Request
          \<and> h_request_id hdr = 1 \<and> h_client_id hdr = 42
      | None \<Rightarrow> False)"

definition test_packet_header_deserialize_flex_client_id :: bool where
  "test_packet_header_deserialize_flex_client_id \<longleftrightarrow>
     (case header_of_json (JObj
         [(''action'', JStr ''Test.action''), (''envelope'', JStr ''json''), (''request_id'', JInt 1),
          (''client_id'', JStr ''999''), (''ticket'', JStr []), (''identifying_token'', JStr []),
          (''type'', JStr ''request''), (''version'', JInt 1)]) of
        Some hdr \<Rightarrow> h_client_id hdr = 999
      | None \<Rightarrow> False)"

definition test_header_with_null_ticket :: bool where
  "test_header_with_null_ticket \<longleftrightarrow>
     header_of_json (JObj
       [(''action'', JStr ''ScampRsTest.echo''), (''version'', JInt 1), (''envelope'', JStr ''json''),
        (''ticket'', JNull), (''type'', JStr ''request''), (''request_id'', JInt 1)]) \<noteq> None"

definition test_header_with_null_identifying_token :: bool where
  "test_header_with_null_identifying_token \<longleftrightarrow>
     header_of_json (JObj
       [(''action'', JStr ''test''), (''version'', JInt 1), (''envelope'', JStr ''json''),
        (''identifying_token'', JNull), (''type'', JStr ''request''), (''request_id'', JInt 1)]) \<noteq> None"

lemma header_tests:
  test_packet_header_json_field_names test_packet_header_roundtrip test_packet_header_deserialize_go_format
  test_header_with_null_ticket test_header_with_null_identifying_token
  by code_simp+

lemma flex_client_id_test: test_packet_header_deserialize_flex_client_id
proof -
  have "parse_i64 ''999'' = Some 999" by (simp add: parse_i64_def parse_sint_def is_digit_def)
  then show ?thesis
    by (simp add: test_packet_header_deserialize_flex_client_id_def build_header_def field_def de_envelope_def
        envelope_of_str_def de_message_type_def)
qed

subsection \<open>Packets (proto/tests.rs)\<close>

lemma small_zero: "dec_of_nat 0 = ''0''"
  by code_simp

definition is_fatal :: "parse_result \<Rightarrow> bool" where
  "is_fatal r = (case r of Fatal e \<Rightarrow> True | _ \<Rightarrow> False)"

definition needs_bytes :: "parse_result \<Rightarrow> bool" where
  "needs_bytes r = (case r of NeedBytes n \<Rightarrow> True | _ \<Rightarrow> False)"

definition parsed_type :: "parse_result \<Rightarrow> packet_type option" where
  "parsed_type r = (case r of Success p n \<Rightarrow> Some (p_type p) | _ \<Rightarrow> None)"

definition parsed_body :: "parse_result \<Rightarrow> bytes option" where
  "parsed_body r = (case r of Success p n \<Rightarrow> Some (p_body p) | _ \<Rightarrow> None)"

definition test_packet_parse_roundtrip :: "(json \<Rightarrow> bytes) \<Rightarrow> (bytes \<Rightarrow> json option) \<Rightarrow> bool" where
  "test_packet_parse_roundtrip enc dec \<longleftrightarrow>
     (let pkt = \<lparr>p_type = Data, p_msg_no = 3, p_header = None, p_body = ''hello world''\<rparr>;
          buf = fst (packet_write enc pkt)
      in packet_parse dec buf = Success pkt (length buf))"

definition test_packet_parse_eof_empty_body :: "(bytes \<Rightarrow> json option) \<Rightarrow> bool" where
  "test_packet_parse_eof_empty_body dec \<longleftrightarrow>
     (let r = packet_parse dec (''EOF 0 0'' @ crlf @ ''END'' @ crlf)
      in parsed_type r = Some Eof \<and> parsed_body r = Some [])"

definition test_packet_parse_ack_decimal_string :: "(bytes \<Rightarrow> json option) \<Rightarrow> bool" where
  "test_packet_parse_ack_decimal_string dec \<longleftrightarrow>
     (let r = packet_parse dec (''ACK 0 6'' @ crlf @ ''131072END'' @ crlf)
      in parsed_type r = Some Ack \<and> parsed_body r = Some ''131072'')"

definition test_packet_parse_too_short :: "(bytes \<Rightarrow> json option) \<Rightarrow> bool" where
  "test_packet_parse_too_short dec \<longleftrightarrow> packet_parse dec ''HEA'' = TooShort \<and> packet_parse dec [] = TooShort"

definition test_packet_parse_need_bytes :: "(bytes \<Rightarrow> json option) \<Rightarrow> bool" where
  "test_packet_parse_need_bytes dec \<longleftrightarrow> needs_bytes (packet_parse dec (''DATA 0 100'' @ crlf @ ''partial''))"

definition test_bare_newline_rejected :: "(bytes \<Rightarrow> json option) \<Rightarrow> bool" where
  "test_bare_newline_rejected dec \<longleftrightarrow> is_fatal (packet_parse dec (''HEADER 0 2'' @ [CHR 0x0A] @ ''{}END'' @ crlf))"

definition crlf_json :: bytes where
  "crlf_json = json_object
     [json_member ''type'' (quoted ''request''), json_member ''action'' (quoted ''test''), json_member ''version'' ''1'',
      json_member ''envelope'' (quoted ''json''), json_member ''request_id'' ''1'']"

definition test_crlf_required :: "(bytes \<Rightarrow> json option) \<Rightarrow> bool" where
  "test_crlf_required dec \<longleftrightarrow>
     (case packet_parse dec (''HEADER 0 '' @ dec_of_nat (length crlf_json) @ crlf @ crlf_json @ ''END'' @ crlf) of
        Success p n \<Rightarrow> p_type p = Header \<and> p_header p \<noteq> None
      | _ \<Rightarrow> False)"

text \<open>Every buffer of the tests is the fixture of a packet, or shows its outcome in the header line.\<close>

lemma fixture_of:
  "''EOF 0 0'' @ crlf @ ''END'' @ crlf = build_fixture ''EOF'' 0 []"
  "''ACK 0 6'' @ crlf @ ''131072END'' @ crlf = build_fixture ''ACK'' 0 ''131072''"
proof -
  have "dec_of_nat 0 = ''0''" "dec_of_nat (Suc (Suc (Suc (Suc (Suc (Suc 0)))))) = ''6''" by code_simp+
  then show "''EOF 0 0'' @ crlf @ ''END'' @ crlf = build_fixture ''EOF'' 0 []"
    "''ACK 0 6'' @ crlf @ ''131072END'' @ crlf = build_fixture ''ACK'' 0 ''131072''"
    by (simp_all add: build_fixture_def)
qed

lemma fixture_parses:
  assumes "length body \<le> 100000" and "ty \<noteq> Header"
  shows "packet_parse dec (build_fixture (type_str ty) no body @ rest)
    = Success \<lparr>p_type = ty, p_msg_no = no, p_header = None, p_body = body\<rparr> (length (build_fixture (type_str ty) no body))"
proof -
  let ?p = "\<lparr>p_type = ty, p_msg_no = no, p_header = None, p_body = body\<rparr>" and ?enc = "\<lambda>v. []"
  have "build_fixture (type_str ty) no body = packet_bytes ?enc ?p"
    by (simp add: build_fixture_def packet_bytes_eq header_line_def body_buf_def trailer_def)
  moreover have "sendable ?enc dec ?p"
    using assms by (simp add: sendable_def wf_packet_def codec_ok_def body_buf_def MAX_PACKET_SIZE_def)
  ultimately show ?thesis using packet_parse_written [of ?enc dec ?p rest] by simp
qed

lemma fixture_header_parses:
  assumes "dec raw = Some doc" and "header_of_json doc = Some h" and "length raw \<le> 100000"
  shows "packet_parse dec (build_fixture ''HEADER'' no raw @ rest)
    = Success (header_packet no h) (length (build_fixture ''HEADER'' no raw))"
proof -
  have "sendable (\<lambda>v. raw) (own_text dec raw h) (header_packet no h)"
    using own_text_fits [OF assms(2,3), of dec] assms(3)
    by (simp add: sendable_def wf_packet_def codec_ok_def body_buf_def header_packet_def header_fits_def MAX_PACKET_SIZE_def)
  from packet_parse_written [OF this, of rest] show ?thesis
    unfolding own_text_parse [where dec = dec, OF assms(1,2)] fixture_bytes(1) [of no raw h] .
qed

lemma packet_tests:
  "test_packet_parse_roundtrip enc dec" "test_packet_parse_eof_empty_body dec"
  "test_packet_parse_ack_decimal_string dec" "test_packet_parse_too_short dec"
proof -
  let ?p = "\<lparr>p_type = Data, p_msg_no = 3, p_header = None, p_body = ''hello world''\<rparr>"
  have "sendable enc dec ?p"
    by (simp add: sendable_def wf_packet_def codec_ok_def body_buf_def MAX_PACKET_SIZE_def)
  from packet_parse_written [OF this, of "[]"] show "test_packet_parse_roundtrip enc dec"
    unfolding test_packet_parse_roundtrip_def Let_def by simp
  show "test_packet_parse_eof_empty_body dec"
    using fixture_parses [of "[]" Eof dec 0 "[]"]
    unfolding test_packet_parse_eof_empty_body_def fixture_of
    by (simp add: parsed_type_def parsed_body_def)
  show "test_packet_parse_ack_decimal_string dec"
    using fixture_parses [of "''131072''" Ack dec 0 "[]"]
    unfolding test_packet_parse_ack_decimal_string_def fixture_of
    by (simp add: parsed_type_def parsed_body_def)
  show "test_packet_parse_too_short dec"
    by (simp add: test_packet_parse_too_short_def packet_parse_def header_cut_def crlf_def Let_def)
qed

lemma refused_packet_tests: "test_bare_newline_rejected dec" "test_packet_parse_need_bytes dec"
proof -
  have "header_cut (''HEADER 0 2'' @ [CHR 0x0A] @ ''{}END'' @ crlf) = Inr 16"
    "split_whitespace (''HEADER 0 2'' @ [CHR 0x0A] @ ''{}END'') = [''HEADER'', ''0'', ''2'', ''{}END'']"
    by code_simp+
  then show "test_bare_newline_rejected dec"
    by (simp add: test_bare_newline_rejected_def packet_parse_def header_fields_def from_utf8_def is_fatal_def)
  let ?buf = "''DATA 0 100'' @ crlf @ ''partial''"
  have cut: "header_cut ?buf = Inr 10" by code_simp
  have "take 10 ?buf = ''DATA 0 100''" "split_whitespace ''DATA 0 100'' = [''DATA'', ''0'', ''100'']" by code_simp+
  then have "header_fields (take 10 ?buf) = Inr (''DATA'', 0, 100)"
    by (simp add: header_fields_def is_ascii_def parse_u64_def parse_uint_def is_digit_def u64_max_def MAX_PACKET_SIZE_def)
  from packet_parse_cut [OF cut this, of dec] show "test_packet_parse_need_bytes dec"
    by (simp add: test_packet_parse_need_bytes_def needs_bytes_def crlf_def)
qed

lemma crlf_required_test:
  assumes "dec crlf_json = Some (JObj
    [(''type'', JStr ''request''), (''action'', JStr ''test''), (''version'', JInt 1), (''envelope'', JStr ''json''),
     (''request_id'', JInt 1)])"
  shows "test_crlf_required dec"
proof -
  let ?doc = "JObj [(''type'', JStr ''request''), (''action'', JStr ''test''), (''version'', JInt 1),
    (''envelope'', JStr ''json''), (''request_id'', JInt 1)]"
  have "header_of_json ?doc = Some (default_header\<lparr>h_action := ''test'', h_request_id := 1, h_version := 1\<rparr>)"
    by code_simp
  moreover have "length crlf_json \<le> 100000" by (simp add: crlf_json_def json_object_def json_member_def quoted_def)
  moreover have "''HEADER 0 '' @ dec_of_nat (length crlf_json) @ crlf @ crlf_json @ ''END'' @ crlf
      = build_fixture ''HEADER'' 0 crlf_json"
    using small_zero by (simp add: build_fixture_def)
  ultimately show ?thesis
    using fixture_header_parses [where dec = dec and rest = "[]", OF assms]
    by (simp add: test_crlf_required_def header_packet_def)
qed

subsection \<open>All packets of a buffer (test_helpers.rs)\<close>

function parse_all_packets :: "(bytes \<Rightarrow> json option) \<Rightarrow> bytes \<Rightarrow> packet list" where
  "parse_all_packets dec buf =
     (if buf = [] then []
      else case packet_parse dec buf of
        Success p n \<Rightarrow> p # parse_all_packets dec (drop n buf)
      | _ \<Rightarrow> [])"
  by pat_completeness auto
termination
  by (relation "measure (\<lambda>(dec, buf). length buf)") (auto dest: packet_parse_success_bound)

declare parse_all_packets.simps [simp del]

lemma parse_all_packets_Nil [simp]: "parse_all_packets dec [] = []"
  by (subst parse_all_packets.simps) simp

lemma parse_all_packets_step:
  "packet_parse dec (b @ rest) = Success p (length b) \<Longrightarrow> parse_all_packets dec (b @ rest) = p # parse_all_packets dec rest"
  by (subst parse_all_packets.simps) auto

text \<open>What was written packet by packet is read back.\<close>

lemma parse_all_written:
  "\<forall>p \<in> set ps. sendable enc dec p \<Longrightarrow> parse_all_packets dec (stream_bytes enc ps) = ps"
  by (induction ps) (simp_all add: parse_all_packets_step packet_parse_written)


subsection \<open>The packets of the Perl implementation (proto/fixture_tests.rs)\<close>

definition perl_header_packet :: "bytes \<Rightarrow> bytes" where
  "perl_header_packet json = build_fixture ''HEADER'' 0 json"

definition perl_reply_packet :: "bytes \<Rightarrow> bytes" where
  "perl_reply_packet json = build_fixture ''HEADER'' 1 json"

definition perl_data_empty_json :: bytes where
  "perl_data_empty_json = build_fixture ''DATA'' 0 ''{}''"

definition perl_eof :: bytes where
  "perl_eof = build_fixture ''EOF'' 0 []"

definition perl_ack :: "u64 \<Rightarrow> bytes" where
  "perl_ack n = build_fixture ''ACK'' 0 (dec_of_nat (unat n))"

definition perl_txerr :: bytes where
  "perl_txerr = build_fixture ''TXERR'' 0 ''Connection closed before message finished''"

definition test_perl_header_request :: "(bytes \<Rightarrow> json option) \<Rightarrow> bool" where
  "test_perl_header_request dec \<longleftrightarrow>
     (let buf = perl_header_packet perl_request_json in
      case packet_parse dec buf of
        Success p n \<Rightarrow>
          n = length buf \<and> p_type p = Header \<and> p_msg_no p = 0
          \<and> (case p_header p of
               Some h \<Rightarrow> h_action h = ''api.status.health_check'' \<and> h_message_type h = Request
                 \<and> h_request_id h = 1 \<and> h_client_id h = 0 \<and> h_envelope h = Json \<and> h_version h = 1
             | None \<Rightarrow> False)
      | _ \<Rightarrow> False)"

definition test_perl_header_with_nulls :: "(bytes \<Rightarrow> json option) \<Rightarrow> bool" where
  "test_perl_header_with_nulls dec \<longleftrightarrow>
     (case packet_parse dec (perl_header_packet perl_nulls_json) of
        Success p n \<Rightarrow>
          (case p_header p of
             Some h \<Rightarrow> h_action h = ''api.status.health_check'' \<and> h_ticket h = [] \<and> h_identifying_token h = []
           | None \<Rightarrow> False)
      | _ \<Rightarrow> False)"

definition test_perl_data_packet :: "(bytes \<Rightarrow> json option) \<Rightarrow> bool" where
  "test_perl_data_packet dec \<longleftrightarrow>
     (let r = packet_parse dec perl_data_empty_json in parsed_type r = Some Data \<and> parsed_body r = Some ''{}'')"

definition test_perl_eof_packet :: "(bytes \<Rightarrow> json option) \<Rightarrow> bool" where
  "test_perl_eof_packet dec \<longleftrightarrow>
     (let r = packet_parse dec perl_eof in parsed_type r = Some Eof \<and> parsed_body r = Some [])"

definition test_perl_ack_packet :: "(bytes \<Rightarrow> json option) \<Rightarrow> bool" where
  "test_perl_ack_packet dec \<longleftrightarrow>
     (let r = packet_parse dec (perl_ack 2) in parsed_type r = Some Ack \<and> parsed_body r = Some ''2'')"

definition test_perl_reply_ok :: "(bytes \<Rightarrow> json option) \<Rightarrow> bool" where
  "test_perl_reply_ok dec \<longleftrightarrow>
     (case packet_parse dec (perl_reply_packet perl_reply_json) of
        Success p n \<Rightarrow>
          p_type p = Header \<and> p_msg_no p = 1
          \<and> (case p_header p of
               Some h \<Rightarrow> h_message_type h = Reply \<and> h_request_id h = 1 \<and> h_error h = None \<and> h_error_code h = None
             | None \<Rightarrow> False)
      | _ \<Rightarrow> False)"

definition test_perl_reply_error :: "(bytes \<Rightarrow> json option) \<Rightarrow> bool" where
  "test_perl_reply_error dec \<longleftrightarrow>
     (case packet_parse dec (perl_reply_packet perl_error_json) of
        Success p n \<Rightarrow>
          (case p_header p of
             Some h \<Rightarrow> h_message_type h = Reply \<and> h_error h = Some ''Action not found''
               \<and> h_error_code h = Some ''not_found''
           | None \<Rightarrow> False)
      | _ \<Rightarrow> False)"

definition test_perl_txerr :: "(bytes \<Rightarrow> json option) \<Rightarrow> bool" where
  "test_perl_txerr dec \<longleftrightarrow>
     (let r = packet_parse dec perl_txerr
      in parsed_type r = Some Txerr \<and> parsed_body r = Some ''Connection closed before message finished'')"

text \<open>The loops of the sequence tests stop with a panic where \<open>parse_all_packets\<close> stops: all bytes are read.\<close>

definition test_perl_request_sequence :: "(bytes \<Rightarrow> json option) \<Rightarrow> bool" where
  "test_perl_request_sequence dec \<longleftrightarrow>
     map p_type (parse_all_packets dec (perl_request_sequence perl_request_json)) = [Header, Data, Eof]"

definition test_perl_reply_sequence :: "(bytes \<Rightarrow> json option) \<Rightarrow> bool" where
  "test_perl_reply_sequence dec \<longleftrightarrow>
     (let body = ''{'' @ json_member ''status'' (quoted ''ok'') @ ''}'';
          packets = parse_all_packets dec (perl_reply_sequence perl_reply_json body)
      in map p_type packets = [Header, Data, Eof] \<and> (\<forall>p \<in> set packets. p_msg_no p = 1)
         \<and> p_body (packets ! 1) = body)"

lemma perl_header_tests:
  assumes "reads_perl dec"
  shows "test_perl_header_request dec" and "test_perl_header_with_nulls dec"
    and "test_perl_reply_ok dec" and "test_perl_reply_error dec"
proof -
  have docs: "dec perl_request_json = Some perl_request_doc" "dec perl_nulls_json = Some perl_nulls_doc"
    "dec perl_reply_json = Some perl_reply_doc" "dec perl_error_json = Some perl_error_doc"
    using assms by (simp_all add: reads_perl_def)
  note parsed = fixture_header_parses [where dec = dec and rest = "[]", OF docs(1) perl_headers(1) perl_text_lengths(1)]
    fixture_header_parses [where dec = dec and rest = "[]", OF docs(2) perl_headers(2) perl_text_lengths(2)]
    fixture_header_parses [where dec = dec and rest = "[]", OF docs(3) perl_headers(3) perl_text_lengths(3)]
    fixture_header_parses [where dec = dec and rest = "[]", OF docs(4) perl_headers(4) perl_text_lengths(4)]
  note hdr = perl_request_def perl_reply_def perl_error_def default_header_def header_packet_def
    perl_header_packet_def perl_reply_packet_def
  show "test_perl_header_request dec"
    using parsed(1) by (simp add: test_perl_header_request_def Let_def hdr)
  show "test_perl_header_with_nulls dec"
    using parsed(2) by (simp add: test_perl_header_with_nulls_def hdr)
  show "test_perl_reply_ok dec"
    using parsed(3) by (simp add: test_perl_reply_ok_def hdr)
  show "test_perl_reply_error dec"
    using parsed(4) by (simp add: test_perl_reply_error_def hdr)
qed

lemma perl_packet_tests:
  "test_perl_data_packet dec" "test_perl_eof_packet dec" "test_perl_ack_packet dec" "test_perl_txerr dec"
proof -
  note result = parsed_type_def parsed_body_def Let_def
  have two: "dec_of_nat 2 = ''2''" by code_simp
  show "test_perl_data_packet dec"
    using fixture_parses [of "''{}''" Data dec 0 "[]"]
    by (simp add: test_perl_data_packet_def perl_data_empty_json_def result)
  show "test_perl_eof_packet dec"
    using fixture_parses [of "[]" Eof dec 0 "[]"] by (simp add: test_perl_eof_packet_def perl_eof_def result)
  show "test_perl_ack_packet dec"
    using fixture_parses [of "''2''" Ack dec 0 "[]"] by (simp add: test_perl_ack_packet_def perl_ack_def two result)
  show "test_perl_txerr dec"
    using fixture_parses [of "''Connection closed before message finished''" Txerr dec 0 "[]"]
    by (simp add: test_perl_txerr_def perl_txerr_def result)
qed

lemma perl_sequence_packets:
  assumes "dec raw = Some doc" and "header_of_json doc = Some h" and "length raw \<le> 100000"
    and "length body \<le> 100000"
  shows "parse_all_packets dec (build_fixture ''HEADER'' no raw @ build_fixture ''DATA'' no body @ build_fixture ''EOF'' no [])
    = [header_packet no h, data_packet no body, eof_packet no]"
  using fixture_parses [OF assms(4), of Data dec no] fixture_parses [of "[]" Eof dec no "[]"]
  by (simp add: parse_all_packets_step fixture_header_parses [where dec = dec, OF assms(1-3)]
      parse_all_packets_step [where rest = "[]", simplified] data_packet_def eof_packet_def)

lemma perl_sequence_tests:
  assumes "reads_perl dec"
  shows "test_perl_request_sequence dec" and "test_perl_reply_sequence dec"
proof -
  have docs: "dec perl_request_json = Some perl_request_doc" "dec perl_reply_json = Some perl_reply_doc"
    using assms by (simp_all add: reads_perl_def)
  note types = header_packet_def data_packet_def eof_packet_def
  show "test_perl_request_sequence dec"
    using perl_sequence_packets [where dec = dec, OF docs(1) perl_headers(1) perl_text_lengths(1), of "''{}''"]
    by (simp add: test_perl_request_sequence_def perl_request_sequence_def types)
  let ?body = "''{'' @ json_member ''status'' (quoted ''ok'') @ ''}''"
  have "length ?body \<le> 100000" by (simp add: json_member_def quoted_def)
  from perl_sequence_packets [where dec = dec, OF docs(2) perl_headers(3) perl_text_lengths(3) this]
  show "test_perl_reply_sequence dec"
    unfolding test_perl_reply_sequence_def Let_def perl_reply_sequence_def by (simp add: types)
qed

end
