(* ===== verification/Connection_Tests.thy ===== *)
theory Connection_Tests
  imports Wire_Tests
begin

text \<open>
  The tests of connections, \<open>service/server_connection_tests.rs\<close> and
  \<open>transport/beepish/client/connection_tests.rs\<close>: one request over a stream to a service with an
  echo action, for every way the stream cuts its bytes into reads.
\<close>

subsection \<open>Helpers (test_helpers.rs)\<close>

definition echo_actions :: "string \<rightharpoonup> registered_action" where
  "echo_actions =
     [''echo.v1'' \<mapsto> \<lparr>ra_name = ''echo'', ra_version = 1, ra_flags = [], ra_handler = (\<lambda>k req. reply_ok (req_body req))\<rparr>]"

definition make_request_header :: "string \<Rightarrow> i32 \<Rightarrow> i64 \<Rightarrow> packet_header" where
  "make_request_header act version request_id =
     default_header\<lparr>h_action := act, h_version := version, h_request_id := request_id, h_message_type := Request\<rparr>"

definition write_request ::
  "(json \<Rightarrow> bytes) \<Rightarrow> u64 \<Rightarrow> string \<Rightarrow> i32 \<Rightarrow> i64 \<Rightarrow> bytes \<Rightarrow> bytes" where
  "write_request enc msg_no act version request_id body =
     packet_bytes enc (header_packet msg_no (make_request_header act version request_id))
     @ concat (map (\<lambda>chunk. packet_bytes enc (data_packet msg_no chunk)) (chunks_of DATA_CHUNK_SIZE body))
     @ packet_bytes enc (eof_packet msg_no)"

subsection \<open>One request to the echo service (service/server_connection_tests.rs)\<close>

definition test_env :: server_env where
  "test_env = \<lparr>env_write = (\<lambda>n. True), env_actions = echo_actions, env_check = None\<rparr>"

text \<open>\<open>cuts\<close> is how the bytes are split into reads.\<close>

definition roundtrip ::
  "(json \<Rightarrow> bytes) \<Rightarrow> (bytes \<Rightarrow> json option) \<Rightarrow> (bytes \<Rightarrow> bytes list) \<Rightarrow> string \<Rightarrow> i32 \<Rightarrow> bytes \<Rightarrow> packet list" where
  "roundtrip enc dec cuts act version body =
     parse_all_packets dec (stream_bytes enc (c_written
       (end_state (handle_connection test_env dec (map Got (cuts (write_request enc 0 act version 1 body)))))))"

definition reply_hdr :: "packet list \<Rightarrow> packet option" where
  "reply_hdr packets = List.find (\<lambda>p. p_type p = Header) packets"

definition reply_data_packets :: "u64 \<Rightarrow> packet list \<Rightarrow> packet list" where
  "reply_data_packets no packets = filter (\<lambda>p. p_type p = Data \<and> p_msg_no p = no) packets"

definition test_echo_roundtrip :: "(json \<Rightarrow> bytes) \<Rightarrow> (bytes \<Rightarrow> json option) \<Rightarrow> (bytes \<Rightarrow> bytes list) \<Rightarrow> bool" where
  "test_echo_roundtrip enc dec cuts \<longleftrightarrow>
     (let packets = roundtrip enc dec cuts ''echo'' 1 ''hello world'' in
      case reply_hdr packets of
        None \<Rightarrow> False
      | Some p \<Rightarrow>
          (case p_header p of
             None \<Rightarrow> False
           | Some h \<Rightarrow> h_message_type h = Reply \<and> h_request_id h = 1 \<and> h_error h = None)
          \<and> concat (map p_body (reply_data_packets (p_msg_no p) packets)) = ''hello world''
          \<and> (\<exists>q \<in> set packets. p_type q = Eof \<and> p_msg_no q = p_msg_no p))"

definition test_error_for_unknown_action ::
  "(json \<Rightarrow> bytes) \<Rightarrow> (bytes \<Rightarrow> json option) \<Rightarrow> (bytes \<Rightarrow> bytes list) \<Rightarrow> bool" where
  "test_error_for_unknown_action enc dec cuts \<longleftrightarrow>
     (case Option.bind (reply_hdr (roundtrip enc dec cuts ''nonexistent'' 1 ''{}'')) p_header of
        None \<Rightarrow> False
      | Some h \<Rightarrow>
          h_message_type h = Reply
          \<and> (case h_error h of None \<Rightarrow> False | Some e \<Rightarrow> find_sub ''No such action'' e \<noteq> None)
          \<and> h_error_code h = Some ''not_found'')"

definition test_empty_body_request ::
  "(json \<Rightarrow> bytes) \<Rightarrow> (bytes \<Rightarrow> json option) \<Rightarrow> (bytes \<Rightarrow> bytes list) \<Rightarrow> bool" where
  "test_empty_body_request enc dec cuts \<longleftrightarrow>
     (let packets = roundtrip enc dec cuts ''echo'' 1 [] in
      case reply_hdr packets of
        None \<Rightarrow> False
      | Some p \<Rightarrow>
          (case p_header p of None \<Rightarrow> False | Some h \<Rightarrow> h_error h = None)
          \<and> length (reply_data_packets (p_msg_no p) packets) = 0)"

definition test_ping :: packet where
  "test_ping = \<lparr>p_type = Ping, p_msg_no = 0, p_header = None, p_body = []\<rparr>"

definition test_ping_pong :: "(json \<Rightarrow> bytes) \<Rightarrow> (bytes \<Rightarrow> json option) \<Rightarrow> (bytes \<Rightarrow> bytes list) \<Rightarrow> bool" where
  "test_ping_pong enc dec cuts \<longleftrightarrow>
     parse_all_packets dec (stream_bytes enc (c_written
       (end_state (handle_connection test_env dec (map Got (cuts (packet_bytes enc test_ping)))))))
     = [pong_packet 0]"

definition test_ack_sent_on_data :: "(json \<Rightarrow> bytes) \<Rightarrow> (bytes \<Rightarrow> json option) \<Rightarrow> (bytes \<Rightarrow> bytes list) \<Rightarrow> bool" where
  "test_ack_sent_on_data enc dec cuts \<longleftrightarrow>
     (case List.find (\<lambda>p. p_type p = Ack \<and> p_msg_no p = 0) (roundtrip enc dec cuts ''echo'' 1 ''hello'') of
        None \<Rightarrow> False
      | Some p \<Rightarrow> parse_uint u64_max (p_body p) = Some 5)"

definition test_multi_chunk_roundtrip ::
  "(json \<Rightarrow> bytes) \<Rightarrow> (bytes \<Rightarrow> json option) \<Rightarrow> (bytes \<Rightarrow> bytes list) \<Rightarrow> bool" where
  "test_multi_chunk_roundtrip enc dec cuts \<longleftrightarrow>
     (let body = replicate 5000 (CHR 0x42); packets = roundtrip enc dec cuts ''echo'' 1 body in
      case reply_hdr packets of
        None \<Rightarrow> False
      | Some p \<Rightarrow>
          (let reply_body = concat (map p_body (reply_data_packets (p_msg_no p) packets)) in
           length reply_body = 5000 \<and> reply_body = body)
          \<and> length (reply_data_packets (p_msg_no p) packets) = 3)"

text \<open>What is relied on of the JSON library: it reads back the two headers of the exchange.\<close>

definition echo_reply :: "string \<Rightarrow> i32 \<Rightarrow> bytes \<Rightarrow> scamp_reply" where
  "echo_reply act version body = reply_to test_env (make_request_header act version 1) body 0"

definition reads_exchange :: "(json \<Rightarrow> bytes) \<Rightarrow> (bytes \<Rightarrow> json option) \<Rightarrow> string \<Rightarrow> i32 \<Rightarrow> bytes \<Rightarrow> bool" where
  "reads_exchange enc dec act version body \<longleftrightarrow>
     header_fits enc dec (make_request_header act version 1)
     \<and> header_fits enc dec (reply_header (echo_reply act version body) 1)"

lemma test_env_reliable [simp]: "reliable test_env" "denial test_env h k = None"
  by (simp_all add: reliable_def test_env_def denial_def)

lemma echo_reply_any: "reply_to test_env h body k = reply_to test_env h body 0"
  by (simp add: reply_to_def test_env_def echo_actions_def)

lemma roundtrip_packets:
  assumes "reads_exchange enc dec act version body" and "read_cuts cuts" and "length body \<le> u64_max"
  shows "roundtrip enc dec cuts act version body
    = acks_for 0 0 (chunks_of DATA_CHUNK_SIZE body)
      @ message_packets 0 (reply_header (echo_reply act version body) 1) (rep_body (echo_reply act version body))"
proof -
  let ?h = "make_request_header act version 1"
  have fits: "header_fits enc dec ?h" "header_fits enc dec (reply_header (echo_reply act version body) 1)"
    using assms(1) by (simp_all add: reads_exchange_def)
  have rid: "h_request_id ?h = 1" by (simp add: make_request_header_def)
  have bytes: "write_request enc 0 act version 1 body = stream_bytes enc (message_packets 0 ?h body)"
    by (simp add: write_request_def stream_bytes_def message_packets_def data_packets_def comp_def)
  have "concat (cuts b) = b" "\<forall>c \<in> set (cuts b). c \<noteq> [] \<and> length c \<le> READ_SIZE" for b
    using assms(2) by (auto simp: read_cuts_def)
  from request_bytes_served [OF test_env_reliable fits(1) this(1) this(2)]
  obtain c k where c: "handle_connection test_env dec (map Got (cuts (write_request enc 0 act version 1 body))) = ReadEnd c"
    "c_written c = acks_for 0 0 (chunks_of DATA_CHUNK_SIZE body) @ reply_packets test_env ?h body k 0"
    unfolding bytes by blast
  have packets: "reply_packets test_env ?h body k 0
      = message_packets 0 (reply_header (echo_reply act version body) 1) (rep_body (echo_reply act version body))"
    unfolding reply_packets_def echo_reply_def rid by (subst (1 2) echo_reply_any) (rule refl)
  have "\<forall>p \<in> set (c_written c). sendable enc dec p"
    using acks_receivable [of 0 "chunks_of DATA_CHUNK_SIZE body" 0 enc dec] message_receivable [OF fits(2)] assms(3)
    unfolding c(2) packets receivable_def by auto
  from parse_all_written [OF this] show ?thesis
    by (simp add: roundtrip_def c(1) c(2) packets)
qed

lemma reply_found:
  "reply_hdr (acks_for no n bs @ message_packets no' h body) = Some (header_packet no' h)"
  by (induction bs arbitrary: n) (simp_all add: reply_hdr_def message_packets_def)

lemma reply_data_found:
  "reply_data_packets no' (acks_for no n bs @ message_packets no' h body) = data_packets no' body"
proof (induction bs arbitrary: n)
  case Nil
  have "filter (\<lambda>p. p_type p = Data \<and> p_msg_no p = no') (data_packets no' body) = data_packets no' body"
    by (rule filter_True) (auto simp: data_packets_def)
  then show ?case by (simp add: reply_data_packets_def message_packets_def)
qed (simp add: reply_data_packets_def)

lemma data_packets_body: "concat (map p_body (data_packets no body)) = body"
  by (simp add: data_packets_def comp_def DATA_CHUNK_SIZE_def)

lemma small_one: "dec_of_nat (Suc 0) = ''1''" and small_five: "dec_of_nat (Suc (Suc (Suc (Suc (Suc 0))))) = ''5''"
  by code_simp+

lemma echo_replies:
  "echo_reply ''echo'' 1 body = reply_ok body"
  "echo_reply ''nonexistent'' 1 body = reply_error (''No such action: '' @ ''nonexistent.v1'') ''not_found''"
proof -
  have "action_key (make_request_header ''echo'' 1 1) = ''echo.v1''"
    "action_key (make_request_header ''nonexistent'' 1 1) = ''nonexistent.v1''"
    by (simp_all add: action_key_def make_request_header_def dec_of_int_def small_one to_lowercase_def lower_char_def)
  then show "echo_reply ''echo'' 1 body = reply_ok body"
    "echo_reply ''nonexistent'' 1 body = reply_error (''No such action: '' @ ''nonexistent.v1'') ''not_found''"
    by (simp_all add: echo_reply_def reply_to_def test_env_def echo_actions_def request_of_def)
qed

lemma echo_tests:
  assumes "read_cuts cuts"
  shows "reads_exchange enc dec ''echo'' 1 ''hello world'' \<Longrightarrow> test_echo_roundtrip enc dec cuts"
    and "reads_exchange enc dec ''echo'' 1 [] \<Longrightarrow> test_empty_body_request enc dec cuts"
    and "reads_exchange enc dec ''echo'' 1 ''hello'' \<Longrightarrow> test_ack_sent_on_data enc dec cuts"
    and "reads_exchange enc dec ''nonexistent'' 1 ''{}'' \<Longrightarrow> test_error_for_unknown_action enc dec cuts"
proof -
  note found = reply_found reply_data_found data_packets_body echo_replies reply_ok_def reply_error_def reply_header_def
  note trip = roundtrip_packets [OF _ assms]
  have small: "length ''hello world'' \<le> u64_max" "length ([] :: bytes) \<le> u64_max" "length ''hello'' \<le> u64_max"
    "length ''{}'' \<le> u64_max" by (simp_all add: u64_max_def)
  show "test_echo_roundtrip enc dec cuts" if "reads_exchange enc dec ''echo'' 1 ''hello world''"
    unfolding test_echo_roundtrip_def Let_def trip [OF that small(1)]
    by (simp add: found) (simp add: message_packets_def)
  show "test_empty_body_request enc dec cuts" if "reads_exchange enc dec ''echo'' 1 []"
    unfolding test_empty_body_request_def Let_def trip [OF that small(2)]
    by (simp add: found reply_found [where bs = "[]", simplified] reply_data_found [where bs = "[]", simplified])
  show "test_ack_sent_on_data enc dec cuts" if "reads_exchange enc dec ''echo'' 1 ''hello''"
    unfolding test_ack_sent_on_data_def trip [OF that small(3)]
    by (simp add: small_chunks small_five parse_uint_def is_digit_def u64_max_def)
  have "find_sub ''No such action'' (''No such action: '' @ ''nonexistent.v1'') \<noteq> None" by code_simp
  then show "test_error_for_unknown_action enc dec cuts" if "reads_exchange enc dec ''nonexistent'' 1 ''{}''"
    unfolding test_error_for_unknown_action_def trip [OF that small(4)] by (simp add: found)
qed

lemma multi_chunk_test:
  assumes "read_cuts cuts" and "reads_exchange enc dec ''echo'' 1 (replicate 5000 (CHR 0x42))"
  shows "test_multi_chunk_roundtrip enc dec cuts"
proof -
  let ?body = "replicate 5000 (CHR 0x42)"
  have "length ?body \<le> u64_max" by (simp add: u64_max_def)
  note trip = roundtrip_packets [OF assms(2,1) this]
  have "length (data_packets 0 ?body) = 3"
    by (simp add: data_packets_def DATA_CHUNK_SIZE_def chunks_of_step)
  then show ?thesis
    unfolding test_multi_chunk_roundtrip_def Let_def trip
    by (simp add: reply_found reply_data_found data_packets_body echo_replies reply_ok_def)
qed


lemma ping_test:
  assumes "read_cuts cuts"
  shows "test_ping_pong enc dec cuts"
proof -
  have r: "receivable enc dec p" if "p_type p \<in> {Ping, Pong}" "p_header p = None" "p_body p = []" for p
    using that by (intro receivable_plain) auto
  have ping: "receivable enc dec test_ping" "receivable enc dec (pong_packet 0)"
    by (rule r; simp add: test_ping_def)+
  let ?reads = "cuts (packet_bytes enc test_ping)"
  have cuts: "concat ?reads = stream_bytes enc [test_ping]" "\<forall>c \<in> set ?reads. c \<noteq> [] \<and> length c \<le> READ_SIZE"
    using assms by (auto simp: read_cuts_def)
  have "handle_connection test_env dec (map Got ?reads) = read_loop dec (server_route test_env) [] conn_init ?reads"
    using cuts(2) by (simp add: handle_connection_def serve_reads)
  also have "\<dots> = (case route_all (server_route test_env) [test_ping] conn_init of
      (ok, s') \<Rightarrow> if ok then ReadEnd s' else Closed s')"
    by (rule read_loop_stream [OF cuts(1)]) (use ping cuts(2) in auto)
  finally have "c_written (end_state (handle_connection test_env dec (map Got ?reads))) = [pong_packet 0]"
    by (simp add: test_ping_def server_route_def conn_init_def pong_packet_def)
  then show ?thesis
    using parse_all_written [of "[pong_packet 0]" enc dec] ping(2)
    by (simp add: test_ping_pong_def receivable_def)
qed

subsection \<open>Client against service (client/connection_tests.rs)\<close>

definition test_call :: "string \<Rightarrow> bytes \<Rightarrow> request_args" where
  "test_call act body =
     \<lparr>rq_action = act, rq_version = 1, rq_envelope = Json, rq_ticket = [], rq_client_id = 0, rq_body = body\<rparr>"

definition test_client_echo :: "(json \<Rightarrow> bytes) \<Rightarrow> (bytes \<Rightarrow> json option) \<Rightarrow> (bytes \<Rightarrow> bytes list) \<Rightarrow> bool" where
  "test_client_echo enc dec cuts \<longleftrightarrow>
     (case exchange enc dec cuts test_env (test_call ''echo'' ''hello from client'') of
        Inr resp \<Rightarrow> rs_error resp = None \<and> rs_body resp = ''hello from client''
          \<and> h_message_type (rs_header resp) = Reply \<and> h_request_id (rs_header resp) = 1
      | Inl e \<Rightarrow> False)"

definition test_client_unknown_action_error ::
  "(json \<Rightarrow> bytes) \<Rightarrow> (bytes \<Rightarrow> json option) \<Rightarrow> (bytes \<Rightarrow> bytes list) \<Rightarrow> bool" where
  "test_client_unknown_action_error enc dec cuts \<longleftrightarrow>
     (case exchange enc dec cuts test_env (test_call ''nonexistent'' ''{}'') of
        Inr resp \<Rightarrow>
          (case h_error (rs_header resp) of None \<Rightarrow> False | Some e \<Rightarrow> find_sub ''No such action'' e \<noteq> None)
          \<and> h_error_code (rs_header resp) = Some ''not_found''
      | Inl e \<Rightarrow> False)"

definition test_client_large_body :: "(json \<Rightarrow> bytes) \<Rightarrow> (bytes \<Rightarrow> json option) \<Rightarrow> (bytes \<Rightarrow> bytes list) \<Rightarrow> bool" where
  "test_client_large_body enc dec cuts \<longleftrightarrow>
     (let body = replicate 5000 (CHR 0xAB) in
      case exchange enc dec cuts test_env (test_call ''echo'' body) of
        Inr resp \<Rightarrow> rs_error resp = None \<and> length (rs_body resp) = 5000 \<and> rs_body resp = body
      | Inl e \<Rightarrow> False)"

definition reads_call :: "(json \<Rightarrow> bytes) \<Rightarrow> (bytes \<Rightarrow> json option) \<Rightarrow> request_args \<Rightarrow> bool" where
  "reads_call enc dec a \<longleftrightarrow>
     header_fits enc dec (first_header a)
     \<and> header_fits enc dec (reply_header (reply_to test_env (first_header a) (rq_body a) 0) 1)"

lemma echo_exchange:
  assumes "reads_call enc dec (test_call act body)" and "length body \<le> u64_max" and "read_cuts cuts"
  shows "exchange enc dec cuts test_env (test_call act body)
    = Inr (response_to test_env (first_header (test_call act body)) body 0)"
proof -
  let ?a = "test_call act body"
  have body: "rq_body ?a = body" by (simp add: test_call_def)
  have fits: "header_fits enc dec (first_header ?a)"
    "header_fits enc dec (reply_header (reply_to test_env (first_header ?a) (rq_body ?a) k) 1)" for k
    using assms(1) echo_reply_any [of "first_header ?a" "rq_body ?a" k] by (simp_all add: reads_call_def)
  obtain k where "exchange enc dec cuts test_env ?a = Inr (response_to test_env (first_header ?a) (rq_body ?a) k)"
    using exchange_reply [OF test_env_reliable fits _ assms(3)] assms(2) body by metis
  then show ?thesis
    using echo_reply_any [of "first_header ?a" body k] by (simp add: response_to_def body)
qed

lemma call_keys:
  "action_key (first_header (test_call ''echo'' body)) = ''echo.v1''"
  "action_key (first_header (test_call ''nonexistent'' body)) = ''nonexistent.v1''"
  by (simp_all add: action_key_def first_header_def request_header_def lone_task_def test_call_def Let_def
      dec_of_int_def small_one to_lowercase_def lower_char_def)

lemma client_tests:
  assumes "read_cuts cuts"
  shows "reads_call enc dec (test_call ''echo'' ''hello from client'') \<Longrightarrow> test_client_echo enc dec cuts"
    and "reads_call enc dec (test_call ''nonexistent'' ''{}'') \<Longrightarrow> test_client_unknown_action_error enc dec cuts"
    and "reads_call enc dec (test_call ''echo'' (replicate 5000 (CHR 0xAB))) \<Longrightarrow> test_client_large_body enc dec cuts"
proof -
  note reply = response_to_def reply_to_def call_keys test_env_def echo_actions_def request_of_def
    reply_header_def reply_ok_def reply_error_def
  have small: "length ''hello from client'' \<le> u64_max" "length ''{}'' \<le> u64_max"
    "length (replicate 5000 (CHR 0xAB)) \<le> u64_max" by (simp_all add: u64_max_def)
  show "test_client_echo enc dec cuts" if "reads_call enc dec (test_call ''echo'' ''hello from client'')"
    unfolding test_client_echo_def echo_exchange [OF that small(1) assms] by (simp add: reply)
  have "find_sub ''No such action'' (''No such action: '' @ ''nonexistent.v1'') \<noteq> None" by code_simp
  then show "test_client_unknown_action_error enc dec cuts" if "reads_call enc dec (test_call ''nonexistent'' ''{}'')"
    unfolding test_client_unknown_action_error_def echo_exchange [OF that small(2) assms] by (simp add: reply)
  show "test_client_large_body enc dec cuts" if "reads_call enc dec (test_call ''echo'' (replicate 5000 (CHR 0xAB)))"
    unfolding test_client_large_body_def Let_def echo_exchange [OF that small(3) assms] by (simp add: reply)
qed

text \<open>
  The timeout against a service that never answers: the call runs until it waits (ten steps of
  its task), nothing is read, the timer fires, the call runs on.
\<close>

definition timer_fires :: "nat \<Rightarrow> connection \<Rightarrow> connection" where
  "timer_fires t s =
     (case cn_tasks s t of
        Some tk \<Rightarrow>
          if t_pc tk = Await \<and> cl_answers (cn_client s) t = None
          then s\<lparr>cn_tasks := (cn_tasks s)(t \<mapsto> tk\<lparr>t_pc := TimedOut\<rparr>)\<rparr> else s
      | None \<Rightarrow> s)"

definition waiting_call :: connection where
  "waiting_call = fold run_task (replicate 10 0) (call 0 (test_call ''echo'' ''{}'') connection_init)"

definition test_client_request_timeout :: bool where
  "test_client_request_timeout \<longleftrightarrow>
     (case cn_tasks (fold run_task [0, 0] (timer_fires 0 waiting_call)) 0 of
        Some tk \<Rightarrow>
          (case t_pc tk of
             Done (Failed e) \<Rightarrow> find_sub ''timed out'' (send_error_text ''100ms'' e) \<noteq> None
           | _ \<Rightarrow> False)
      | None \<Rightarrow> False)"

lemma waiting_call_state:
  "waiting_call = lone (test_call ''echo'' ''{}'') Await 2 (request_packets (lone_task (test_call ''echo'' ''{}'') Await))"
proof -
  let ?a = "test_call ''echo'' ''{}''"
  have body: "rq_body ?a = ''{}''" by (simp add: test_call_def)
  have "replicate 10 0 = [0, 0, 0, 0, 0, 0] @ [0, 0, 0] @ [0 :: nat]" by (simp add: numeral_eq_Suc)
  moreover have "loop_pc (lone_task ?a SendHeader) 0 = FlowCheck 0" by (simp add: lone_loop_pc body)
  moreover have "fold run_task [0, 0, 0] (lone ?a (FlowCheck 0) 0 (lone_sent ?a 0)) = lone ?a SendEof 2 (lone_sent ?a 2)"
    using lone_chunk [of ?a 0] by (simp add: at_chunk_def lone_task_def body chunk_end_def DATA_CHUNK_SIZE_def loop_pc_def Let_def numeral_2_eq_2)
  moreover have "fold run_task [0] (lone ?a SendEof 2 (lone_sent ?a 2))
      = lone ?a Await 2 (request_packets (lone_task ?a Await))"
    using length_lone_sent [of 2 ?a] sent_upto_all [of "lone_task ?a Await"]
    by (simp add: lone_def lone_task_def client_init_def run_simps lone_sent_def body numeral_2_eq_2)
  ultimately show ?thesis unfolding waiting_call_def by (simp only: fold_append comp_apply lone_start)
qed

lemma timer_step: "timer_fires t s = s \<or> client_step s (timer_fires t s)"
  by (auto simp: timer_fires_def split: option.split intro: client_step.time_out)

lemma client_timeout_test: test_client_request_timeout
proof -
  have "find_sub ''timed out'' (send_error_text ''100ms'' RequestTimedOut) \<noteq> None" by code_simp
  then show ?thesis
    unfolding test_client_request_timeout_def waiting_call_state
    by (simp add: timer_fires_def lone_def lone_task_def client_init_def run_simps)
qed

text \<open>The reliance on the JSON library can be met, by the printer and reader of two texts.\<close>

lemma exchange_readable:
  "reads_exchange (pair_enc (make_request_header act version 1))
      (pair_dec (make_request_header act version 1) (reply_header (echo_reply act version body) 1)) act version body"
proof -
  have "rep_error_data (echo_reply act version body) = None"
    by (auto simp: echo_reply_def reply_to_def test_env_def echo_actions_def reply_ok_def reply_error_def)
  then have "canonical_header (make_request_header act version 1)"
    "canonical_header (reply_header (echo_reply act version body) 1)"
    "make_request_header act version 1 \<noteq> reply_header (echo_reply act version body) 1"
    by (simp_all add: canonical_header_def make_request_header_def default_header_def reply_header_def)
  from pair_fits [OF this] show ?thesis by (simp add: reads_exchange_def)
qed

lemma echo_test_holds:
  "test_echo_roundtrip (pair_enc (make_request_header ''echo'' 1 1))
     (pair_dec (make_request_header ''echo'' 1 1) (reply_header (echo_reply ''echo'' 1 ''hello world'') 1)) byte_cuts"
  by (rule echo_tests(1) [OF byte_cuts exchange_readable])

end
