(* ===== verification/Macro_Tests.thy ===== *)
theory Macro_Tests
  imports Rpc_Support
begin

text \<open>
  The test of the macro and of discovery, \<open>scamp/tests/rpc_macro_test.rs\<close>: six handlers of different return
  types, found in any order, are registered under the names, versions and flags of their attributes.
\<close>

subsection \<open>The handlers of the test\<close>

text \<open>The state is the greeting; \<open>to_vec\<close> prints JSON; \<open>module_path\<close> is not used, each has its namespace.\<close>

definition macro_health_check :: "nat \<Rightarrow> request_context \<Rightarrow> handler_value" where
  "macro_health_check k ctx = ReplyValue (reply_ok ''ok'')"

definition macro_version :: "string \<Rightarrow> nat \<Rightarrow> request_context \<Rightarrow> handler_value" where
  "macro_version greeting k ctx = TextValue greeting"

definition macro_fetch :: "nat \<Rightarrow> request_context \<Rightarrow> handler_value" where
  "macro_fetch k ctx = BytesValue (rc_body ctx)"

definition macro_track :: "nat \<Rightarrow> request_context \<Rightarrow> handler_value" where
  "macro_track k ctx =
     (if rc_body ctx = [] then ErrValue ''tracking number required'' else OkValue (BytesValue (rc_body ctx)))"

definition macro_info :: "(json \<Rightarrow> string + bytes) \<Rightarrow> string \<Rightarrow> nat \<Rightarrow> request_context \<Rightarrow> handler_value" where
  "macro_info to_vec greeting k ctx = JsonValue (to_vec (JObj [(''greeting'', JStr greeting)]))"

definition macro_process :: "nat \<Rightarrow> request_context \<Rightarrow> handler_value" where
  "macro_process k ctx = TextValue ''processed''"

definition namespace_meta :: "string \<Rightarrow> rpc_meta" where
  "namespace_meta ns = MetaNameValue (Some ''namespace'') (LitStr ns)"

definition macro_registrations :: "string \<Rightarrow> (json \<Rightarrow> string + bytes) \<Rightarrow> string \<Rightarrow> rpc_registration list" where
  "macro_registrations module_path to_vec greeting =
     [rpc_attribute module_path ''health_check'' [MetaPath (Some ''noauth''), namespace_meta ''API.Status''] macro_health_check,
      rpc_attribute module_path ''version'' [namespace_meta ''API.Status''] (macro_version greeting),
      rpc_attribute module_path ''fetch'' [MetaPath (Some ''read''), namespace_meta ''Constant.Ship.Carrier''] macro_fetch,
      rpc_attribute module_path ''track''
        [MetaNameValue (Some ''version'') (LitInt (Some 2)), MetaNameValue (Some ''timeout'') (LitInt (Some 600)),
         namespace_meta ''Order.Shipment''] macro_track,
      rpc_attribute module_path ''info'' [MetaPath (Some ''noauth''), namespace_meta ''API.Status''] (macro_info to_vec greeting),
      rpc_attribute module_path ''process''
        [MetaPath (Some ''noauth''), MetaNameValue (Some ''sector'') (LitStr ''background''),
         namespace_meta ''Background.Worker''] macro_process]"

subsection \<open>The test\<close>

text \<open>\<open>found\<close> is the order in which \<open>inventory\<close> gives the registrations.\<close>

definition test_auto_discover_registers_actions :: "string \<Rightarrow> rpc_registration list \<Rightarrow> bool" where
  "test_auto_discover_registers_actions rand_text found \<longleftrightarrow>
     (let actions = actions_snapshot (auto_discover_into found (service_new rand_text ''TestService'' ''main''));
          names = map (\<lambda>a. ai_name a @ ''.v'' @ dec_of_int (sint (ai_version a))) actions
      in list_all (\<lambda>n. n \<in> set names)
           [''API.Status.healthCheck.v1'', ''API.Status.version.v1'', ''API.Status.info.v1'',
            ''Constant.Ship.Carrier.fetch.v1'', ''Order.Shipment.track.v2'', ''Background.Worker.process.v1'']
         \<and> (case List.find (\<lambda>a. ai_name a = ''API.Status.healthCheck'') actions of
              Some a \<Rightarrow> ''noauth'' \<in> set (ai_flags a) | None \<Rightarrow> False)
         \<and> (case List.find (\<lambda>a. ai_name a = ''Constant.Ship.Carrier.fetch'') actions of
              Some a \<Rightarrow> ''read'' \<in> set (ai_flags a) | None \<Rightarrow> False)
         \<and> (case List.find (\<lambda>a. ai_name a = ''Order.Shipment.track'') actions of
              Some a \<Rightarrow> ai_version a = 2 \<and> ''t600'' \<in> set (ai_flags a) | None \<Rightarrow> False))"

lemma macro_names:
  "map (\<lambda>r. (registration_path r, rr_version r, rr_flags r)) (macro_registrations m to_vec greeting) =
     [(''API.Status.healthCheck'', 1, [''noauth'']), (''API.Status.version'', 1, []),
      (''Constant.Ship.Carrier.fetch'', 1, [''read'']), (''Order.Shipment.track'', 2, [''t600'']),
      (''API.Status.info'', 1, [''noauth'']), (''Background.Worker.process'', 1, [''noauth''])]"
  by code_simp


subsection \<open>The snapshot is the list of what was found\<close>

lemma update_absent: "k \<notin> fst ` set al \<Longrightarrow> AList.update k v al = al @ [(k, v)]"
  by (induction al) auto

definition info_of_registration :: "rpc_registration \<Rightarrow> action_info" where
  "info_of_registration reg =
     \<lparr>ai_name = registration_path reg, ai_version = ucast (rr_version reg), ai_flags = rr_flags reg\<rparr>"

lemma discovered_actions:
  assumes "distinct (map key_of_registration regs)" and "sv_actions s = []"
  shows "map (\<lambda>(key, ra). (key, action_info_of ra)) (sv_actions (auto_discover_into regs s))
    = map (\<lambda>reg. (key_of_registration reg, info_of_registration reg)) regs"
  using assms(1)
proof (induction regs rule: rev_induct)
  case (snoc reg regs)
  let ?s = "auto_discover_into regs s"
  have ih: "map (\<lambda>(key, ra). (key, action_info_of ra)) (sv_actions ?s)
      = map (\<lambda>reg. (key_of_registration reg, info_of_registration reg)) regs"
    using snoc by simp
  have "map fst (sv_actions ?s) = map fst (map (\<lambda>(key, ra). (key, action_info_of ra)) (sv_actions ?s))"
    by (simp add: case_prod_beta comp_def)
  then have "fst ` set (sv_actions ?s) = set (map key_of_registration regs)"
    unfolding ih by (metis (no_types, lifting) comp_def fst_conv list.set_map map_map map_eq_conv)
  then have "key_of_registration reg \<notin> fst ` set (sv_actions ?s)" using snoc.prems by simp
  moreover have "auto_discover_into (regs @ [reg]) s = register_discovered ?s reg"
    by (simp add: auto_discover_into_def)
  ultimately show ?case
    using ih by (simp add: register_discovered_def register_with_flags_def key_of_registration_def update_absent
        action_info_of_def info_of_registration_def)
qed (simp add: auto_discover_into_def assms(2))

lemma discovered_snapshot:
  assumes "distinct (map key_of_registration regs)" and "sv_actions s = []"
  shows "actions_snapshot (auto_discover_into regs s) = map info_of_registration regs"
  using arg_cong [OF discovered_actions [OF assms], of "map snd"]
  by (simp add: actions_snapshot_def split_def comp_def)

lemma macro_keys: "distinct (map key_of_registration (macro_registrations m to_vec greeting))"
proof -
  let ?rs = "macro_registrations m to_vec greeting"
  have "map key_of_registration ?rs
      = map (\<lambda>(p, v, f). registration_key p (ucast v)) (map (\<lambda>r. (registration_path r, rr_version r, rr_flags r)) ?rs)"
    by (simp add: key_of_registration_def)
  also have "distinct \<dots>" unfolding macro_names by code_simp
  finally show ?thesis .
qed

definition macro_infos :: "action_info list" where
  "macro_infos =
     [\<lparr>ai_name = ''API.Status.healthCheck'', ai_version = 1, ai_flags = [''noauth'']\<rparr>,
      \<lparr>ai_name = ''API.Status.version'', ai_version = 1, ai_flags = []\<rparr>,
      \<lparr>ai_name = ''Constant.Ship.Carrier.fetch'', ai_version = 1, ai_flags = [''read'']\<rparr>,
      \<lparr>ai_name = ''Order.Shipment.track'', ai_version = 2, ai_flags = [''t600'']\<rparr>,
      \<lparr>ai_name = ''API.Status.info'', ai_version = 1, ai_flags = [''noauth'']\<rparr>,
      \<lparr>ai_name = ''Background.Worker.process'', ai_version = 1, ai_flags = [''noauth'']\<rparr>]"

lemma macro_snapshot: "map info_of_registration (macro_registrations m to_vec greeting) = macro_infos"
proof -
  let ?rs = "macro_registrations m to_vec greeting"
  have "map info_of_registration ?rs
      = map (\<lambda>(p, v, f). \<lparr>ai_name = p, ai_version = ucast v, ai_flags = f\<rparr>)
          (map (\<lambda>r. (registration_path r, rr_version r, rr_flags r)) ?rs)"
    by (simp add: info_of_registration_def)
  also have "\<dots> = macro_infos" unfolding macro_names by (simp add: macro_infos_def)
  finally show ?thesis .
qed

lemma macro_test:
  assumes "mset found = mset (macro_registrations m to_vec greeting)"
  shows "test_auto_discover_registers_actions rand_text found"
proof -
  have "distinct (map key_of_registration found)"
    using macro_keys assms by (metis mset_eq_imp_distinct_iff mset_map)
  from discovered_snapshot [OF this]
  have snap: "actions_snapshot (auto_discover_into found (service_new rand_text ''TestService'' ''main''))
      = map info_of_registration found" by (simp add: service_new_def)
  have same: "mset (map info_of_registration found) = mset macro_infos"
    using assms macro_snapshot by (metis mset_map)
  have names: "distinct (map ai_name macro_infos)" by code_simp
  have find: "List.find (\<lambda>a. ai_name a = n) (map info_of_registration found) = List.find (\<lambda>a. ai_name a = n) macro_infos" for n
    using find_key_permuted [OF names same [symmetric]] by simp
  have set: "set (map info_of_registration found) = set macro_infos" using same by (metis set_mset_mset)
  have texts: "map (\<lambda>a. ai_name a @ ''.v'' @ dec_of_int (sint (ai_version a))) macro_infos
      = [''API.Status.healthCheck.v1'', ''API.Status.version.v1'', ''Constant.Ship.Carrier.fetch.v1'',
         ''Order.Shipment.track.v2'', ''API.Status.info.v1'', ''Background.Worker.process.v1'']"
    by code_simp
  have found_names: "set (map (\<lambda>a. ai_name a @ ''.v'' @ dec_of_int (sint (ai_version a))) (map info_of_registration found))
      = set [''API.Status.healthCheck.v1'', ''API.Status.version.v1'', ''Constant.Ship.Carrier.fetch.v1'',
         ''Order.Shipment.track.v2'', ''API.Status.info.v1'', ''Background.Worker.process.v1'']"
    unfolding texts [symmetric] using set by (simp only: list.set_map)
  show ?thesis
    unfolding test_auto_discover_registers_actions_def Let_def snap found_names find
    by (simp add: macro_infos_def)
qed

text \<open>The replies of the handlers, by the type each returns.\<close>

lemma macro_replies:
  "into_scamp_reply (macro_health_check k ctx) = reply_ok ''ok''"
  "into_scamp_reply (macro_version greeting k ctx) = reply_ok greeting"
  "into_scamp_reply (macro_track k ctx)
     = (if rc_body ctx = [] then reply_error ''tracking number required'' ''error'' else reply_ok (rc_body ctx))"
  "to_vec (JObj [(''greeting'', JStr greeting)]) = Inr b \<Longrightarrow> into_scamp_reply (macro_info to_vec greeting k ctx) = reply_ok b"
  by (simp_all add: macro_health_check_def macro_version_def macro_track_def macro_info_def)

end
