(* ===== verification/Discovery_Tests.thy ===== *)
theory Discovery_Tests
  imports Full_Stack Unit_Tests Network_Setup
begin

text \<open>
  The unit tests of discovery beside the code (discovery/packet.rs, discovery/cache_file.rs,
  discovery/service_info/tests.rs, discovery/observer.rs, service/announce.rs, service/multicast.rs, and those
  of crypto.rs and auth/authorized_services.rs that read the files of a developer machine).  The files a
  test reads, parsers and cryptographic functions are arguments of its definition.

  The lemmas say when each test passes: for any announcement this code builds, for a cache that holds what a
  service announces, for files with the lines the test asks for.  That every parsed action agrees with its
  combined path and version holds for every text.
\<close>

subsection \<open>Announcement packets (discovery/packet.rs)\<close>

definition is_ascii_uppercase :: "char \<Rightarrow> bool" where
  "is_ascii_uppercase c \<longleftrightarrow> 65 \<le> byte_val c \<and> byte_val c \<le> 90"

definition is_ascii_alphabetic :: "char \<Rightarrow> bool" where
  "is_ascii_alphabetic c \<longleftrightarrow> is_ascii_uppercase c \<or> (97 \<le> byte_val c \<and> byte_val c \<le> 122)"

definition single_announcement_parses :: "(string \<Rightarrow> ('e, announcement_packet) outcome) \<Rightarrow> string \<Rightarrow> bool" where
  "single_announcement_parses parse sample \<longleftrightarrow>
     (case parse sample of
        Ret announcement \<Rightarrow>
          si_identity (ab_info (pk_body announcement)) \<noteq> []
          \<and> pk_certificate announcement \<noteq> [] \<and> pk_signature announcement \<noteq> []
      | _ \<Rightarrow> False)"

definition single_announcement_has_fingerprint ::
  "(string \<Rightarrow> ('e, announcement_packet) outcome) \<Rightarrow> string \<Rightarrow> bool" where
  "single_announcement_has_fingerprint parse sample \<longleftrightarrow>
     (case parse sample of
        Ret announcement \<Rightarrow>
          (case si_fingerprint (ab_info (pk_body announcement)) of
             None \<Rightarrow> False
           | Some fp \<Rightarrow> CHR '':'' \<in> set fp
               \<and> (\<forall>c \<in> set (filter is_ascii_alphabetic fp). is_ascii_uppercase c))
      | _ \<Rightarrow> False)"

text \<open>\<open>str::replacen\<close> with a pattern that is not empty.\<close>

fun replacen :: "string \<Rightarrow> string \<Rightarrow> nat \<Rightarrow> string \<Rightarrow> string" where
  "replacen p q 0 s = s"
| "replacen p q (Suc n) s =
     (case find_sub p s of
        None \<Rightarrow> s
      | Some i \<Rightarrow> take i s @ q @ replacen p q n (drop (i + length p) s))"

definition valid_item ::
  "(string \<Rightarrow> bytes \<Rightarrow> string \<Rightarrow> crypto_error + bool) \<Rightarrow> ('e, announcement_packet) outcome \<Rightarrow> bool" where
  "valid_item verify item = (case item of Ret ann \<Rightarrow> signature_is_valid verify ann | _ \<Rightarrow> False)"

definition test_verify_live_signature_and_tamper ::
  "(string \<Rightarrow> ('e, announcement_packet) outcome) \<Rightarrow> (string \<Rightarrow> bytes \<Rightarrow> string \<Rightarrow> crypto_error + bool)
   \<Rightarrow> (cache_error, announcement_packet) outcome list \<Rightarrow> bool" where
  "test_verify_live_signature_and_tamper parse verify items \<longleftrightarrow>
     (case find (valid_item verify) items of
        Some (Ret ann) \<Rightarrow>
          (let raw = pk_json_blob ann @ blank_line @ pk_certificate ann @ blank_line @ pk_signature ann;
               tampered = replacen ''main'' ''TAMPERED'' 1 raw
           in case parse tampered of
                Ret tampered_ann \<Rightarrow> \<not> signature_is_valid verify tampered_ann
              | _ \<Rightarrow> False)
      | _ \<Rightarrow> False)"

text \<open>The counters \<open>total\<close>, \<open>verified\<close> and \<open>parse_errors\<close>; a panic of the parser ends the test.\<close>

fun count_items ::
  "(string \<Rightarrow> bytes \<Rightarrow> string \<Rightarrow> crypto_error + bool) \<Rightarrow> nat \<times> nat \<times> nat
   \<Rightarrow> (cache_error, announcement_packet) outcome list \<Rightarrow> (nat \<times> nat \<times> nat) option" where
  "count_items verify counts [] = Some counts"
| "count_items verify (n, ok, errors) (item # items) =
     (case item of
        Ret announcement \<Rightarrow>
          count_items verify
            (n + 1, if signature_is_valid verify announcement then ok + 1 else ok, errors) items
      | Err e \<Rightarrow> count_items verify (n + 1, ok, errors + 1) items
      | Panic \<Rightarrow> None)"

definition test_verify_real_cache_signatures ::
  "(string \<Rightarrow> bytes \<Rightarrow> string \<Rightarrow> crypto_error + bool) \<Rightarrow> (cache_error, announcement_packet) outcome list \<Rightarrow> bool" where
  "test_verify_real_cache_signatures verify items \<longleftrightarrow>
     (case count_items verify (0, 0, 0) items of
        None \<Rightarrow> False
      | Some (n, ok, errors) \<Rightarrow> ok > 0 \<and> ok = n - errors)"

lemma parsed_fingerprint:
  assumes "packet_of_text parse_body fingerprint v = Ret p" and "fingerprint (pk_certificate p) = Some fp"
  shows "si_fingerprint (ab_info (pk_body p)) = Some fp"
  using assms by (auto simp: packet_of_text_def Let_def bind_outcome_eq_Ret split: if_splits)

lemma sample_has_fingerprint:
  assumes "announcement_parser digits_re dec b64_decode sha1 sample = Ret p"
    and "pem_to_der b64_decode (pk_certificate p) = Some der" and "length (sha1 der) = 20"
  shows "single_announcement_has_fingerprint (announcement_parser digits_re dec b64_decode sha1) sample"
proof -
  let ?hs = "map hex_byte (sha1 der)"
  have fp: "si_fingerprint (ab_info (pk_body p)) = Some (join '':'' ?hs)"
    using parsed_fingerprint [OF assms(1) [unfolded announcement_parser_def]] assms(2)
    by (simp add: cert_pem_fingerprint_def cert_sha1_fingerprint_def)
  obtain x y ys where "?hs = x # y # ys" using two_elements [of ?hs] assms(3) by auto
  then have colon: "CHR '':'' \<in> set (join '':'' ?hs)" by simp
  have "\<forall>c \<in> set (join '':'' ?hs). upper_hex c \<or> c = CHR '':''"
    using set_join [of "CHR '':''" ?hs] hex_byte_upper by fastforce
  then have "\<forall>c \<in> set (filter is_ascii_alphabetic (join '':'' ?hs)). is_ascii_uppercase c"
    by (auto simp: is_ascii_alphabetic_def is_ascii_uppercase_def upper_hex_def is_digit_def)
  with colon fp assms(1) show ?thesis by (simp add: single_announcement_has_fingerprint_def)
qed

lemma count_items_exact:
  "Panic \<notin> set items \<Longrightarrow> count_items verify (t, v, e) items
     = Some (t + length items, v + length (filter (valid_item verify) items), e + length (filter is_err items))"
proof (induction items arbitrary: t v e)
  case (Cons item items)
  then show ?case by (cases item) (auto simp: valid_item_def is_err_def)
qed simp

lemma item_partition:
  "Panic \<notin> set items \<Longrightarrow>
     length items = length (filter (valid_item verify) items) + length (filter is_err items)
       + length (filter (\<lambda>i. case i of Ret ann \<Rightarrow> \<not> signature_is_valid verify ann | _ \<Rightarrow> False) items)"
proof (induction items)
  case (Cons item items)
  then show ?case by (cases item) (auto simp: valid_item_def is_err_def)
qed simp

text \<open>The test passes exactly when some announcement of the cache verifies and none fails to.\<close>

lemma real_cache_test:
  assumes "Panic \<notin> set items"
  shows "test_verify_real_cache_signatures verify items
    \<longleftrightarrow> (\<exists>i \<in> set items. valid_item verify i) \<and> (\<forall>ann. Ret ann \<in> set items \<longrightarrow> signature_is_valid verify ann)"
proof -
  let ?bad = "\<lambda>i. case i of Ret ann \<Rightarrow> \<not> signature_is_valid verify ann | _ \<Rightarrow> False"
  have "test_verify_real_cache_signatures verify items
      \<longleftrightarrow> filter (valid_item verify) items \<noteq> [] \<and> length (filter ?bad items) = 0"
    using item_partition [OF assms, of verify]
    by (auto simp: test_verify_real_cache_signatures_def count_items_exact [OF assms])
  also have "filter (valid_item verify) items \<noteq> [] \<longleftrightarrow> (\<exists>i \<in> set items. valid_item verify i)"
    by (auto simp: filter_empty_conv)
  also have "length (filter ?bad items) = 0 \<longleftrightarrow> (\<forall>ann. Ret ann \<in> set items \<longrightarrow> signature_is_valid verify ann)"
    by (auto simp: filter_empty_conv split: outcome.splits)
  finally show ?thesis .
qed

lemma replacen_once:
  assumes "find_sub p s = Some i"
  shows "replacen p q 1 (s @ t) = replacen p q 1 s @ t"
    and "length (replacen p q 1 s) + length p = length s + length q"
    and "set (replacen p q 1 s) \<subseteq> set s \<union> set q"
  using find_sub_bound [OF assms] find_sub_append [OF assms, of t] assms
  by (auto dest: in_set_takeD in_set_dropD)

text \<open>The tampered text no longer verifies when a signature fits one message only.\<close>

lemma tamper_test:
  assumes found: "find (valid_item verify) items = Some (Ret ann)"
    and json: "find_sub ''main'' (pk_json_blob ann) = Some i" "CHR 0x0A \<notin> set (pk_json_blob ann)"
    and parts: "no_blank (pk_certificate ann)" "find_sub blank_line (pk_signature ann) = None"
    and parsed: "parse_body (replacen ''main'' ''TAMPERED'' 1 (pk_json_blob ann)) = Ret b"
    and unforged: "\<And>m. verify (pk_certificate ann) m (pk_signature ann) = Inr True \<Longrightarrow> m = pk_json_blob ann"
  shows "test_verify_live_signature_and_tamper (packet_of_text parse_body fingerprint) verify items"
proof -
  let ?j = "replacen ''main'' ''TAMPERED'' 1 (pk_json_blob ann)"
  have "no_blank ?j" using replacen_once(3) [OF json(1), of "''TAMPERED''"] json(2) by (intro no_blank_plain) auto
  then have split: "split_str blank_line (?j @ blank_line @ pk_certificate ann @ blank_line @ pk_signature ann)
      = [?j, pk_certificate ann, pk_signature ann]"
    using split_str_blank parts(1) split_str_None [OF parts(2)] by metis
  obtain p where p: "packet_of_text parse_body fingerprint
      (?j @ blank_line @ pk_certificate ann @ blank_line @ pk_signature ann) = Ret p"
    "pk_json_blob p = ?j" "pk_certificate p = pk_certificate ann" "pk_signature p = pk_signature ann"
    unfolding packet_of_text_def Let_def split by (simp add: nth_part_def parsed del: replacen.simps One_nat_def)
  have "?j \<noteq> pk_json_blob ann" using replacen_once(2) [OF json(1), of "''TAMPERED''"] by auto
  then have "verify (pk_certificate ann) ?j (pk_signature ann) \<noteq> Inr True" using unforged by blast
  then have "\<not> signature_is_valid verify p"
    by (auto simp: signature_is_valid_def p(2-4) split: sum.splits simp del: replacen.simps One_nat_def)
  with p(1) found show ?thesis
    by (simp add: test_verify_live_signature_and_tamper_def replacen_once(1) [OF json(1)] del: replacen.simps One_nat_def)
qed

subsection \<open>Cache files (discovery/cache_file.rs)\<close>

definition test_cache_file_announcement_iterator :: "(cache_error, announcement_packet) outcome list \<Rightarrow> bool" where
  "test_cache_file_announcement_iterator announcements \<longleftrightarrow>
     announcements \<noteq> [] \<and> 0 < length (filter (\<lambda>a. case a of Ret p \<Rightarrow> True | _ \<Rightarrow> False) announcements)"

text \<open>The cache of what a service announces passes the tests of a cache.\<close>

lemma announced_cache_tests:
  assumes laws: "exchange_laws print dec reread compress decompress sign b64 public_key b64_decode verify digits_re s cert"
    and percent: "CHR ''%'' \<notin> set cert" "\<And>d. CHR ''%'' \<notin> set (b64 d)"
    and sent: "service_announcement print sign b64 ts s True = Ret msg"
    and actions: "\<forall>ai \<in> set (actions_snapshot s). 0 \<le> sint (ai_version ai)" "dotted (actions_snapshot s) \<noteq> []"
    and cached: "cached_text msg reads"
  shows "test_cache_file_announcement_iterator
      (cache_records (announcement_parser digits_re dec b64_decode sha1) (cache_new reads))"
    and "test_verify_real_cache_signatures (verify_rsa_sha256 public_key b64_decode verify)
      (cache_records (announcement_parser digits_re dec b64_decode sha1) (cache_new reads))"
proof -
  let ?parse = "announcement_parser digits_re dec b64_decode sha1"
  from laws obtain key where l: "json_laws print dec reread" "digits_ok digits_re"
    "sv_cert_pem s = Some (cert @ newline)" "no_blank cert" "sv_key_pem s = Some key"
    "signing_laws public_key b64_decode verify (sign key) b64 cert"
    by (auto simp: exchange_laws_def)
  obtain p where p: "utf8_valid msg" "?parse msg = Ret p"
    "signature_is_valid (verify_rsa_sha256 public_key b64_decode verify) p"
    using announced_parsed [OF l sent actions, of sha1] by blast
  have items: "cache_records ?parse (cache_new reads) = [Ret p]"
    using cache_of_announcement [OF sent l(1,5,3,6) percent cached] p(1,2)
    by (simp add: record_item_def from_utf8_def)
  show "test_cache_file_announcement_iterator (cache_records ?parse (cache_new reads))"
    unfolding items by (simp add: test_cache_file_announcement_iterator_def)
  show "test_verify_real_cache_signatures (verify_rsa_sha256 public_key b64_decode verify)
      (cache_records ?parse (cache_new reads))"
    unfolding items using p(3) by (simp add: real_cache_test valid_item_def)
qed

subsection \<open>A built announcement (service/announce.rs)\<close>

definition roundtrip_actions :: "action_info list" where
  "roundtrip_actions =
     [\<lparr>ai_name = ''ScampRsTest.echo'', ai_version = 1, ai_flags = []\<rparr>,
      \<lparr>ai_name = ''ScampRsTest.health_check'', ai_version = 1, ai_flags = []\<rparr>]"

definition test_roundtrip_announcement ::
  "(json \<Rightarrow> string option) \<Rightarrow> (bytes \<Rightarrow> bytes option) \<Rightarrow> (bytes \<Rightarrow> string)
   \<Rightarrow> (string \<Rightarrow> ('e, announcement_packet) outcome) \<Rightarrow> (string \<Rightarrow> bytes \<Rightarrow> string \<Rightarrow> crypto_error + bool)
   \<Rightarrow> (string \<Rightarrow> json option) \<Rightarrow> bytes \<Rightarrow> f64 \<Rightarrow> bool" where
  "test_roundtrip_announcement print sign b64 parse verify dec cert_pem ts \<longleftrightarrow>
     (case build_announcement_packet print sign b64 ''scamp-rs-test:abc123'' ''main'' [''json'']
         ''beepish+tls://10.0.0.1:30100'' roundtrip_actions cert_pem 1 5 True ts of
        Ret packet \<Rightarrow>
          (case from_utf8 packet of
             None \<Rightarrow> False
           | Some packet_str \<Rightarrow>
               (case parse packet_str of
                  Ret ann \<Rightarrow>
                    si_identity (ab_info (pk_body ann)) = ''scamp-rs-test:abc123''
                    \<and> si_uri (ab_info (pk_body ann)) = ''beepish+tls://10.0.0.1:30100''
                    \<and> ap_weight (ab_params (pk_body ann)) = 1
                    \<and> ap_interval (ab_params (pk_body ann)) = 5000
                    \<and> ab_actions (pk_body ann) \<noteq> []
                    \<and> signature_is_valid verify ann
                    \<and> (case dec (pk_json_blob ann) of
                         Some (JArr arr) \<Rightarrow>
                           (case nth_part 6 arr of
                              Some (JArr env_array) \<Rightarrow>
                                (\<exists>v \<in> set env_array. case v of JObj obj \<Rightarrow> True | _ \<Rightarrow> False)
                            | _ \<Rightarrow> False)
                       | _ \<Rightarrow> False)
                | _ \<Rightarrow> False))
      | _ \<Rightarrow> False)"

lemma roundtrip_test:
  assumes cert: "utf8_valid (cert @ newline)" "no_blank cert"
    and json: "json_laws print dec reread" "\<And>v. print v \<noteq> None"
    and laws: "signing_laws public_key b64_decode verify sign b64 cert" "\<And>m. sign m \<noteq> None"
    and digits: "digits_ok digits_re"
  shows "test_roundtrip_announcement print sign b64 (announcement_parser digits_re dec b64_decode sha1)
    (verify_rsa_sha256 public_key b64_decode verify) dec (cert @ newline) ts"
proof -
  let ?arr = "\<lambda>t. announcement_json ''scamp-rs-test:abc123'' ''main'' [''json''] ''beepish+tls://10.0.0.1:30100''
    roundtrip_actions 1 5 True t"
  obtain j where j: "print (JArr (?arr ts)) = Some j" using json(2) by fastforce
  obtain sg where sg: "sign j = Some sg" using laws(2) by fastforce
  have dec: "CHR 0x0A \<notin> set j" "utf8_valid j" "dec j = Some (JArr (?arr (reread ts)))"
    using json(1) j unfolding json_laws_def by blast+
  have utf: "from_utf8 (cert @ newline) = Some (cert @ newline)" using cert(1) by (simp add: from_utf8_def)
  have dots: "dotted roundtrip_actions \<noteq> []" unfolding roundtrip_actions_def by code_simp
  have versions: "\<forall>ai \<in> set roundtrip_actions. 0 \<le> sint (ai_version ai)" by (simp add: roundtrip_actions_def)
  obtain packet p where p: "build_announcement_packet print sign b64 ''scamp-rs-test:abc123'' ''main'' [''json'']
         ''beepish+tls://10.0.0.1:30100'' roundtrip_actions (cert @ newline) 1 5 True ts = Ret packet"
    "announcement_parser digits_re dec b64_decode sha1 packet = Ret p" "pk_json_blob p = j"
    "pk_body p = \<lparr>ab_info = \<lparr>si_identity = ''scamp-rs-test:abc123'', si_uri = ''beepish+tls://10.0.0.1:30100'',
           si_fingerprint = cert_pem_fingerprint b64_decode sha1 cert\<rparr>,
         ab_params = \<lparr>ap_weight = 1, ap_interval = 5 * 1000, ap_timestamp = reread ts\<rparr>,
         ab_actions = announced_actions ''main'' [''json''] roundtrip_actions\<rparr>"
    "signature_is_valid (verify_rsa_sha256 public_key b64_decode verify) p"
    using built_packet_parses [where print = print and dec = dec and sign = sign and ?sha1.0 = sha1,
        OF utf cert(2) j dec(1,3) laws(1) sg digits versions dots]
    unfolding announcement_parser_def by blast
  have "packet = j @ blank_line @ cert @ blank_line @ wrap_from 76 0 (b64 sg) @ blank_line"
    using build_announcement_text [where print = print and sign = sign, OF utf j sg] p(1)
    by (simp add: blank_line_def)
  moreover have "is_ascii (b64 sg)" using laws(1) sg unfolding signing_laws_def by (blast intro: token_is_ascii)
  ultimately have "from_utf8 packet = Some packet"
    using announced_text_valid [OF dec(2) cert(1)] by (simp add: from_utf8_def)
  moreover have "announced_actions ''main'' [''json''] roundtrip_actions \<noteq> []"
    unfolding roundtrip_actions_def by code_simp
  moreover have "nth_part 6 (?arr (reread ts)) = Some (JArr ([JStr ''json''] @ [v4_hash]))"
    by (simp add: announcement_json_def Let_def nth_part_def)
  moreover have "\<exists>v \<in> set ([JStr ''json''] @ [v4_hash]). case v of JObj obj \<Rightarrow> True | _ \<Rightarrow> False"
    by (simp add: v4_hash_def)
  ultimately show ?thesis
    unfolding test_roundtrip_announcement_def p(1) outcome.case option.case p(2)
    using p(3,5) dec(3) by (simp add: p(2,4))
qed

subsection \<open>Announcement bodies (discovery/service_info/tests.rs)\<close>

definition test_parse :: "(string \<Rightarrow> (info_error, announcement_body) outcome) \<Rightarrow> string \<Rightarrow> bool" where
  "test_parse parse sample \<longleftrightarrow>
     (case parse sample of
        Ret info \<Rightarrow>
          si_identity (ab_info info) = ''mainapi:4HaM4TN5IVSLNfqhERfKvsVu''
          \<and> si_uri (ab_info info) = ''beepish+tls://172.18.0.7:30201''
          \<and> ap_weight (ab_params info) = 1
          \<and> ap_interval (ab_params info) = 5000
          \<and> ab_actions info \<noteq> []
          \<and> (\<forall>a \<in> set (ab_actions info). a_pathver a = a_path a @ ''~'' @ dec_of_nat (unat (a_version a)))
      | _ \<Rightarrow> False)"

text \<open>The path and version of every action a parser gives agree with its combined form.\<close>

definition path_versions :: "action list \<Rightarrow> bool" where
  "path_versions as \<longleftrightarrow> (\<forall>a \<in> set as. a_pathver a = pathver (a_path a) (a_version a))"

lemma path_versions_append [simp]: "path_versions (as @ bs) \<longleftrightarrow> path_versions as \<and> path_versions bs"
  by (auto simp: path_versions_def)

lemma path_versions_v3_action:
  "v3_action digits_re ns_i ac_i namespace sector envelopes ac = Ret a \<Longrightarrow> path_versions [a]"
  by (cases ac) (auto simp: v3_action_def bind_outcome_eq_Ret Let_def path_versions_def split: if_splits)

lemma path_versions_v3_methods:
  "v3_methods digits_re ns_i ac_i namespace sector envelopes acs actions = Ret bs \<Longrightarrow> path_versions actions
     \<Longrightarrow> path_versions bs"
  by (induction acs arbitrary: ac_i actions) (auto simp: bind_outcome_eq_Ret dest: path_versions_v3_action)

lemma path_versions_v3:
  "v3_namespaces digits_re ns_i sector envelopes nss actions = Ret bs \<Longrightarrow> path_versions actions \<Longrightarrow> path_versions bs"
  by (induction nss arbitrary: ns_i actions)
    (auto simp: bind_outcome_eq_Ret dest!: path_versions_v3_methods split: json.splits list.splits)

lemma path_versions_v4_push:
  "v4_push digits_re rows actions = Ret bs \<Longrightarrow> path_versions actions \<Longrightarrow> path_versions bs"
proof (induction digits_re rows actions rule: v4_push.induct)
  case (2 digits_re namespace name cmp ver flags envelopes sector rows actions)
  then show ?case
    by (auto simp: bind_outcome_eq_Ret Let_def path_versions_def split: if_splits)
qed simp

lemma path_versions_v4:
  "envelopes_and_v4 digits_re vs envs actions = Ret (es, bs) \<Longrightarrow> path_versions actions \<Longrightarrow> path_versions bs"
  by (induction vs arbitrary: envs actions)
    (auto simp: bind_outcome_eq_Ret parse_v4_actions_def Let_def dest!: path_versions_v4_push split: json.splits)

lemma parsed_path_versions:
  assumes "parse_announcement_body digits_re dec v = Ret b"
  shows "path_versions (ab_actions b)"
  using assms path_versions_v4 path_versions_v3
  by (fastforce simp: parse_announcement_body_def body_of_array_def bind_outcome_eq_Ret parse_v3_actions_def
      path_versions_def [of "[]"] split: option.splits if_splits)

lemma parse_test:
  assumes "parse_announcement_body digits_re dec sample = Ret b"
  shows "test_parse (parse_announcement_body digits_re dec) sample
    \<longleftrightarrow> si_identity (ab_info b) = ''mainapi:4HaM4TN5IVSLNfqhERfKvsVu'' \<and> si_uri (ab_info b) = ''beepish+tls://172.18.0.7:30201''
      \<and> ap_weight (ab_params b) = 1 \<and> ap_interval (ab_params b) = 5000 \<and> ab_actions b \<noteq> []"
  using parsed_path_versions [OF assms] by (auto simp: test_parse_def assms path_versions_def pathver_def)

subsection \<open>The files of a developer machine (crypto.rs, auth/authorized_services.rs)\<close>

definition dev_fp :: string where
  "dev_fp = ''BC:6E:86:C2:46:44:F7:DC:7F:1D:17:89:D1:9A:E5:09:E4:08:8B:B0''"

definition test_fingerprint_of_dev_cert :: "(string \<Rightarrow> bytes option) \<Rightarrow> (bytes \<Rightarrow> bytes) \<Rightarrow> string \<Rightarrow> bool" where
  "test_fingerprint_of_dev_cert b64_decode sha1 cert_pem \<longleftrightarrow>
     cert_pem_fingerprint b64_decode sha1 cert_pem = Some dev_fp"

definition dev_digest :: bytes where
  "dev_digest = map char_of [0xBC::nat, 0x6E, 0x86, 0xC2, 0x46, 0x44, 0xF7, 0xDC, 0x7F, 0x1D, 0x17, 0x89, 0xD1, 0x9A,
     0xE5, 0x09, 0xE4, 0x08, 0x8B, 0xB0]"

lemma dev_digest_hex: "join '':'' (map hex_byte dev_digest) = dev_fp"
  unfolding dev_digest_def dev_fp_def by code_simp

lemma dev_cert_test:
  assumes "pem_to_der b64_decode cert_pem = Some der" and "sha1 der = dev_digest"
  shows "test_fingerprint_of_dev_cert b64_decode sha1 cert_pem"
  using assms dev_digest_hex
  by (simp add: test_fingerprint_of_dev_cert_def cert_pem_fingerprint_def cert_sha1_fingerprint_def)

definition test_load_real_authorized_services :: "'rx regex_lib \<Rightarrow> file_view \<Rightarrow> string \<Rightarrow> bool" where
  "test_load_real_authorized_services lib fv path \<longleftrightarrow>
     (case load_services lib fv path of
        Inl e \<Rightarrow> False
      | Inr auth \<Rightarrow>
          is_authorized lib auth dev_fp ''main'' ''API.Status.health_check''
          \<and> is_authorized lib auth dev_fp ''web'' ''Page.render''
          \<and> \<not> is_authorized lib auth ''UNKNOWN:FP'' ''main'' ''API.Status.health_check'')"

lemma real_authorized_test:
  assumes laws: "regex_laws lib" and loaded: "path \<noteq> []" "fv_content fv = Some content" "fv_modified fv = Some t"
    and dev: "simple_line content dev_fp" "content_allows content dev_fp (''main'' @ '':'' @ ''API.Status.health_check'')"
      "content_allows content dev_fp (''web'' @ '':'' @ ''Page.render'')"
    and unknown: "map_of (rev (auth_lines content)) ''UNKNOWN:FP'' = None"
  shows "test_load_real_authorized_services lib fv path"
proof -
  have plain: "plain_text ''main''" "plain_text ''API.Status.health_check''" "plain_text ''web''" "plain_text ''Page.render''"
    by (simp_all add: plain_text_def is_ascii_def)
  obtain svc where svc: "load_services lib fv path = Inr (parse_content lib content svc)"
    using loaded by (simp add: load_services_def reload_services_def)
  have "simple_line content ''UNKNOWN:FP''" "\<not> content_allows content ''UNKNOWN:FP'' s" for s
    using unknown by (simp_all add: simple_line_def content_allows_def)
  then show ?thesis
    unfolding test_load_real_authorized_services_def svc sum.case
    using is_authorized_content [OF laws dev(1) plain(1,2), of svc] is_authorized_content [OF laws dev(1) plain(3,4), of svc]
      is_authorized_content [OF laws _ plain(1,2), of content "''UNKNOWN:FP''" svc] dev(2,3) by simp
qed

subsection \<open>Compression (service/multicast.rs, discovery/observer.rs)\<close>

definition test_zlib_compress_decompress ::
  "(bytes \<Rightarrow> 'enc option) \<Rightarrow> ('enc \<Rightarrow> bytes option) \<Rightarrow> (bytes \<Rightarrow> bytes option) \<Rightarrow> bool" where
  "test_zlib_compress_decompress write_all finish read_to_end \<longleftrightarrow>
     (let original = concat (replicate 20 ''hello world, this is a test of zlib compression for scamp. '') in
      case zlib_compress write_all finish original of
        None \<Rightarrow> False
      | Some compressed \<Rightarrow>
          length compressed < length original \<and> read_to_end compressed = Some original)"

definition test_zlib_decompress_roundtrip ::
  "(bytes \<Rightarrow> 'enc option) \<Rightarrow> ('enc \<Rightarrow> bytes option) \<Rightarrow> (bytes \<Rightarrow> bytes option) \<Rightarrow> bool" where
  "test_zlib_decompress_roundtrip write_all finish read_to_end \<longleftrightarrow>
     (let original = concat (replicate 5 ''test announcement data for compression roundtrip'') in
      case zlib_compress write_all finish original of
        None \<Rightarrow> False
      | Some compressed \<Rightarrow> zlib_decompress read_to_end compressed = Some original)"

lemma zlib_tests:
  assumes lossless: "\<And>d c. zlib_compress write_all finish d = Some c \<Longrightarrow> read_to_end c = Some d"
    and total: "\<And>d. zlib_compress write_all finish d \<noteq> None"
    and repeats: "\<And>s n c. zlib_compress write_all finish (concat (replicate n s)) = Some c \<Longrightarrow> 20 \<le> n \<Longrightarrow> 50 \<le> length s
      \<Longrightarrow> length c < n * length s"
  shows "test_zlib_compress_decompress write_all finish read_to_end"
    and "test_zlib_decompress_roundtrip write_all finish read_to_end"
proof -
  let ?s = "''hello world, this is a test of zlib compression for scamp. ''"
  obtain c where c: "zlib_compress write_all finish (concat (replicate 20 ?s)) = Some c" using total by blast
  have "length (concat (replicate n s)) = n * length s" for n and s :: bytes by (induction n) auto
  with repeats [OF c] lossless [OF c] show "test_zlib_compress_decompress write_all finish read_to_end"
    unfolding test_zlib_compress_decompress_def Let_def c option.case by simp
  let ?t = "''test announcement data for compression roundtrip''"
  obtain d where d: "zlib_compress write_all finish (concat (replicate 5 ?t)) = Some d" using total by blast
  from lossless [OF d] show "test_zlib_decompress_roundtrip write_all finish read_to_end"
    unfolding test_zlib_decompress_roundtrip_def Let_def d option.case zlib_decompress_def by simp
qed

end
