(* ===== verification/Full_Stack_Tests.thy ===== *)
theory Full_Stack_Tests
  imports Full_Stack Unit_Tests
begin

text \<open>
  The integration test \<open>scamp/tests/e2e_full_stack.rs\<close>: its service, the files it writes, and its tests.
  A call of the client goes over a connection of its own (the test reuses one).

  The lemmas show that the configuration and the authorized services file the test writes are read back as meant,
  and that all its tests pass, for any key pair, address and paths the libraries and the machine give.
\<close>

subsection \<open>The files of the test\<close>

text \<open>\<open>setup_service\<close>: \<open>identity_ok\<close>, the ports drawn and which of them are free are those of \<open>bind_pem\<close>.\<close>

definition setup_service ::
  "string \<Rightarrow> (bytes \<Rightarrow> bytes \<Rightarrow> bool) \<Rightarrow> (nat \<Rightarrow> nat) \<Rightarrow> (nat \<Rightarrow> nat \<Rightarrow> bool) \<Rightarrow> bytes \<Rightarrow> bytes
   \<Rightarrow> (bind_error + unit) \<times> scamp_service" where
  "setup_service rand_text identity_ok rands free key_pem cert_pem =
     bind_pem identity_ok rands free key_pem cert_pem (127, 0, 0, 1)
       (register_action ''ScampRsTest.echo'' 1 (\<lambda>k req. reply_ok (req_body req))
          (service_new rand_text ''ScampRsTest'' ''main''))"

text \<open>\<open>setup_discovery\<close>: the configuration, the bytes of the cache file and the authorized services file.\<close>

definition config_text :: "string \<Rightarrow> string \<Rightarrow> string" where
  "config_text cache_path auth_path =
     ''discovery.cache_path = '' @ cache_path @ newline @ ''bus.authorized_services = '' @ auth_path @ newline"

definition setup_discovery ::
  "string \<Rightarrow> string \<Rightarrow> bytes \<Rightarrow> string \<Rightarrow> conf_element \<times> bytes \<times> string" where
  "setup_discovery cache_path auth_path announcement fingerprint =
     (config_from_content (config_text cache_path auth_path),
      announcement @ newline @ ''%%%'' @ newline,
      fingerprint @ '' main:ALL'' @ newline)"

text \<open>Texts of visible ASCII characters and blanks that end in a visible one are kept by \<open>trim\<close>.\<close>

definition line_char :: "char \<Rightarrow> bool" where
  "line_char c \<longleftrightarrow> is_token_char c \<or> c = CHR '' ''"

lemma ws_len_line: "line_char c \<Longrightarrow> ws_len (c # cs) = (if c = CHR '' '' then 1 else 0)"
  by (auto simp: line_char_def is_token_char_def)

lemma trim_start_line: "\<forall>c \<in> set s. line_char c \<Longrightarrow> trim_start s = dropWhile (\<lambda>c. c = CHR '' '') s"
proof (induction s)
  case Nil
  show ?case by (subst trim_start.simps) (simp add: ws_len_def)
next
  case (Cons c s)
  then show ?case by (subst trim_start.simps) (simp add: ws_len_line)
qed

lemma trim_end_line:
  "\<forall>c \<in> set s. line_char c \<Longrightarrow> s \<noteq> [] \<Longrightarrow> last s \<noteq> CHR '' '' \<Longrightarrow> trim_end (s) = s"
proof (induction s)
  case (Cons c s)
  have "dropWhile (\<lambda>c. c = CHR '' '') (c # s) \<noteq> []"
    using Cons.prems(2,3) last_in_set [of "c # s"] by (simp only: dropWhile_eq_Nil_conv) blast
  then have ne: "trim_start (c # s) \<noteq> []" using trim_start_line [OF Cons.prems(1)] by simp
  show ?case
  proof (cases "s = []")
    case False
    with ne Cons show ?thesis by simp
  qed (use ne in simp)
qed simp

lemma trim_line:
  assumes "\<forall>c \<in> set s. line_char c" and "s \<noteq> []" and "hd s \<noteq> CHR '' ''" and "last s \<noteq> CHR '' ''"
  shows "trim s = s"
proof -
  have "dropWhile (\<lambda>c. c = CHR '' '') s = s" using assms(2,3) by (cases s) auto
  with trim_end_line [OF assms(1,2,4)] show ?thesis by (simp add: trim_def trim_start_line [OF assms(1)])
qed

lemma trim_blank_line: assumes "\<forall>c \<in> set s. line_char c" and "s \<noteq> []" and "hd s \<noteq> CHR '' ''" and "last s \<noteq> CHR '' ''"
  shows "trim (CHR '' '' # s) = s" "trim (s @ '' '') = s"
proof -
  have "dropWhile (\<lambda>c. c = CHR '' '') (CHR '' '' # s) = s" "\<forall>c \<in> set (CHR '' '' # s). line_char c"
    using assms by (cases s; simp add: line_char_def)+
  with trim_end_line [OF assms(1,2,4)] show "trim (CHR '' '' # s) = s" by (simp add: trim_def trim_start_line)
  have "trim_end (s @ '' '') = s" using assms(1,2,4)
  proof (induction s)
    case (Cons c s)
    have "dropWhile (\<lambda>c. c = CHR '' '') (c # s @ '' '') \<noteq> []"
      using Cons.prems(2,3) last_in_set [of "c # s"] by (simp only: dropWhile_eq_Nil_conv) force
    then have ne: "trim_start (c # s @ '' '') \<noteq> []"
      using trim_start_line [of "c # s @ '' ''"] Cons.prems(1) by (simp add: line_char_def)
    have blank: "trim_start '' '' = []" by (simp add: trim_start_line line_char_def)
    show ?case
    proof (cases "s = []")
      case True
      with ne blank show ?thesis by simp
    next
      case False
      with ne Cons show ?thesis by simp
    qed
  qed simp
  moreover have "dropWhile (\<lambda>c. c = CHR '' '') (s @ '' '') = s @ '' ''" using assms(2,3) by (cases s) auto
  ultimately show "trim (s @ '' '') = s"
    using assms(1) trim_start_line [of "s @ '' ''"] by (simp add: trim_def line_char_def)
qed

text \<open>A line that sets a key to a visible text.\<close>

definition visible :: "string \<Rightarrow> bool" where
  "visible s \<longleftrightarrow> s \<noteq> [] \<and> (\<forall>c \<in> set s. is_token_char c \<and> c \<noteq> CHR ''#'' \<and> c \<noteq> CHR ''='')"

lemma visible_line:
  assumes "visible s"
  shows "\<forall>c \<in> set s. line_char c" "s \<noteq> []" "hd s \<noteq> CHR '' ''" "last s \<noteq> CHR '' ''"
proof -
  have tok: "is_token_char c" if "c \<in> set s" for c using assms that by (simp add: visible_def)
  have blank: "\<not> is_token_char CHR '' ''" by (simp add: is_token_char_def)
  show "s \<noteq> []" using assms by (simp add: visible_def)
  then show "hd s \<noteq> CHR '' ''" "last s \<noteq> CHR '' ''"
    using tok [of "hd s"] tok [of "last s"] blank by (auto simp del: is_token_char_def)
  show "\<forall>c \<in> set s. line_char c" using tok by (simp add: line_char_def)
qed

lemma conf_line_set:
  assumes "visible key" and "visible v"
  shows "conf_line (key @ '' = '' @ v) = Some (key, v)"
proof -
  let ?l = "key @ '' = '' @ v"
  note k = visible_line [OF assms(1)] and w = visible_line [OF assms(2)]
  have "CHR ''#'' \<notin> set ?l" using assms by (auto simp: visible_def)
  then have "strip_hash ?l = ?l" by (simp add: strip_hash_def find_sub_absent_char)
  moreover have "trim ?l = ?l"
    using k w by (intro trim_line) (auto simp: line_char_def is_token_char_def)
  moreover have "split_once CHR ''='' ((key @ '' '') @ CHR ''='' # CHR '' '' # v) = Some (key @ '' '', CHR '' '' # v)"
    using assms(1) by (intro split_once_append) (auto simp: visible_def)
  ultimately show ?thesis
    using trim_blank_line(2) [OF k] trim_blank_line(1) [OF w] k(2) by (simp add: conf_line_def Let_def)
qed

lemma lines_newline: "CHR 0x0A \<notin> set s \<Longrightarrow> lines (s @ newline @ t) = strip_cr s # lines t"
proof -
  have "lines_from cur (s @ newline @ t) = strip_cr (cur @ s) # lines_from [] t" if "CHR 0x0A \<notin> set s" for cur
    using that by (induction s arbitrary: cur) (auto simp: newline_def)
  then show "CHR 0x0A \<notin> set s \<Longrightarrow> lines (s @ newline @ t) = strip_cr s # lines t" by (simp add: lines_def)
qed

lemma visible_no_break: assumes "visible s" shows "CHR 0x0A \<notin> set s" "strip_cr (t @ s) = t @ s"
proof -
  have tok: "is_token_char c" if "c \<in> set s" for c using assms that by (simp add: visible_def)
  have breaks: "\<not> is_token_char CHR 0x0A" "\<not> is_token_char CHR 0x0D" by (simp_all add: is_token_char_def)
  show "CHR 0x0A \<notin> set s" using tok breaks by blast
  have "s \<noteq> []" using assms by (simp add: visible_def)
  then show "strip_cr (t @ s) = t @ s" using tok [of "last s"] breaks by (auto simp: strip_cr_def)
qed

text \<open>The configuration that is written names the two files.\<close>

lemma config_text_values:
  assumes "visible cache_path" and "visible auth_path"
  shows "config_get Some (config_from_content (config_text cache_path auth_path)) ''discovery.cache_path''
      = Some (Some cache_path)"
    and "config_get Some (config_from_content (config_text cache_path auth_path)) ''bus.authorized_services''
      = Some (Some auth_path)"
proof -
  have keys: "visible ''discovery.cache_path''" "visible ''bus.authorized_services''"
    by (simp_all add: visible_def is_token_char_def)
  have "lines (config_text cache_path auth_path)
      = [''discovery.cache_path'' @ '' = '' @ cache_path, ''bus.authorized_services'' @ '' = '' @ auth_path]"
  proof -
    have "lines ((''discovery.cache_path = '' @ cache_path) @ newline @ (''bus.authorized_services = '' @ auth_path) @ newline @ [])
        = [strip_cr (''discovery.cache_path = '' @ cache_path), strip_cr (''bus.authorized_services = '' @ auth_path)]"
      using visible_no_break(1) [OF assms(1)] visible_no_break(1) [OF assms(2)]
      by (subst lines_newline, simp, subst lines_newline, simp, simp add: lines_def)
    then show ?thesis
      unfolding visible_no_break(2) [OF assms(1)] visible_no_break(2) [OF assms(2)] by (simp add: config_text_def)
  qed
  then have "List.map_filter conf_line (lines (config_text cache_path auth_path))
      = [(''discovery.cache_path'', cache_path), (''bus.authorized_services'', auth_path)]"
    using conf_line_set [OF keys(1) assms(1)] conf_line_set [OF keys(2) assms(2)] by (simp only: List.map_filter_simps option.case)
  note vals = config_from_content_def parse_config_def config_get_value_at parse_lines_value this value_at_default
  show "config_get Some (config_from_content (config_text cache_path auth_path)) ''discovery.cache_path''
      = Some (Some cache_path)"
    "config_get Some (config_from_content (config_text cache_path auth_path)) ''bus.authorized_services''
      = Some (Some auth_path)"
    unfolding vals by (simp_all add: named_def parse_usize_def parse_uint_def is_digit_def rewrite_value_def)
qed

lemma split_once_ws_token: "\<forall>c \<in> set s. is_token_char c \<Longrightarrow> split_once_ws (s @ CHR '' '' # t) = Some (s, t)"
  by (induction s) auto

text \<open>The line of the authorized services file allows every action of sector main.\<close>

lemma main_line:
  assumes "visible fp"
  shows "map_of (rev (auth_lines (fp @ '' main:ALL'' @ newline))) fp = Some ''main:ALL''"
proof -
  let ?l = "fp @ '' main:ALL''"
  note v = visible_line [OF assms]
  have tail: "visible ''main:ALL''" by (simp add: visible_def is_token_char_def)
  have "CHR ''#'' \<notin> set ?l" using assms by (auto simp: visible_def)
  then have "split_char CHR ''#'' ?l = [?l]" by (rule split_char_absent)
  moreover have "trim ?l = ?l" using v by (intro trim_line) (auto simp: line_char_def is_token_char_def)
  ultimately have "strip_comment ?l = ?l" by (simp add: strip_comment_def nth_part_def)
  moreover have "split_once_ws (fp @ CHR '' '' # ''main:ALL'') = Some (fp, ''main:ALL'')"
    using assms by (intro split_once_ws_token) (simp add: visible_def)
  moreover have "trim fp = fp" "trim ''main:ALL'' = ''main:ALL''"
    using trim_line [OF v] trim_line [OF visible_line [OF tail]] by simp_all
  ultimately have "parse_auth_line ?l = Some (fp, ''main:ALL'')" by (simp add: parse_auth_line_def Let_def)
  moreover have "lines (?l @ newline @ []) = [?l]"
    using visible_no_break(1) [OF assms] visible_no_break(2) [OF tail, of "fp @ '' ''"]
    by (subst lines_newline) (simp_all add: lines_def)
  ultimately show ?thesis by (simp add: auth_lines_def List.map_filter_simps)
qed

lemma fingerprint_visible:
  assumes "sha1 der \<noteq> []"
  shows "visible (cert_sha1_fingerprint sha1 der)"
proof -
  have hex: "is_token_char c \<and> c \<noteq> CHR ''#'' \<and> c \<noteq> CHR ''=''" if "upper_hex c \<or> c = CHR '':''" for c
    using that by (auto simp: upper_hex_def is_digit_def is_token_char_def)
  have "\<forall>c \<in> set (join '':'' (map hex_byte (sha1 der))). upper_hex c \<or> c = CHR '':''"
    using set_join [of "CHR '':''" "map hex_byte (sha1 der)"] hex_byte_upper by fastforce
  moreover have "join '':'' (map hex_byte (sha1 der)) \<noteq> []"
    using assms by (cases "sha1 der"; cases "tl (sha1 der)") (auto simp: hex_byte_def)
  ultimately show ?thesis using hex by (simp add: cert_sha1_fingerprint_def visible_def)
qed

subsection \<open>The tests\<close>

text \<open>
  \<open>entry\<close> is the result of the lookup of the echo action in the loaded registry, \<open>request\<close> a call of the client
  with an entry, an action and a body.
\<close>

type_synonym e2e_request = "action_entry \<Rightarrow> string \<Rightarrow> bytes \<Rightarrow> string + scamp_response"

definition echoes :: "action_entry option \<Rightarrow> e2e_request \<Rightarrow> bytes \<Rightarrow> bool" where
  "echoes entry request body \<longleftrightarrow>
     (case entry of
        None \<Rightarrow> False
      | Some e \<Rightarrow>
          (case request e ''ScampRsTest.echo'' body of
             Inl err \<Rightarrow> False
           | Inr response \<Rightarrow> h_error (rs_header response) = None \<and> rs_body response = body))"

definition test_echo_roundtrip_e2e :: "action_entry option \<Rightarrow> e2e_request \<Rightarrow> bool" where
  "test_echo_roundtrip_e2e entry request \<longleftrightarrow> echoes entry request ''hello e2e''"

definition test_large_body :: "action_entry option \<Rightarrow> e2e_request \<Rightarrow> bool" where
  "test_large_body entry request \<longleftrightarrow> echoes entry request (replicate 5000 CHR 0x42)"

definition test_unknown_action :: "action_entry option \<Rightarrow> e2e_request \<Rightarrow> bool" where
  "test_unknown_action entry request \<longleftrightarrow>
     (case entry of
        None \<Rightarrow> False
      | Some e \<Rightarrow>
          (case request e ''NonExistent.action'' ''{}'' of
             Inl err \<Rightarrow> False
           | Inr response \<Rightarrow>
               (case h_error (rs_header response) of
                  None \<Rightarrow> False
                | Some err \<Rightarrow> find_sub ''No such action'' err \<noteq> None)))"

definition test_sequential_requests :: "action_entry option \<Rightarrow> e2e_request \<Rightarrow> bool" where
  "test_sequential_requests entry request \<longleftrightarrow>
     (\<forall>i \<in> set [0..<5]. echoes entry request (''request '' @ dec_of_nat i))"

definition test_announcement_signature_verification ::
  "(string \<Rightarrow> ('e, announcement_packet) outcome) \<Rightarrow> (string \<Rightarrow> bytes \<Rightarrow> string \<Rightarrow> crypto_error + bool)
   \<Rightarrow> (string \<Rightarrow> string option) \<Rightarrow> scamp_service \<Rightarrow> bytes \<Rightarrow> bytes \<Rightarrow> bool" where
  "test_announcement_signature_verification parse verify fingerprint service announcement_bytes cert_pem \<longleftrightarrow>
     (case from_utf8 announcement_bytes of
        None \<Rightarrow> False
      | Some announcement_str \<Rightarrow>
          (case parse announcement_str of
             Ret packet \<Rightarrow>
               signature_is_valid verify packet
               \<and> si_identity (ab_info (pk_body packet)) = sv_identity service
               \<and> ap_weight (ab_params (pk_body packet)) = 1
               \<and> (case fingerprint cert_pem of
                    None \<Rightarrow> False
                  | Some expected_fp \<Rightarrow> si_fingerprint (ab_info (pk_body packet)) = Some expected_fp)
           | _ \<Rightarrow> False))"

text \<open>A line feed at the end of a certificate does not change its lines.\<close>

lemma lines_from_last: "s \<noteq> [] \<Longrightarrow> last s \<noteq> CHR 0x0A \<Longrightarrow> lines_from cur (s @ newline) = lines_from cur s"
  if "\<not> (last s = CHR 0x0D)"
  using that
proof (induction s arbitrary: cur)
  case (Cons c s)
  show ?case
  proof (cases "s = []")
    case True
    with Cons.prems show ?thesis by (simp add: newline_def strip_cr_def)
  next
    case False
    with Cons show ?thesis by simp
  qed
qed simp

lemma fingerprint_of_file:
  assumes "cert \<noteq> []" and "last cert \<noteq> CHR 0x0A" and "last cert \<noteq> CHR 0x0D"
  shows "cert_pem_fingerprint b64_decode sha1 (cert @ newline) = cert_pem_fingerprint b64_decode sha1 cert"
  using lines_from_last [OF assms(3,1,2)] by (simp add: cert_pem_fingerprint_def pem_to_der_def lines_def)

text \<open>The service of the tests.\<close>

lemma setup_service_facts:
  assumes "setup_service rand_text identity_ok rands free key_pem cert_pem = (Inr (), s)"
  shows "service_reachable s" "sv_identity s = ''ScampRsTest:'' @ rand_text" "sv_sector s = ''main''"
    "sv_envelopes s = [''json'']" "sv_key_pem s = Some key_pem" "sv_cert_pem s = Some cert_pem"
    "sv_actions s = [(''scamprstest.echo.v1'',
       \<lparr>ra_name = ''ScampRsTest.echo'', ra_version = 1, ra_flags = [], ra_handler = (\<lambda>k req. reply_ok (req_body req))\<rparr>)]"
    "\<exists>uri. service_uri s = Some uri"
proof -
  let ?s = "register_action ''ScampRsTest.echo'' 1 (\<lambda>k req. reply_ok (req_body req)) (service_new rand_text ''ScampRsTest'' ''main'')"
  obtain port where s: "s = ?s\<lparr>sv_key_pem := Some key_pem, sv_cert_pem := Some cert_pem, sv_address := Some ((127, 0, 0, 1), port)\<rparr>"
    using assms by (auto simp: setup_service_def bind_pem_def Let_def split: if_splits option.splits)
  have "s = snd (bind_pem identity_ok rands free key_pem cert_pem (127, 0, 0, 1) ?s)"
    using assms by (simp add: setup_service_def)
  then show "service_reachable s" unfolding register_action_def by (auto intro: service_reachable.intros)
  have low: "to_lowercase ''ScampRsTest.echo'' = ''scamprstest.echo''"
    by (simp add: to_lowercase_def lower_char_def char_of_eq_iff)
  show "sv_actions s = [(''scamprstest.echo.v1'',
       \<lparr>ra_name = ''ScampRsTest.echo'', ra_version = 1, ra_flags = [], ra_handler = (\<lambda>k req. reply_ok (req_body req))\<rparr>)]"
    by (simp add: s register_action_def register_with_flags_def service_new_def registration_key_def low dec_of_int_def
        dec_of_nat.simps digit_char_def char_of_eq_iff)
  show "sv_identity s = ''ScampRsTest:'' @ rand_text" "sv_sector s = ''main''" "sv_envelopes s = [''json'']"
    "sv_key_pem s = Some key_pem" "sv_cert_pem s = Some cert_pem" "\<exists>uri. service_uri s = Some uri"
    by (simp_all add: s register_action_def register_with_flags_def service_new_def service_uri_def split: option.split)
qed

text \<open>What the tests need of the world around them.\<close>

definition e2e_headers ::
  "(json \<Rightarrow> bytes) \<Rightarrow> (bytes \<Rightarrow> json option) \<Rightarrow> bool" where
  "e2e_headers enc dec \<longleftrightarrow>
     (\<forall>act \<in> {''ScampRsTest.echo'', ''NonExistent.action''}. \<forall>body.
        header_fits enc dec (first_header (announced_call ''main'' act 1 body)))
     \<and> (\<forall>body. header_fits enc dec (reply_header (reply_ok body) 1))
     \<and> header_fits enc dec (reply_header
          (reply_error (''No such action: '' @ ''nonexistent.action.v1'') ''not_found'') 1)"

definition e2e_call ::
  "(json \<Rightarrow> bytes) \<Rightarrow> (bytes \<Rightarrow> json option) \<Rightarrow> (bytes \<Rightarrow> bytes list) \<Rightarrow> scamp_service \<Rightarrow> e2e_request" where
  "e2e_call enc dec cuts s = (\<lambda>entry act body.
     network_client enc dec cuts [the (service_uri s) \<mapsto> connection_env (\<lambda>n. True) None s]
       (call_of (default_opts ''main'' act 1 body) entry))"

lemma e2e_action_keys:
  "action_key (first_header (announced_call ''main'' ''ScampRsTest.echo'' 1 body)) = ''scamprstest.echo.v1''"
  "action_key (first_header (announced_call ''main'' ''NonExistent.action'' 1 body)) = ''nonexistent.action.v1''"
proof -
  have "to_lowercase ''ScampRsTest.echo'' = ''scamprstest.echo''" "to_lowercase ''NonExistent.action'' = ''nonexistent.action''"
    by (simp_all add: to_lowercase_def lower_char_def char_of_eq_iff)
  then show "action_key (first_header (announced_call ''main'' ''ScampRsTest.echo'' 1 body)) = ''scamprstest.echo.v1''"
    "action_key (first_header (announced_call ''main'' ''NonExistent.action'' 1 body)) = ''nonexistent.action.v1''"
    by (simp_all add: first_header_def request_header_def lone_task_def announced_call_def Let_def
      action_key_def dec_of_int_def dec_of_nat.simps digit_char_def char_of_eq_iff)
qed

lemma e2e_replies:
  assumes s: "setup_service rand_text identity_ok rands free key_pem cert_pem = (Inr (), s)"
    and h: "e2e_headers enc dec" and cuts: "read_cuts cuts" and uri: "si_uri (ae_info e) = the (service_uri s)"
    and short: "length body \<le> u64_max"
  shows "e2e_call enc dec cuts s e ''ScampRsTest.echo'' body
      = Inr \<lparr>rs_header = reply_header (reply_ok body) 1, rs_body = body, rs_error = None\<rparr>"
    and "\<exists>r. e2e_call enc dec cuts s e ''NonExistent.action'' body = Inr r
      \<and> h_error (rs_header r) = Some (''No such action: '' @ ''nonexistent.action.v1'')"
proof -
  let ?env = "connection_env (\<lambda>n. True) None s"
  note facts = setup_service_facts [OF s]
  have env: "reliable ?env" "\<And>h k. denial ?env h k = None"
    by (simp_all add: connection_env_def reliable_def denial_def)
  have call: "e2e_call enc dec cuts s e act body = exchange enc dec cuts ?env (announced_call ''main'' act 1 body)" for act
    using uri args_of_call [of "''main''" act 1 body e] by (simp add: e2e_call_def network_client_def call_of_def)
  have echo: "reply_to ?env (first_header (announced_call ''main'' ''ScampRsTest.echo'' 1 body)) body k = reply_ok body" for k
    by (simp add: reply_to_def connection_env_def facts(7) e2e_action_keys request_of_def)
  have unknown: "reply_to ?env (first_header (announced_call ''main'' ''NonExistent.action'' 1 body)) body k
      = reply_error (''No such action: '' @ ''nonexistent.action.v1'') ''not_found''" for k
    by (simp add: reply_to_def connection_env_def facts(7) e2e_action_keys)
  have len: "length (rq_body (announced_call ''main'' act 1 body)) \<le> u64_max"
    and body: "rq_body (announced_call ''main'' act 1 body) = body" for act
    using short by (simp_all add: announced_call_def)
  obtain k where "exchange enc dec cuts ?env (announced_call ''main'' ''ScampRsTest.echo'' 1 body)
      = Inr (response_to ?env (first_header (announced_call ''main'' ''ScampRsTest.echo'' 1 body)) body k)"
    using exchange_reply [OF env _ _ len cuts, of enc dec "''ScampRsTest.echo''"] h unfolding body echo e2e_headers_def by blast
  then show "e2e_call enc dec cuts s e ''ScampRsTest.echo'' body
      = Inr \<lparr>rs_header = reply_header (reply_ok body) 1, rs_body = body, rs_error = None\<rparr>"
    by (simp add: call response_to_def echo) (simp add: reply_ok_def)
  obtain k where "exchange enc dec cuts ?env (announced_call ''main'' ''NonExistent.action'' 1 body)
      = Inr (response_to ?env (first_header (announced_call ''main'' ''NonExistent.action'' 1 body)) body k)"
    using exchange_reply [OF env _ _ len cuts, of enc dec "''NonExistent.action''"] h
    unfolding body unknown e2e_headers_def by blast
  then show "\<exists>r. e2e_call enc dec cuts s e ''NonExistent.action'' body = Inr r
      \<and> h_error (rs_header r) = Some (''No such action: '' @ ''nonexistent.action.v1'')"
    by (simp add: call response_to_def unknown) (simp add: reply_error_def reply_header_def)
qed

subsection \<open>The tests pass\<close>

definition e2e_action :: action where
  "e2e_action =
     \<lparr>a_path = ''scamprstest.echo'', a_version = 1, a_pathver = ''scamprstest.echo~1'',
      a_flags = [], a_sector = ''main'', a_envelopes = [''json''], a_section = V3\<rparr>"

lemma e2e_announced: "announced_actions ''main'' [''json'']
    [\<lparr>ai_name = ''ScampRsTest.echo'', ai_version = 1, ai_flags = []\<rparr>] = [e2e_action]"
  by code_simp

lemma e2e_snapshot:
  assumes "setup_service rand_text identity_ok rands free key_pem cert_pem = (Inr (), s)"
  shows "actions_snapshot s = [\<lparr>ai_name = ''ScampRsTest.echo'', ai_version = 1, ai_flags = []\<rparr>]"
  by (simp add: actions_snapshot_def action_info_of_def setup_service_facts(7) [OF assms])

lemma e2e_echoes:
  assumes s: "setup_service rand_text identity_ok rands free key_pem cert_pem = (Inr (), s)"
    and h: "e2e_headers enc dec" "read_cuts cuts" and uri: "si_uri (ae_info e) = the (service_uri s)"
  shows "length body \<le> u64_max \<Longrightarrow> echoes (Some e) (e2e_call enc dec cuts s) body"
    and "test_unknown_action (Some e) (e2e_call enc dec cuts s)"
proof -
  show "echoes (Some e) (e2e_call enc dec cuts s) body" if "length body \<le> u64_max"
    using e2e_replies(1) [OF s h uri that] by (simp add: echoes_def) (simp add: reply_header_def reply_ok_def)
  have "find_sub ''No such action'' (''No such action: '' @ ''nonexistent.action.v1'') \<noteq> None" by code_simp
  moreover have "length ''{}'' \<le> u64_max" by (simp add: u64_max_def)
  ultimately show "test_unknown_action (Some e) (e2e_call enc dec cuts s)"
    using e2e_replies(2) [OF s h uri] unfolding test_unknown_action_def by fastforce
qed

lemma e2e_files:
  assumes "visible cache_path" and "visible auth_path"
    and "setup_discovery cache_path auth_path announcement fp = (config, cache, auth)"
    and "open_file cache_path = Some reads"
    and "views auth_path = \<lparr>fv_content = Some auth, fv_modified = Some mtime\<rparr>"
  shows "discovery_files views open_file config reads (fp @ '' main:ALL'' @ newline)"
  using assms config_text_values [OF assms(1,2)] unfolding discovery_files_def setup_discovery_def
  by (auto simp: visible_def)

lemma main_line_allows:
  assumes "visible fp"
  shows "simple_line (fp @ '' main:ALL'' @ newline) fp"
    and "content_allows (fp @ '' main:ALL'' @ newline) fp (''main'' @ '':'' @ act)"
proof -
  have "simple_token (''main'' @ '':ALL'')"
    unfolding simple_token_def by (auto simp: plain_text_def is_ascii_def)
  then show "simple_line (fp @ '' main:ALL'' @ newline) fp"
    unfolding simple_line_def main_line [OF assms] option.case allowed_tokens by simp
  have "find_sub '':ALL'' ''main:ALL'' \<noteq> None" by code_simp
  then have "token_allows (''main'' @ '':ALL'') (''main'' @ '':'' @ act)"
    by (simp add: token_allows_def prefix_match_def)
  then show "content_allows (fp @ '' main:ALL'' @ newline) fp (''main'' @ '':'' @ act)"
    unfolding content_allows_def main_line [OF assms] option.case allowed_tokens by simp
qed

lemma e2e_lookup:
  assumes s: "setup_service rand_text identity_ok rands free key_pem (cert @ newline) = (Inr (), s)"
    and laws: "exchange_laws print jdec reread compress decompress sign b64 public_key b64_decode verify digits_re s cert"
    and percent: "CHR ''%'' \<notin> set cert" "\<And>d. CHR ''%'' \<notin> set (b64 d)"
    and sent: "service_announcement print sign b64 ts s True = Ret announcement"
    and der: "pem_to_der b64_decode cert = Some der" "sha1 der \<noteq> []"
    and paths: "visible cache_path" "visible auth_path"
    and files: "setup_discovery cache_path auth_path announcement (cert_sha1_fingerprint sha1 der) = (config, cache, auth)"
      "open_file cache_path = Some reads" "cached_text announcement reads"
      "views auth_path = \<lparr>fv_content = Some auth, fv_modified = Some mtime\<rparr>"
    and lib: "regex_laws lib"
    and fresh: "\<not> expired rnd (clock 0) (ab_params (announced_body s None (reread ts)))"
  shows "\<exists>r e. registry_from_cache lib views open_file (announcement_parser digits_re jdec b64_decode sha1) rnd
        (signature_is_valid (verify_rsa_sha256 public_key b64_decode verify)) clock config = Ret r
    \<and> find_action r now rand ''main'' ''ScampRsTest.echo'' 1 = Some e
    \<and> si_uri (ae_info e) = the (service_uri s)"
proof -
  let ?fp = "cert_sha1_fingerprint sha1 der"
  note facts = setup_service_facts [OF s] and snap = e2e_snapshot [OF s]
  have certified: "cert_pem_fingerprint b64_decode sha1 cert = Some ?fp" using der(1) by (simp add: cert_pem_fingerprint_def)
  have vis: "visible ?fp" using der(2) by (rule fingerprint_visible)
  have versions: "\<forall>ai \<in> set (actions_snapshot s). 0 \<le> sint (ai_version ai)" by (simp add: snap)
  have act: "e2e_action \<in> set (announced_actions (sv_sector s) (sv_envelopes s) (actions_snapshot s))"
    using e2e_announced by (simp add: facts(3,4) snap)
  have envs: "sv_envelopes s \<noteq> []" by (simp add: facts(4))
  have disc: "discovery_files views open_file config reads (?fp @ '' main:ALL'' @ newline)"
    by (rule e2e_files) (use paths files(1,2,4) in auto)
  have plain: "plain_text (sv_sector s)" "plain_text (a_path e2e_action)"
    by (simp_all add: facts(3) e2e_action_def plain_text_def is_ascii_def)
  have allowed: "prefix ''_meta.'' (a_path e2e_action)
      \<or> CHR '':'' \<notin> set (sv_sector s) \<and> CHR '':'' \<notin> set (a_path e2e_action)
        \<and> content_allows (?fp @ '' main:ALL'' @ newline) ?fp (sv_sector s @ '':'' @ a_path e2e_action)"
    unfolding facts(3) using main_line_allows(2) [OF vis] by (simp add: e2e_action_def)
  have params: "\<not> expired rnd (clock 0) (ab_params (announced_body s (Some ?fp) (reread ts)))"
    using fresh by (simp add: announced_body_def)
  obtain r e where r: "registry_from_cache lib views open_file (announcement_parser digits_re jdec b64_decode sha1) rnd
        (signature_is_valid (verify_rsa_sha256 public_key b64_decode verify)) clock config = Ret r"
    and e: "find_action r now rand (sv_sector s) (a_path e2e_action) (a_version e2e_action) = Some e"
      "ae_info e = ab_info (announced_body s (Some ?fp) (reread ts))"
    using cached_registry [where rnd = rnd and clock = clock and reread = reread and ts = ts and now = now and rand = rand,
        OF laws percent sent versions act envs files(3) disc certified lib main_line_allows(1) [OF vis] plain allowed params]
    by blast
  have low: "to_lowercase ''ScampRsTest.echo'' = ''scamprstest.echo''"
    by (simp add: to_lowercase_def lower_char_def char_of_eq_iff)
  have "make_index_key ''main'' ''scamprstest.echo'' 1 = make_index_key ''main'' ''ScampRsTest.echo'' 1"
    unfolding low [symmetric] by (simp only: make_index_key_def to_lowercase_append to_lowercase_idem)
  then have "find_action r now rand ''main'' ''ScampRsTest.echo'' 1 = Some e"
    using e(1) by (simp add: find_action_def facts(3) e2e_action_def)
  with r e(2) facts(8) show ?thesis by (auto simp: announced_body_def unwrap_or_def)
qed

text \<open>The announcement verifies and carries the fingerprint of the certificate file.\<close>

lemma e2e_signature:
  assumes s: "setup_service rand_text identity_ok rands free key_pem (cert @ newline) = (Inr (), s)"
    and laws: "exchange_laws print jdec reread compress decompress sign b64 public_key b64_decode verify digits_re s cert"
    and sent: "service_announcement print sign b64 ts s True = Ret announcement"
    and der: "pem_to_der b64_decode cert = Some der"
    and cert: "cert \<noteq> []" "last cert \<noteq> CHR 0x0A" "last cert \<noteq> CHR 0x0D"
  shows "test_announcement_signature_verification (announcement_parser digits_re jdec b64_decode sha1)
    (verify_rsa_sha256 public_key b64_decode verify) (cert_pem_fingerprint b64_decode sha1) s announcement (cert @ newline)"
proof -
  from laws obtain key where l: "json_laws print jdec reread" "digits_ok digits_re"
    "sv_cert_pem s = Some (cert @ newline)" "no_blank cert" "sv_key_pem s = Some key"
    "signing_laws public_key b64_decode verify (sign key) b64 cert"
    by (auto simp: exchange_laws_def)
  have "\<forall>ai \<in> set (actions_snapshot s). 0 \<le> sint (ai_version ai)" by (simp add: e2e_snapshot [OF s])
  moreover have "dotted (actions_snapshot s) \<noteq> []" unfolding e2e_snapshot [OF s] by code_simp
  ultimately obtain p where p: "utf8_valid announcement"
    "announcement_parser digits_re jdec b64_decode sha1 announcement = Ret p"
    "signature_is_valid (verify_rsa_sha256 public_key b64_decode verify) p"
    "pk_body p = announced_body s (cert_pem_fingerprint b64_decode sha1 cert) (reread ts)"
    using announced_parsed [OF l sent, of sha1] by blast
  have "cert_pem_fingerprint b64_decode sha1 cert = Some (cert_sha1_fingerprint sha1 der)"
    using der by (simp add: cert_pem_fingerprint_def)
  then show ?thesis
    using p fingerprint_of_file [OF cert, of b64_decode sha1]
    by (simp add: test_announcement_signature_verification_def from_utf8_def announced_body_def)
qed

lemma full_stack_tests:
  assumes s: "setup_service rand_text identity_ok rands free key_pem (cert @ newline) = (Inr (), s)"
    and laws: "exchange_laws print jdec reread compress decompress sign b64 public_key b64_decode verify digits_re s cert"
    and percent: "CHR ''%'' \<notin> set cert" "\<And>d. CHR ''%'' \<notin> set (b64 d)"
    and sent: "service_announcement print sign b64 ts s True = Ret announcement"
    and der: "pem_to_der b64_decode cert = Some der" "sha1 der \<noteq> []"
    and paths: "visible cache_path" "visible auth_path"
    and files: "setup_discovery cache_path auth_path announcement (cert_sha1_fingerprint sha1 der) = (config, cache, auth)"
      "open_file cache_path = Some reads" "cached_text announcement reads"
      "views auth_path = \<lparr>fv_content = Some auth, fv_modified = Some mtime\<rparr>"
    and lib: "regex_laws lib"
    and fresh: "\<not> expired rnd (clock 0) (ab_params (announced_body s None (reread ts)))"
    and headers: "e2e_headers enc dec" and cuts: "read_cuts cuts"
  shows "\<exists>r. registry_from_cache lib views open_file (announcement_parser digits_re jdec b64_decode sha1) rnd
        (signature_is_valid (verify_rsa_sha256 public_key b64_decode verify)) clock config = Ret r
    \<and> (let entry = find_action r now rand ''main'' ''ScampRsTest.echo'' 1; request = e2e_call enc dec cuts s
       in test_echo_roundtrip_e2e entry request \<and> test_large_body entry request
          \<and> test_unknown_action entry request \<and> test_sequential_requests entry request)"
proof -
  obtain r e where r: "registry_from_cache lib views open_file (announcement_parser digits_re jdec b64_decode sha1) rnd
        (signature_is_valid (verify_rsa_sha256 public_key b64_decode verify)) clock config = Ret r"
    and e: "find_action r now rand ''main'' ''ScampRsTest.echo'' 1 = Some e" "si_uri (ae_info e) = the (service_uri s)"
    using e2e_lookup [where lib = lib and rnd = rnd and clock = clock and reread = reread and now = now and rand = rand
        and open_file = open_file and views = views and ?sha1.0 = sha1 and ts = ts, OF s laws percent sent der paths files lib fresh] by blast
  note echo = e2e_echoes(1) [OF s headers cuts e(2)]
  have "length (''request '' @ dec_of_nat i) \<le> u64_max" if "i < 5" for i
    by (subst dec_of_nat.simps) (use that in \<open>simp add: u64_max_def\<close>)
  then have "test_sequential_requests (Some e) (e2e_call enc dec cuts s)"
    using echo by (simp add: test_sequential_requests_def)
  moreover have "test_echo_roundtrip_e2e (Some e) (e2e_call enc dec cuts s)"
    unfolding test_echo_roundtrip_e2e_def by (rule echo) (simp add: u64_max_def)
  moreover have "test_large_body (Some e) (e2e_call enc dec cuts s)"
    unfolding test_large_body_def by (rule echo) (simp add: u64_max_def)
  ultimately show ?thesis
    using r e2e_echoes(2) [OF s headers cuts e(2)] by (intro exI [of _ r]) (simp add: e(1))
qed

end
