(* ===== verification/Spec2Isabelle.thy ===== *)
theory Spec2Isabelle
  imports
    Prelude Json_Value Wire_Header Wire_Packet Wire_Stream Message Message_Trace
    Server_Connection Server_Replies Client_Reader Client_Connection Client_Calls Concurrent_System
    Call_Completion Connection_End
    Service_Info Announce Announcement_Packet Cache_File Config Bus_Info
    Authorized_Services Registry Requester Ticket Authz Remote_Authz
    Service_Runtime Observer Rpc_Support Discovery Client_Run End_To_End Perl_Interop Sample_Service Connection_Pool Command_Line Command_Session Mock_Client
    Full_Stack Network_Setup
    Unit_Tests Wire_Tests Connection_Tests Macro_Tests Discovery_Tests Full_Stack_Tests
begin

text \<open>
  SCAMP is a protocol and library for services that announce themselves on a multicast bus and are called over
  TLS connections that carry framed packets.  The repository has the library (\<open>scamp\<close>), a macro for handlers
  (\<open>scamp-macros\<close>), a command line tool (\<open>scamp-cli\<close>) and a sample service.  This development models its
  Rust code; paths below are under \<open>src/\<close>, those without a crate under \<open>src/scamp/src/\<close>.

  \<^bold>\<open>The parts and how they meet\<close>

  A service registers handlers (\<open>service/listener.rs\<close>, \<open>rpc_support.rs\<close>), binds, and announces what it offers
  (\<open>service/announce.rs\<close>, \<open>service/multicast.rs\<close>).  A client hears announcements (\<open>discovery/observer.rs\<close>) or reads
  them from a file (\<open>discovery/cache_file.rs\<close>), checks and indexes them (\<open>discovery/packet.rs\<close>,
  \<open>discovery/service_info/\<close>, \<open>auth/authorized_services.rs\<close>, \<open>discovery/service_registry.rs\<close>), and calls an action
  (\<open>requester.rs\<close>) over a pooled connection (\<open>transport/beepish/client/\<close>).  The service's end of the
  connection (\<open>service/server_connection.rs\<close>, \<open>service/server_reply.rs\<close>) checks the ticket (\<open>auth/ticket.rs\<close>,
  \<open>auth/authz.rs\<close>), runs the handler and replies.  Both ends share the packet codec (\<open>transport/beepish/proto/\<close>).

  \<^bold>\<open>Theories\<close>

  \<^item> \<open>Prelude\<close>, \<open>Json_Value\<close>: byte strings, the parts of the Rust standard library the code uses (decimal
    numbers, UTF-8, splitting), JSON values and derived deserialisation.

  \<^item> The wire.  \<open>Wire_Header\<close> (\<open>proto/header.rs\<close>), \<open>Wire_Packet\<close> (\<open>proto/packet.rs\<close>), \<open>Wire_Stream\<close> (the read loop of
    both ends; locale \<open>packet_consumer\<close>: an invariant every routed packet keeps), \<open>Message\<close> (the packets of a message
    and their assembly; locale \<open>assembler\<close>: a routing function refines the abstract assembly).

  \<^item> The ends of a connection.  \<open>Server_Connection\<close> (\<open>service/handler.rs\<close>, \<open>server_connection.rs\<close>,
    \<open>server_reply.rs\<close>; locale \<open>serving\<close>: the loop keeps what routing keeps), \<open>Client_Reader\<close> (\<open>client/reader.rs\<close>),
    \<open>Client_Connection\<close> (\<open>client/connection.rs\<close>: \<open>send_request\<close> as tasks with program counters, interleaved with
    reader, writer and timeouts by the relation \<open>client_step\<close>), \<open>Client_Run\<close> (executions of it),
    \<open>Connection_Pool\<close> (\<open>BeepishClient\<close>, connect and the fingerprint check), \<open>Mock_Client\<close> (\<open>transport/mock.rs\<close>).

  \<^item> Both ends at once.  \<open>Message_Trace\<close> (the messages a stream completes), \<open>Server_Replies\<close> (one reply for each),
    \<open>Client_Calls\<close> (ids, numbers and packets belong to one call each), and \<open>Concurrent_System\<close>: the concurrent calls
    of a client, the stream, and the task of the service, interleaved by the relation \<open>system_step\<close>.
    \<open>Call_Completion\<close>: its executions in which calls return; \<open>Connection_End\<close>: what finished calls leave, the writer
    task, the drop of a handle.

  \<^item> Discovery.  \<open>Service_Info\<close> (\<open>discovery/service_info/\<close>), \<open>Announce\<close> (\<open>service/announce.rs\<close>; locale \<open>rle_codec\<close>: the
    run-length code over an encoding of its entries), \<open>Announcement_Packet\<close> (\<open>discovery/packet.rs\<close>, \<open>crypto.rs\<close>), \<open>Cache_File\<close>,
    \<open>Observer\<close>, \<open>Registry\<close> (\<open>discovery/service_registry.rs\<close>), \<open>Discovery\<close> (announcer against observer and registry).

  \<^item> Authorization.  \<open>Authorized_Services\<close>, \<open>Ticket\<close>, \<open>Authz\<close>, \<open>Remote_Authz\<close> (the checker with the requester as
    its source).

  \<^item> Processes.  \<open>Config\<close>, \<open>Bus_Info\<close>, \<open>Service_Runtime\<close> (registration, bind, accept loop, drain, announcer),
    \<open>Requester\<close>, \<open>Rpc_Support\<close> (with \<open>scamp-macros/src/lib.rs\<close>), \<open>Sample_Service\<close> (\<open>sample-service/src\<close>),
    \<open>Command_Line\<close> and \<open>Command_Session\<close> (\<open>scamp-cli/src\<close>).

  \<^item> \<open>Network_Setup\<close> (the sockets of announcer and observer, the calls around zlib).

  \<^item> \<open>End_To_End\<close>, \<open>Full_Stack\<close> (with the files of \<open>config.rs\<close>, cache and authorized services between announcement
    and call) and this theory put them together; \<open>Perl_Interop\<close> does so for the packets captured from the Perl
    implementation (\<open>proto/fixtures.rs\<close>).

  \<^item> The repository's tests, each a boolean definition that is proved to hold: \<open>Unit_Tests\<close> (beside the code),
    \<open>Wire_Tests\<close> (\<open>proto/tests.rs\<close>, \<open>proto/fixture_tests.rs\<close>), \<open>Connection_Tests\<close>
    (\<open>service/server_connection_tests.rs\<close>, \<open>client/connection_tests.rs\<close>), \<open>Macro_Tests\<close> (\<open>scamp/tests/rpc_macro_test.rs\<close>), \<open>Discovery_Tests\<close> (those of
    discovery and of what needs files of a machine or zlib), \<open>Full_Stack_Tests\<close> (\<open>scamp/tests/e2e_full_stack.rs\<close>).

  \<^bold>\<open>Correspondence\<close>

  Definitions have the names of the code's functions where HOL allows it; a struct is a record, an enum a
  datatype, an integer of width \<open>w\<close> a word where it can wrap (message numbers, times, versions) and a number with
  its bound written out where it is only parsed, compared or counted.  A value behind a lock or an atomic
  that several tasks share is a field of the state that the steps of \<open>client_step\<close> change one access at a
  time; a task that owns its variables is a function from its inputs.  \<open>Result\<close> is a sum or the type \<open>outcome\<close>,
  which has a panic as a value of its own.  A call of code outside the repository is an argument: the
  printer and the parser of JSON text (\<open>enc\<close>, \<open>dec\<close>, \<open>print\<close>), zlib, base64, RSA, SHA1, regular expressions,
  sockets as the events they give, clocks and random numbers.  Calls of one connection that need not agree
  with each other are numbered (\<open>env_write\<close>, \<open>env_check\<close>, handlers).  What a property relies on of such code is a
  hypothesis of that property (\<open>header_fits\<close>, \<open>exchange_laws\<close>, \<open>reliable\<close>), met by concrete functions in its witness.

  \<^bold>\<open>What is shown\<close>

  \<^item> From end to end: what a service announces can be found and called, and the reply of the handler comes back
    intact, through text, signature, registry, bytes and dispatch (\<open>announced_action_called\<close>), also when the
    announcement goes through a cache file and an authorized services file (\<open>cached_action_called\<close>); the concurrent
    client has an execution that returns it (\<open>call_answered_by_service\<close>); the tool's two commands meet
    (\<open>served_echo_requested\<close>).

  \<^item> Under concurrency: whatever the interleaving and the failures, a call gets a reply computed for exactly its
    own request or a notice of loss (\<open>concurrent_calls_answered_correctly\<close>), and no call is served twice
    (\<open>calls_served_at_most_once\<close>); calls one after the other all complete, whatever the length of their bodies
    (\<open>calls_in_turn_answered\<close>); finished calls leave no entry in the tables (\<open>finished_calls_leave_nothing\<close>).

  \<^item> The wire: the codec is a round trip and stable under more input, segmentation into reads does not matter,
    both ends keep their types, DATA and replies are numbered and in order, flow control bounds what is in
    flight, every pending request is answered when a connection ends.

  \<^item> Authorization: which requests reach a handler, which tickets and lines of the file grant access, how long
    a fetched table counts.

  \<^item> Discovery: one announcement per service, the choice among services, backoff, expiry, what is announced is
    what is dispatched.

  \<^item> Where the code does not do what it means to, the property states what it does: lost HEADER order and a
    sender that waits for ever on a closed connection, the useless farewell of the announcer, cache records
    joined at buffer boundaries, aliases that bypass the authorization of announcements, the pool that ignores
    fingerprints, privileges that are dropped, the sector override without effect.

  \<^bold>\<open>Bounds\<close>

  Packets have at most 131072 bytes of payload, reads 4096, chunks 2048; the buffer cap of 131172 bytes is that
  of the code.  \<open>header_fits\<close> keeps a header's text within 100000 bytes so that its packet is below the cap
  with one read to spare.  \<open>call_answered_by_service\<close>, which follows the bytes, is for bodies up to 65536 bytes,
  where no acknowledgement is waited for; \<open>calls_in_turn_answered\<close> is for all lengths.  Message numbers and ids
  are those of the first \<open>2^64\<close> calls of a connection.  The drain needs 301 looks because looks are 100
  milliseconds apart and the deadline is 30 seconds.  \<open>usize\<close> is that of a 64-bit machine.  Doubles are rationals with
  a rounding function \<open>rnd\<close> that is an argument.  There is no fuel: every loop is a terminating function of the
  events it gets, or a step relation.

  \<^bold>\<open>Not modelled\<close>

  \<^item> The libraries themselves (serde-json, openssl, flate2, regex, clap, inventory, tokio); what a socket, a TLS
    handshake or a coder of zlib does when it is called.

  \<^item> Log messages, and messages on the terminal other than a command's result.

  \<^item> Memory that is freed.

  \<^item> Upper and lower case of letters outside ASCII.

  \<^item> Module declarations; the content of the captured announcement samples and of the files of a developer
    machine, which are arguments of the tests that read them; the key pairs tests generate.
\<close>

subsection \<open>A request and its reply, end to end\<close>

text \<open>
  C1: End to end, from the bytes of a request to the answer of its call.  A service whose writes work
  receives the bytes of one granted request, cut into reads in any way; the bytes it writes, cut
  into reads in any way, reach a client whose request with that id is pending: the call gets the
  reply the service computed for exactly that header and body, header and body intact.  (The JSON
  library is relied on for the two header texts; sizes are those of a 64-bit machine.)
\<close>

theorem request_reply_end_to_end:
  assumes "reliable env" and "\<And>k. denial env h k = None"
    and "header_fits enc dec h"
    and "\<And>k. header_fits enc dec (reply_header (reply_to env h body k) (h_request_id h))"
    and "length body \<le> u64_max"
    and "concat reads = stream_bytes enc (message_packets 0 h body)"
    and "\<forall>c \<in> set reads. c \<noteq> [] \<and> length c \<le> READ_SIZE"
    and "cl_next_in s = 0" and "cl_writer_alive s"
    and "map_of (cl_pending s) (h_request_id h) = Some t"
  shows "\<exists>c k. handle_connection env dec (map Got reads) = ReadEnd c
    \<and> (\<forall>reads'. concat reads' = stream_bytes enc (c_written c)
         \<longrightarrow> (\<forall>c \<in> set reads'. length c \<le> READ_SIZE)
         \<longrightarrow> (\<exists>s'. read_loop dec client_route_step [] s reads' = ReadEnd s'
               \<and> cl_answers s' t = Some
                   \<lparr>rs_header = reply_header (reply_to env h body k) (h_request_id h),
                    rs_body = rep_body (reply_to env h body k), rs_error = None\<rparr>))"
  using reply_exchanged [OF assms] unfolding response_to_def .

text \<open>
  C8: Two calls on one connection can ruin it.  A call takes its message number before it sends its
  HEADER, and nothing keeps another call from sending in between: the run below is reachable and
  leaves HEADER 1 before HEADER 0 on the connection, on which the service closes it at once.
\<close>

theorem overtaking_closes_connection:
  "client_reachable (overtaking a b)
   \<and> route_all (server_route env) (cl_sent (cn_client (overtaking a b))) conn_init = (False, conn_init)"
proof -
  from overtaking_sent obtain h h'
    where "cl_sent (cn_client (overtaking a b)) = [header_packet 1 h, header_packet 0 h']" by blast
  then show ?thesis
    using overtaking_reachable by (simp add: server_route_def conn_init_def)
qed

subsection \<open>Witness of the end-to-end property\<close>

text \<open>An echo service, and a client whose request 7 waits for its reply.\<close>

definition demo_enc :: "json \<Rightarrow> bytes" where
  "demo_enc = pair_enc echo_header"

definition demo_dec :: "bytes \<Rightarrow> json option" where
  "demo_dec = pair_dec echo_header (reply_header (reply_ok ''hi'') 7)"

definition demo_client :: client where
  "demo_client = client_init\<lparr>cl_pending := [(7, 0)]\<rparr>"

lemma request_reply_end_to_end_witness:
  "\<exists>c. handle_connection echo_env demo_dec
        (map Got (map (\<lambda>b. [b]) (stream_bytes demo_enc (message_packets 0 echo_header ''hi'')))) = ReadEnd c
    \<and> (\<exists>s'. read_loop demo_dec client_route_step [] demo_client
              (map (\<lambda>b. [b]) (stream_bytes demo_enc (c_written c))) = ReadEnd s'
        \<and> cl_answers s' 0 = Some
            \<lparr>rs_header = reply_header (reply_ok ''hi'') 7, rs_body = ''hi'', rs_error = None\<rparr>)"
proof -
  have one: "concat (map (\<lambda>b. [b]) xs) = xs" "\<forall>c \<in> set (map (\<lambda>b. [b]) xs). c \<noteq> [] \<and> length c \<le> READ_SIZE"
    for xs :: bytes by (induction xs) (auto simp: READ_SIZE_def)
  have id: "h_request_id echo_header = 7" by (simp add: echo_header_def)
  have reply: "reply_to echo_env echo_header ''hi'' k = reply_ok ''hi''" for k
    by (simp add: reply_to_def echo_env_def echo_action_def request_of_def)
  have "canonical_header echo_header" "canonical_header (reply_header (reply_ok ''hi'') 7)"
    "echo_header \<noteq> reply_header (reply_ok ''hi'') 7"
    by (simp_all add: canonical_header_def echo_header_def default_header_def reply_header_def reply_ok_def)
  from pair_fits [OF this] have q: "header_fits demo_enc demo_dec echo_header"
    and a: "header_fits demo_enc demo_dec (reply_header (reply_ok ''hi'') 7)"
    by (simp_all add: demo_enc_def demo_dec_def)
  have granted: "denial echo_env echo_header k = None" for k
    by (simp add: denial_def echo_env_def)
  have pending: "cl_next_in demo_client = 0" "cl_writer_alive demo_client"
    "map_of (cl_pending demo_client) (h_request_id echo_header) = Some 0"
    by (simp_all add: demo_client_def client_init_def id)
  let ?reads = "map (\<lambda>b. [b]) (stream_bytes demo_enc (message_packets 0 echo_header ''hi''))"
  have "\<exists>c k. handle_connection echo_env demo_dec (map Got ?reads) = ReadEnd c
    \<and> (\<forall>reads'. concat reads' = stream_bytes demo_enc (c_written c)
         \<longrightarrow> (\<forall>c \<in> set reads'. length c \<le> READ_SIZE)
         \<longrightarrow> (\<exists>s'. read_loop demo_dec client_route_step [] demo_client reads' = ReadEnd s'
               \<and> cl_answers s' 0 = Some
                   \<lparr>rs_header = reply_header (reply_to echo_env echo_header ''hi'' k) (h_request_id echo_header),
                    rs_body = rep_body (reply_to echo_env echo_header ''hi'' k), rs_error = None\<rparr>))"
    by (rule request_reply_end_to_end [OF _ granted q])
      (use one a pending in \<open>auto simp: id reply u64_max_def\<close>)
  then obtain c where served: "handle_connection echo_env demo_dec (map Got ?reads) = ReadEnd c"
    and answered: "\<And>reads'. concat reads' = stream_bytes demo_enc (c_written c)
      \<Longrightarrow> \<forall>c \<in> set reads'. length c \<le> READ_SIZE
      \<Longrightarrow> \<exists>s'. read_loop demo_dec client_route_step [] demo_client reads' = ReadEnd s'
        \<and> cl_answers s' 0 = Some
            \<lparr>rs_header = reply_header (reply_ok ''hi'') 7, rs_body = rep_body (reply_ok ''hi''), rs_error = None\<rparr>"
    unfolding reply id by blast
  have body: "rep_body (reply_ok ''hi'') = ''hi''" by (simp add: reply_ok_def)
  have "\<forall>c' \<in> set (map (\<lambda>b. [b]) (stream_bytes demo_enc (c_written c))). length c' \<le> READ_SIZE"
    using one(2) by blast
  from answered [OF one(1) this] served show ?thesis unfolding body by blast
qed

subsection \<open>Authorization of a service\<close>


definition tabled_env :: server_env where
  "tabled_env = echo_env\<lparr>env_check := Some (table_check (\<lambda>k s. Ret sample_ticket) Map.empty)\<rparr>"


end
